(* ===== verification/Chat_Prelude.thy ===== *)
theory Chat_Prelude
  imports Main "HOL-Library.Word" "HOL-Library.Sublist"
begin

text \<open>
  Shared vocabulary of the development.

  \<^item> Machine types of the Rust sources: bytes (\<open>u8\<close>), \<open>u16\<close>, \<open>u32\<close> as words;
    \<open>usize\<close> values as \<open>nat\<close> with the 64-bit bound written out where the code saturates.
  \<^item> A Rust \<open>Result<T, E>\<close> is the sum \<open>'e + 't\<close>: \<open>Inr\<close> is \<open>Ok\<close>, \<open>Inl\<close> is \<open>Err\<close>.
  \<^item> Generic facts on lists, association lists and searches that several components use.
  \<^item> A computation that may fail and threads a state, and its sequencing \<open>try_bind\<close>: the
    \<open>?\<close> operator of Rust.
  \<^item> Runs of a labelled transition system, the locale \<open>step_invariant\<close> of invariants and
    its extensions \<open>step_monotone\<close>, by a rank that never falls, \<open>step_refinement\<close>, by a
    simulation of an abstract system, and \<open>step_origin\<close>, by where the things in a state come
    from; the components that are state machines interpret them.
\<close>

type_synonym byte = "8 word"
type_synonym u16 = "16 word"
type_synonym u32 = "32 word"

text \<open>The byte with a given value: Rust's cast \<open>n as u8\<close>, used below 256.\<close>

definition byte_of :: "nat \<Rightarrow> byte" where
  "byte_of n = of_nat n"

type_synonym ('e, 'a) result = "'e + 'a"

text \<open>\<open>usize::MAX\<close> on the 64-bit targets of the workspace and \<open>usize::saturating_add\<close>,
  \<open>usize::saturating_sub\<close>.\<close>

definition usize_max :: nat where
  "usize_max = 2 ^ 64 - 1"

definition saturating_add :: "nat \<Rightarrow> nat \<Rightarrow> nat" where
  "saturating_add a b = min (a + b) usize_max"

definition saturating_sub :: "nat \<Rightarrow> nat \<Rightarrow> nat" where
  "saturating_sub a b = a - b"

text \<open>\<open>e?\<close> on a computation with state: an error returns early and keeps the state
  reached, a value goes on.\<close>

definition try_bind ::
    "('e, 'a) result \<times> 's \<Rightarrow> ('a \<Rightarrow> 's \<Rightarrow> ('e, 'b) result \<times> 's) \<Rightarrow> ('e, 'b) result \<times> 's" where
  "try_bind m f = (case m of (Inl e, s) \<Rightarrow> (Inl e, s) | (Inr x, s) \<Rightarrow> f x s)"

text \<open>\<open>Result::map_err\<close>.\<close>

definition map_err :: "('e \<Rightarrow> 'f) \<Rightarrow> ('e, 'a) result \<Rightarrow> ('f, 'a) result" where
  "map_err f r = (case r of Inl e \<Rightarrow> Inl (f e) | Inr x \<Rightarrow> Inr x)"

inductive steps :: "('s \<Rightarrow> 'l \<Rightarrow> 's \<Rightarrow> bool) \<Rightarrow> 's \<Rightarrow> 'l list \<Rightarrow> 's \<Rightarrow> bool" for step where
  steps_Nil: "steps step s [] s"
| steps_Cons: "step s l s' \<Longrightarrow> steps step s' ls s'' \<Longrightarrow> steps step s (l # ls) s''"

inductive_simps steps_Nil_iff [simp]: "steps step s [] s'"
inductive_simps steps_Cons_iff: "steps step s (l # ls) s'"

named_theorems lib_laws \<open>documented behaviour of the external libraries, as rewrite rules\<close>
named_theorems wire_simps \<open>facts that compute the wire encoding and decoding\<close>
named_theorems reg_simps \<open>facts on the user registry\<close>

text \<open>A list without the element at a position.\<close>

definition remove_nth :: "nat \<Rightarrow> 'a list \<Rightarrow> 'a list" where
  "remove_nth i xs = take i xs @ drop (Suc i) xs"

text \<open>First position at which a pattern occurs in a list, by naive search: the reference
  against which search routines are specified.\<close>

definition occurs_at :: "'a list \<Rightarrow> 'a list \<Rightarrow> nat \<Rightarrow> bool" where
  "occurs_at pat xs i \<longleftrightarrow> i + length pat \<le> length xs \<and> take (length pat) (drop i xs) = pat"

fun find_index :: "('a \<Rightarrow> bool) \<Rightarrow> 'a list \<Rightarrow> nat option" where
  "find_index P [] = None"
| "find_index P (x # xs) = (if P x then Some 0 else map_option Suc (find_index P xs))"

lemma remove_nth_facts:
  assumes "i < length xs"
  shows "length xs = Suc (length (remove_nth i xs))"
    "length (filter P xs) = length (filter P (remove_nth i xs)) + (if P (xs ! i) then 1 else 0)"
    "distinct xs \<Longrightarrow> set (remove_nth i xs) = set xs - {xs ! i}" "distinct xs \<Longrightarrow> distinct (remove_nth i xs)"
proof -
  have xs: "xs = take i xs @ xs ! i # drop (Suc i) xs" by (rule id_take_nth_drop [OF assms])
  show "length xs = Suc (length (remove_nth i xs))"
    "length (filter P xs) = length (filter P (remove_nth i xs)) + (if P (xs ! i) then 1 else 0)"
    by (subst xs, simp add: remove_nth_def)+
  assume "distinct xs"
  then have d: "distinct (take i xs @ xs ! i # drop (Suc i) xs)" using xs by simp
  then show "set (remove_nth i xs) = set xs - {xs ! i}" "distinct (remove_nth i xs)"
    by (subst xs, auto simp: remove_nth_def)
qed

lemma find_index_None: "find_index P xs = None \<longleftrightarrow> (\<forall>x \<in> set xs. \<not> P x)"
  by (induction xs) auto

lemma find_index_Some:
  "find_index P xs = Some i \<longleftrightarrow> i < length xs \<and> P (xs ! i) \<and> (\<forall>j < i. \<not> P (xs ! j))"
proof (induction xs arbitrary: i)
  case Nil
  then show ?case by simp
next
  case (Cons x xs)
  show ?case
  proof (cases i)
    case 0
    then show ?thesis by auto
  next
    case (Suc k)
    then show ?thesis using Cons.IH [of k] by (auto simp: less_Suc_eq_0_disj)
  qed
qed

lemma unat_byte_of [simp]: "n < 256 \<Longrightarrow> unat (byte_of n) = n"
  by (simp add: byte_of_def unat_of_nat)

lemma byte_of_unat [simp]: "byte_of (unat b) = b"
  by (simp add: byte_of_def)

lemma unat_byte_less [simp]: "unat (b :: byte) < 256"
  using unsigned_less [of b] by simp

lemma byte_of_inj: "a < 256 \<Longrightarrow> c < 256 \<Longrightarrow> byte_of a = byte_of c \<Longrightarrow> a = c"
  by (metis unat_byte_of)

subsection \<open>Failing computations\<close>

lemma try_bind_simps [simp]:
  "try_bind (Inl e, s) f = (Inl e, s)"
  "try_bind (Inr x, s) f = f x s"
  by (simp_all add: try_bind_def)

lemma map_err_simps [simp]: "map_err f (Inl e) = Inl (f e)" "map_err f (Inr x) = Inr x"
  by (simp_all add: map_err_def)

lemma try_bind_InrD:
  assumes "try_bind m f = (Inr y, s')"
  obtains x s where "m = (Inr x, s)" "f x s = (Inr y, s')"
  using assms by (cases m; cases "fst m") auto

subsection \<open>Runs and invariants of transition systems\<close>

lemma steps_append:
  "steps step s (ls @ ks) s'' \<longleftrightarrow> (\<exists>s'. steps step s ls s' \<and> steps step s' ks s'')"
  by (induction ls arbitrary: s) (auto simp: steps_Cons_iff)

locale step_invariant =
  fixes step :: "'s \<Rightarrow> 'l \<Rightarrow> 's \<Rightarrow> bool"
    and init :: "'s \<Rightarrow> bool"
    and inv :: "'s \<Rightarrow> bool"
  assumes inv_init: "init s \<Longrightarrow> inv s"
    and inv_step: "inv s \<Longrightarrow> step s l s' \<Longrightarrow> inv s'"
begin

lemma inv_steps:
  assumes "steps step s ls s'" "inv s"
  shows "inv s'"
  using assms by (induction rule: steps.induct) (auto intro: inv_step)

lemma inv_reachable:
  assumes "init s" "steps step s ls s'"
  shows "inv s'"
  using assms inv_steps inv_init by blast

end

locale step_monotone = step_invariant step init inv
  for step :: "'s \<Rightarrow> 'l \<Rightarrow> 's \<Rightarrow> bool" and init and inv +
  fixes rank :: "'s \<Rightarrow> 'o::preorder"
  assumes rank_step: "inv s \<Longrightarrow> step s l s' \<Longrightarrow> rank s \<le> rank s'"
begin

lemma rank_steps:
  assumes "steps step s ls s'" "inv s"
  shows "rank s \<le> rank s'"
  using assms
  by (induction rule: steps.induct) (auto intro: inv_step dest: rank_step order.trans)

end

text \<open>Every step stands for some steps of the abstract system, out of those that its label allows.\<close>

locale step_refinement = step_invariant step init inv
  for step :: "'s \<Rightarrow> 'l \<Rightarrow> 's \<Rightarrow> bool" and init and inv +
  fixes astep :: "'t \<Rightarrow> 'a \<Rightarrow> 't \<Rightarrow> bool"
    and abs :: "'s \<Rightarrow> 't"
    and allowed :: "'l \<Rightarrow> 'a \<Rightarrow> bool"
  assumes simulate: "inv s \<Longrightarrow> step s l s' \<Longrightarrow> \<exists>as. steps astep (abs s) as (abs s') \<and> list_all (allowed l) as"
begin

lemma simulate_steps:
  assumes "steps step s ls s'" "inv s"
  shows "\<exists>as. steps astep (abs s) as (abs s') \<and> (\<forall>a \<in> set as. \<exists>l \<in> set ls. allowed l a)"
  using assms
proof (induction rule: steps.induct)
  case (steps_Nil s)
  then show ?case by (auto intro: steps.steps_Nil)
next
  case (steps_Cons s l s' ls s'')
  from simulate [OF steps_Cons.prems steps_Cons.hyps(1)]
  obtain as where as: "steps astep (abs s) as (abs s')" "list_all (allowed l) as" by blast
  from steps_Cons.IH [OF inv_step [OF steps_Cons.prems steps_Cons.hyps(1)]]
  obtain bs where bs: "steps astep (abs s') bs (abs s'')" "\<forall>a \<in> set bs. \<exists>l \<in> set ls. allowed l a" by blast
  show ?case
    by (rule exI [of _ "as @ bs"]) (use as bs in \<open>auto simp: steps_append list_all_iff\<close>)
qed

end

text \<open>Everything that is in a reachable state was there at the beginning or was created by some step
  of the run.\<close>

locale step_origin = step_invariant step init inv
  for step :: "'s \<Rightarrow> 'l \<Rightarrow> 's \<Rightarrow> bool" and init and inv +
  fixes items :: "'s \<Rightarrow> 'm set"
    and creates :: "'s \<Rightarrow> 'l \<Rightarrow> 's \<Rightarrow> 'm \<Rightarrow> bool"
  assumes origin: "inv s \<Longrightarrow> step s l s' \<Longrightarrow> m \<in> items s' \<Longrightarrow> m \<in> items s \<or> creates s l s' m"
begin

lemma origin_steps:
  assumes "steps step s ls s'" "inv s" "m \<in> items s'"
  shows "m \<in> items s \<or> (\<exists>ls1 l ls2 s1 s2. ls = ls1 @ l # ls2 \<and> steps step s ls1 s1 \<and> step s1 l s2 \<and> creates s1 l s2 m)"
  using assms
proof (induction rule: steps.induct)
  case (steps_Cons s l s' ls s'')
  from steps_Cons.IH [OF inv_step [OF steps_Cons.prems(1) steps_Cons.hyps(1)] steps_Cons.prems(2)]
  show ?case
  proof
    assume "m \<in> items s'"
    from origin [OF steps_Cons.prems(1) steps_Cons.hyps(1) this] show ?thesis
    proof
      assume "creates s l s' m"
      with steps_Cons.hyps(1) have "l # ls = [] @ l # ls \<and> steps step s [] s \<and> step s l s' \<and> creates s l s' m"
        by (simp add: steps.steps_Nil)
      then show ?thesis by blast
    qed simp
  next
    assume "\<exists>ls1 k ls2 s1 s2. ls = ls1 @ k # ls2 \<and> steps step s' ls1 s1 \<and> step s1 k s2 \<and> creates s1 k s2 m"
    then obtain ls1 k ls2 s1 s2 where k: "ls = ls1 @ k # ls2" "steps step s' ls1 s1" "step s1 k s2" "creates s1 k s2 m"
      by blast
    then have "l # ls = (l # ls1) @ k # ls2 \<and> steps step s (l # ls1) s1 \<and> step s1 k s2 \<and> creates s1 k s2 m"
      using steps_Cons.hyps(1) by (auto intro: steps.steps_Cons)
    then show ?thesis by blast
  qed
qed simp

end

end
