(* ===== verification/Rust_Str.thy ===== *)
theory Rust_Str
  imports Chat_Prelude
begin

text \<open>
  Rust text, as the standard library defines it. A \<open>char\<close> is a Unicode scalar value (a
  \<open>nat\<close> for which \<open>is_scalar\<close> holds), a \<open>str\<close> is the list of its scalar values, and
  the bytes of a \<open>str\<close> are its UTF-8 encoding \<open>utf8\<close>; \<open>from_utf8\<close> is the strict
  decoder (shortest form, no surrogates, at most U+10FFFF). Byte offsets, as used by
  \<open>str::get\<close> and \<open>str::len\<close>, count bytes of the encoding.

  White space and control characters are the fixed sets of the Unicode standard. The case
  and alphabet tables of the standard library beyond ASCII change with each Unicode version;
  they are the parameter \<open>unicode\<close>, while the ASCII part is computed exactly.

  Main facts: \<open>from_utf8\<close> and \<open>utf8\<close> are inverse to each other (both directions), and
  byte slicing at the end of an encoded prefix splits the text there.
\<close>

type_synonym rchar = nat
type_synonym rstr = "rchar list"

definition lit :: "string \<Rightarrow> rstr" where
  "lit s = map of_char s"

definition is_scalar :: "rchar \<Rightarrow> bool" where
  "is_scalar c \<longleftrightarrow> c < 0xD800 \<or> (0xE000 \<le> c \<and> c < 0x110000)"

definition wf_str :: "rstr \<Rightarrow> bool" where
  "wf_str s \<longleftrightarrow> list_all is_scalar s"

subsection \<open>UTF-8\<close>

definition utf8_char :: "rchar \<Rightarrow> byte list" where
  "utf8_char c =
     (if c < 0x80 then [byte_of c]
      else if c < 0x800 then [byte_of (0xC0 + c div 64), byte_of (0x80 + c mod 64)]
      else if c < 0x10000 then
        [byte_of (0xE0 + c div 4096), byte_of (0x80 + c div 64 mod 64), byte_of (0x80 + c mod 64)]
      else
        [byte_of (0xF0 + c div 262144), byte_of (0x80 + c div 4096 mod 64),
         byte_of (0x80 + c div 64 mod 64), byte_of (0x80 + c mod 64)])"

definition utf8 :: "rstr \<Rightarrow> byte list" where
  "utf8 s = concat (map utf8_char s)"

definition len_utf8 :: "rchar \<Rightarrow> nat" where
  "len_utf8 c = (if c < 0x80 then 1 else if c < 0x800 then 2 else if c < 0x10000 then 3 else 4)"

definition cont :: "byte \<Rightarrow> bool" where
  "cont b \<longleftrightarrow> 0x80 \<le> unat b \<and> unat b < 0xC0"

definition utf8_next :: "byte list \<Rightarrow> (rchar \<times> byte list) option" where
  "utf8_next bs =
     (case bs of
        [] \<Rightarrow> None
      | b # r \<Rightarrow>
        if unat b < 0x80 then Some (unat b, r)
        else if unat b < 0xC2 then None
        else if unat b < 0xE0 then
          (case r of
             b1 # r' \<Rightarrow>
               if cont b1 then Some ((unat b - 0xC0) * 64 + (unat b1 - 0x80), r') else None
           | _ \<Rightarrow> None)
        else if unat b < 0xF0 then
          (case r of
             b1 # b2 # r' \<Rightarrow>
               (let c = (unat b - 0xE0) * 4096 + (unat b1 - 0x80) * 64 + (unat b2 - 0x80)
                in if cont b1 \<and> cont b2 \<and> 0x800 \<le> c \<and> is_scalar c then Some (c, r') else None)
           | _ \<Rightarrow> None)
        else if unat b < 0xF5 then
          (case r of
             b1 # b2 # b3 # r' \<Rightarrow>
               (let c = (unat b - 0xF0) * 262144 + (unat b1 - 0x80) * 4096
                        + (unat b2 - 0x80) * 64 + (unat b3 - 0x80)
                in if cont b1 \<and> cont b2 \<and> cont b3 \<and> 0x10000 \<le> c \<and> is_scalar c
                   then Some (c, r') else None)
           | _ \<Rightarrow> None)
        else None)"

lemma utf8_next_length: "utf8_next bs = Some (c, r) \<Longrightarrow> length r < length bs"
  by (auto simp: utf8_next_def Let_def split: list.splits if_splits)

function from_utf8 :: "byte list \<Rightarrow> rstr option" where
  "from_utf8 bs =
     (if bs = [] then Some []
      else case utf8_next bs of
             None \<Rightarrow> None
           | Some (c, r) \<Rightarrow> map_option ((#) c) (from_utf8 r))"
  by pat_completeness auto
termination
  by (relation "measure length") (auto dest: utf8_next_length)

declare from_utf8.simps [simp del]

text \<open>\<open>String::from_utf8_lossy\<close> replaces each maximal prefix of an ill-formed sequence by
  U+FFFD. \<open>invalid_len\<close> is the length of that prefix: the lead byte and the continuation
  bytes that could still have belonged to a character.\<close>

definition second_ok :: "byte \<Rightarrow> byte \<Rightarrow> bool" where
  "second_ok b b1 \<longleftrightarrow>
     (let x = unat b; y = unat b1 in
      if x = 0xE0 then 0xA0 \<le> y \<and> y < 0xC0
      else if x = 0xED then 0x80 \<le> y \<and> y < 0xA0
      else if x = 0xF0 then 0x90 \<le> y \<and> y < 0xC0
      else if x = 0xF4 then 0x80 \<le> y \<and> y < 0x90
      else cont b1)"

definition invalid_len :: "byte list \<Rightarrow> nat" where
  "invalid_len bs =
     (case bs of
        b # b1 # b2 # _ \<Rightarrow>
          if 0xE0 \<le> unat b \<and> unat b < 0xF5 \<and> second_ok b b1
          then (if 0xF0 \<le> unat b \<and> cont b2 then 3 else 2) else 1
      | [b, b1] \<Rightarrow> if 0xE0 \<le> unat b \<and> unat b < 0xF5 \<and> second_ok b b1 then 2 else 1
      | _ \<Rightarrow> 1)"

function from_utf8_lossy :: "byte list \<Rightarrow> rstr" where
  "from_utf8_lossy bs =
     (if bs = [] then []
      else case utf8_next bs of
             None \<Rightarrow> 0xFFFD # from_utf8_lossy (drop (invalid_len bs) bs)
           | Some (c, r) \<Rightarrow> c # from_utf8_lossy r)"
  by pat_completeness auto
termination
  by (relation "measure length")
    (auto simp: invalid_len_def dest: utf8_next_length split: list.splits)

declare from_utf8_lossy.simps [simp del]

definition str_len :: "rstr \<Rightarrow> nat" where
  "str_len s = length (utf8 s)"

subsection \<open>Slicing by byte offset\<close>

text \<open>\<open>s.get(..i)\<close> and \<open>s.get(i..)\<close>: \<open>None\<close> unless \<open>i\<close> is a character boundary.\<close>

fun str_get_to :: "rstr \<Rightarrow> nat \<Rightarrow> rstr option" where
  "str_get_to [] i = (if i = 0 then Some [] else None)"
| "str_get_to (c # s) i =
     (if i = 0 then Some []
      else if len_utf8 c \<le> i then map_option ((#) c) (str_get_to s (i - len_utf8 c))
      else None)"

fun str_get_from :: "rstr \<Rightarrow> nat \<Rightarrow> rstr option" where
  "str_get_from [] i = (if i = 0 then Some [] else None)"
| "str_get_from (c # s) i =
     (if i = 0 then Some (c # s)
      else if len_utf8 c \<le> i then str_get_from s (i - len_utf8 c)
      else None)"

subsection \<open>Character classes, trimming, case\<close>

definition is_ascii_char :: "rchar \<Rightarrow> bool" where
  "is_ascii_char c \<longleftrightarrow> c < 0x80"

definition is_ascii :: "rstr \<Rightarrow> bool" where
  "is_ascii s \<longleftrightarrow> list_all is_ascii_char s"

text \<open>\<open>char::is_whitespace\<close>: the Unicode property \<open>White_Space\<close>.\<close>

definition is_whitespace :: "rchar \<Rightarrow> bool" where
  "is_whitespace c \<longleftrightarrow>
     (0x09 \<le> c \<and> c \<le> 0x0D) \<or> c = 0x20 \<or> c = 0x85 \<or> c = 0xA0 \<or> c = 0x1680
     \<or> (0x2000 \<le> c \<and> c \<le> 0x200A) \<or> c = 0x2028 \<or> c = 0x2029 \<or> c = 0x202F \<or> c = 0x205F
     \<or> c = 0x3000"

text \<open>\<open>char::is_control\<close>: the Unicode category \<open>Cc\<close>.\<close>

definition is_control :: "rchar \<Rightarrow> bool" where
  "is_control c \<longleftrightarrow> c < 0x20 \<or> (0x7F \<le> c \<and> c < 0xA0)"

definition trim_start :: "rstr \<Rightarrow> rstr" where
  "trim_start s = dropWhile is_whitespace s"

definition trim_end :: "rstr \<Rightarrow> rstr" where
  "trim_end s = rev (dropWhile is_whitespace (rev s))"

definition trim :: "rstr \<Rightarrow> rstr" where
  "trim s = trim_end (trim_start s)"

definition is_ascii_uppercase :: "rchar \<Rightarrow> bool" where
  "is_ascii_uppercase c \<longleftrightarrow> 0x41 \<le> c \<and> c \<le> 0x5A"

definition is_ascii_lowercase :: "rchar \<Rightarrow> bool" where
  "is_ascii_lowercase c \<longleftrightarrow> 0x61 \<le> c \<and> c \<le> 0x7A"

definition is_ascii_digit :: "rchar \<Rightarrow> bool" where
  "is_ascii_digit c \<longleftrightarrow> 0x30 \<le> c \<and> c \<le> 0x39"

definition is_ascii_alphabetic :: "rchar \<Rightarrow> bool" where
  "is_ascii_alphabetic c \<longleftrightarrow> is_ascii_uppercase c \<or> is_ascii_lowercase c"

definition to_ascii_uppercase :: "rchar \<Rightarrow> rchar" where
  "to_ascii_uppercase c = (if is_ascii_lowercase c then c - 0x20 else c)"

definition to_ascii_lowercase :: "rchar \<Rightarrow> rchar" where
  "to_ascii_lowercase c = (if is_ascii_uppercase c then c + 0x20 else c)"

definition eq_ignore_ascii_case :: "rstr \<Rightarrow> rstr \<Rightarrow> bool" where
  "eq_ignore_ascii_case a b \<longleftrightarrow> map to_ascii_lowercase a = map to_ascii_lowercase b"

text \<open>The Unicode tables of the standard library beyond ASCII.\<close>

record unicode =
  uni_upper :: "rchar \<Rightarrow> rstr"
  uni_lower :: "rchar \<Rightarrow> rstr"
  uni_alphanumeric :: "rchar \<Rightarrow> bool"
  uni_cased :: "rchar \<Rightarrow> bool"
  uni_case_ignorable :: "rchar \<Rightarrow> bool"

text \<open>A table with no letters beyond ASCII, for concrete runs on ASCII text.\<close>

definition ascii_unicode :: unicode where
  "ascii_unicode = \<lparr> uni_upper = (\<lambda>c. [c]), uni_lower = (\<lambda>c. [c]), uni_alphanumeric = (\<lambda>c. False),
     uni_cased = is_ascii_alphabetic, uni_case_ignorable = (\<lambda>c. False) \<rparr>"

definition is_alphanumeric :: "unicode \<Rightarrow> rchar \<Rightarrow> bool" where
  "is_alphanumeric U c =
     (if is_ascii_char c then is_ascii_alphabetic c \<or> is_ascii_digit c else uni_alphanumeric U c)"

definition char_to_uppercase :: "unicode \<Rightarrow> rchar \<Rightarrow> rstr" where
  "char_to_uppercase U c = (if is_ascii_char c then [to_ascii_uppercase c] else uni_upper U c)"

definition char_to_lowercase :: "unicode \<Rightarrow> rchar \<Rightarrow> rstr" where
  "char_to_lowercase U c = (if is_ascii_char c then [to_ascii_lowercase c] else uni_lower U c)"

definition str_to_uppercase :: "unicode \<Rightarrow> rstr \<Rightarrow> rstr" where
  "str_to_uppercase U s = concat (map (char_to_uppercase U) s)"

text \<open>\<open>str::to_lowercase\<close> maps characters one by one, except that a capital sigma becomes a
  final sigma at the end of a word.\<close>

definition case_ignorable_then_cased :: "unicode \<Rightarrow> rstr \<Rightarrow> bool" where
  "case_ignorable_then_cased U s =
     (case dropWhile (uni_case_ignorable U) s of [] \<Rightarrow> False | c # _ \<Rightarrow> uni_cased U c)"

definition map_uppercase_sigma :: "unicode \<Rightarrow> rstr \<Rightarrow> rstr \<Rightarrow> rchar" where
  "map_uppercase_sigma U rev_before after =
     (if case_ignorable_then_cased U rev_before \<and> \<not> case_ignorable_then_cased U after
      then 0x3C2 else 0x3C3)"

fun lowercase_from :: "unicode \<Rightarrow> rstr \<Rightarrow> rstr \<Rightarrow> rstr" where
  "lowercase_from U rev_before [] = []"
| "lowercase_from U rev_before (c # s) =
     (if c = 0x3A3 then [map_uppercase_sigma U rev_before s] else char_to_lowercase U c)
     @ lowercase_from U (c # rev_before) s"

definition str_to_lowercase :: "unicode \<Rightarrow> rstr \<Rightarrow> rstr" where
  "str_to_lowercase U s = lowercase_from U [] s"

subsection \<open>Prefixes, joining, formatting\<close>

definition strip_prefix :: "rstr \<Rightarrow> rstr \<Rightarrow> rstr option" where
  "strip_prefix p s = (if take (length p) s = p then Some (drop (length p) s) else None)"

fun join :: "rstr \<Rightarrow> rstr list \<Rightarrow> rstr" where
  "join sep [] = []"
| "join sep [s] = s"
| "join sep (s # t # ts) = s @ sep @ join sep (t # ts)"

text \<open>\<open>format!("{n}")\<close> of an unsigned integer and \<open>format!("{byte:02x}")\<close>.\<close>

fun show_nat :: "nat \<Rightarrow> rstr" where
  "show_nat n = (if n < 10 then [0x30 + n] else show_nat (n div 10) @ [0x30 + n mod 10])"

declare show_nat.simps [simp del]

definition hex_digit :: "nat \<Rightarrow> rchar" where
  "hex_digit d = (if d < 10 then 0x30 + d else 0x61 + (d - 10))"

definition show_hex2 :: "byte \<Rightarrow> rstr" where
  "show_hex2 b = [hex_digit (unat b div 16), hex_digit (unat b mod 16)]"

subsection \<open>UTF-8 is a bijection onto the valid encodings\<close>

lemma length_utf8_char [simp]: "length (utf8_char c) = len_utf8 c"
  by (simp add: utf8_char_def len_utf8_def)

lemma len_utf8_pos [simp]: "0 < len_utf8 c"
  by (simp add: len_utf8_def)

lemma len_utf8_le_4: "len_utf8 c \<le> 4"
  by (simp add: len_utf8_def)

lemma utf8_char_neq_Nil [simp]: "utf8_char c \<noteq> []"
  by (simp add: utf8_char_def)

lemma utf8_simps [simp]:
  "utf8 [] = []" "utf8 (c # s) = utf8_char c @ utf8 s" "utf8 (s @ t) = utf8 s @ utf8 t"
  by (simp_all add: utf8_def)

lemma utf8_eq_Nil [simp]: "utf8 s = [] \<longleftrightarrow> s = []"
  by (cases s) auto

text \<open>The digits of a scalar value in base 64, and back.\<close>

lemma digits64:
  fixes c :: nat
  obtains d0 d1 d2 d3 where "c = ((d3 * 64 + d2) * 64 + d1) * 64 + d0"
    "d0 < 64" "d1 < 64" "d2 < 64"
    "c mod 64 = d0" "c div 64 mod 64 = d1" "c div 4096 mod 64 = d2" "c div 262144 = d3"
    "c div 64 = (d3 * 64 + d2) * 64 + d1" "c div 4096 = d3 * 64 + d2"
proof -
  have eq: "c div 4096 = c div 64 div 64" "c div 262144 = c div 64 div 64 div 64"
    by (simp_all add: div_mult2_eq [symmetric])
  show thesis
    by (rule that [of "c div 262144" "c div 4096 mod 64" "c div 64 mod 64" "c mod 64"])
      (simp_all add: eq)
qed

lemma is_scalar_bound: "is_scalar c \<Longrightarrow> c < 0x110000"
  by (auto simp: is_scalar_def)

lemma utf8_next_char [simp]:
  assumes "is_scalar c"
  shows "utf8_next (utf8_char c @ r) = Some (c, r)"
proof -
  obtain d0 d1 d2 d3 where d: "c = ((d3 * 64 + d2) * 64 + d1) * 64 + d0"
      "d0 < 64" "d1 < 64" "d2 < 64" and
    m: "c mod 64 = d0" "c div 64 mod 64 = d1" "c div 4096 mod 64 = d2" "c div 262144 = d3"
      "c div 64 = (d3 * 64 + d2) * 64 + d1" "c div 4096 = d3 * 64 + d2"
    by (rule digits64)
  have b: "c < 0x110000" using assms by (rule is_scalar_bound)
  consider "c < 0x80" | "0x80 \<le> c" "c < 0x800" | "0x800 \<le> c" "c < 0x10000" | "0x10000 \<le> c"
    by linarith
  then show ?thesis
  proof cases
    case 1
    then show ?thesis by (simp add: utf8_char_def utf8_next_def)
  next
    case 2
    then have "c div 4096 = 0" by simp
    with m have "d3 = 0" "d2 = 0" by simp_all
    with 2 d have "2 \<le> d1" "d1 < 32" by simp_all
    with 2 d m \<open>d3 = 0\<close> \<open>d2 = 0\<close> show ?thesis by (simp add: utf8_char_def utf8_next_def cont_def)
  next
    case 3
    then have "c div 262144 = 0" by simp
    with m have "d3 = 0" by simp
    with 3 d have "d2 < 16" by simp
    with 3 d m assms \<open>d3 = 0\<close> show ?thesis
      by (simp add: utf8_char_def utf8_next_def cont_def Let_def algebra_simps)
  next
    case 4
    from d b have "d3 < 5" by simp
    with 4 d m assms show ?thesis
      by (simp add: utf8_char_def utf8_next_def cont_def Let_def algebra_simps)
  qed
qed

lemma from_utf8_Nil [simp]: "from_utf8 [] = Some []"
  by (simp add: from_utf8.simps)

lemma from_utf8_char [simp]:
  "is_scalar c \<Longrightarrow> from_utf8 (utf8_char c @ r) = map_option ((#) c) (from_utf8 r)"
  by (subst from_utf8.simps) simp

lemma wf_str_simps [simp]:
  "wf_str []" "wf_str (c # s) \<longleftrightarrow> is_scalar c \<and> wf_str s" "wf_str (s @ t) \<longleftrightarrow> wf_str s \<and> wf_str t"
  by (simp_all add: wf_str_def)

lemma from_utf8_utf8 [simp]: "wf_str s \<Longrightarrow> from_utf8 (utf8 s) = Some s"
  by (induction s) auto

lemma cont_byteE:
  assumes "cont b"
  obtains y where "y < 64" "b = byte_of (0x80 + y)" "unat b = 0x80 + y"
  using assms that [of "unat b - 0x80"] by (simp add: cont_def)

lemma lead_byteE:
  assumes "n \<le> unat b"
  obtains x where "b = byte_of (n + x)" "unat b = n + x"
  using assms that [of "unat b - n"] by simp

lemma div_mod_64: "c = q * 64 + z \<Longrightarrow> z < 64 \<Longrightarrow> c mod 64 = z \<and> c div 64 = (q :: nat)"
  by simp

lemma div_4096: "(c :: nat) div 4096 = c div 64 div 64"
  by (simp add: div_mult2_eq [symmetric])

lemma div_262144: "(c :: nat) div 262144 = c div 64 div 64 div 64"
  by (simp add: div_mult2_eq [symmetric])

lemma from_utf8_lossy_valid: "from_utf8 bs = Some s \<Longrightarrow> from_utf8_lossy bs = s"
proof (induction bs arbitrary: s rule: from_utf8.induct)
  case (1 bs)
  then show ?case
    by (auto simp: from_utf8.simps [of bs] from_utf8_lossy.simps [of bs]
        split: if_splits option.splits)
qed

lemma utf8_next_two:
  assumes "utf8_next (b # bs) = Some (c, r)" "0xC2 \<le> unat b" "unat b < 0xE0"
  shows "is_scalar c \<and> b # bs = utf8_char c @ r"
proof -
  from assms obtain b1 where *: "bs = b1 # r" "cont b1"
    and c: "c = (unat b - 0xC0) * 64 + (unat b1 - 0x80)"
    by (auto simp: utf8_next_def split: list.splits if_splits)
  obtain x where x: "b = byte_of (0xC0 + x)" "unat b = 0xC0 + x"
    using assms(2,3) by (auto intro: lead_byteE [of "0xC0" b])
  obtain y where y: "y < 64" "b1 = byte_of (0x80 + y)" "unat b1 = 0x80 + y"
    using *(2) by (rule cont_byteE)
  from c x y have "c = x * 64 + y" by simp
  with assms(2,3) x y * show ?thesis by (simp add: utf8_char_def is_scalar_def)
qed

lemma utf8_next_three:
  assumes "utf8_next (b # bs) = Some (c, r)" "0xE0 \<le> unat b" "unat b < 0xF0"
  shows "is_scalar c \<and> b # bs = utf8_char c @ r"
proof -
  from assms obtain b1 b2 where *: "bs = b1 # b2 # r" "cont b1" "cont b2"
    and c: "c = (unat b - 0xE0) * 4096 + (unat b1 - 0x80) * 64 + (unat b2 - 0x80)"
    and sc: "0x800 \<le> c" "is_scalar c"
    by (auto simp: utf8_next_def Let_def split: list.splits if_splits)
  obtain x where x: "b = byte_of (0xE0 + x)" "unat b = 0xE0 + x"
    using assms(2,3) by (auto intro: lead_byteE [of "0xE0" b])
  obtain y where y: "y < 64" "b1 = byte_of (0x80 + y)" "unat b1 = 0x80 + y"
    using *(2) by (rule cont_byteE)
  obtain z where z: "z < 64" "b2 = byte_of (0x80 + z)" "unat b2 = 0x80 + z"
    using *(3) by (rule cont_byteE)
  from c x y z have c': "c = (x * 64 + y) * 64 + z" by simp
  with assms(2,3) x y z have "c < 0x10000" by simp
  moreover have "c mod 64 = z" "c div 64 = x * 64 + y" "c div 64 mod 64 = y" "c div 4096 = x"
    using div_mod_64 [OF c' z(1)] div_mod_64 [OF refl y(1), of x] by (simp_all add: div_4096)
  ultimately show ?thesis using sc x y z * by (simp add: utf8_char_def)
qed

lemma utf8_next_four:
  assumes "utf8_next (b # bs) = Some (c, r)" "0xF0 \<le> unat b" "unat b < 0xF5"
  shows "is_scalar c \<and> b # bs = utf8_char c @ r"
proof -
  from assms obtain b1 b2 b3 where *: "bs = b1 # b2 # b3 # r" "cont b1" "cont b2" "cont b3"
    and c: "c = (unat b - 0xF0) * 262144 + (unat b1 - 0x80) * 4096 + (unat b2 - 0x80) * 64
      + (unat b3 - 0x80)"
    and sc: "0x10000 \<le> c" "is_scalar c"
    by (auto simp: utf8_next_def Let_def split: list.splits if_splits)
  obtain x where x: "b = byte_of (0xF0 + x)" "unat b = 0xF0 + x"
    using assms(2,3) by (auto intro: lead_byteE [of "0xF0" b])
  obtain w where w: "w < 64" "b1 = byte_of (0x80 + w)" "unat b1 = 0x80 + w"
    using *(2) by (rule cont_byteE)
  obtain y where y: "y < 64" "b2 = byte_of (0x80 + y)" "unat b2 = 0x80 + y"
    using *(3) by (rule cont_byteE)
  obtain z where z: "z < 64" "b3 = byte_of (0x80 + z)" "unat b3 = 0x80 + z"
    using *(4) by (rule cont_byteE)
  from c x w y z have c': "c = ((x * 64 + w) * 64 + y) * 64 + z" by simp
  have "c mod 64 = z" "c div 64 = (x * 64 + w) * 64 + y" "c div 64 mod 64 = y"
    "c div 4096 = x * 64 + w" "c div 4096 mod 64 = w" "c div 262144 = x"
    using div_mod_64 [OF c' z(1)] div_mod_64 [OF refl y(1), of "x * 64 + w"]
      div_mod_64 [OF refl w(1), of x] by (simp_all add: div_4096 div_262144)
  then show ?thesis using sc x w y z * by (simp add: utf8_char_def)
qed

lemma utf8_next_sound:
  assumes "utf8_next bs = Some (c, r)"
  shows "is_scalar c \<and> bs = utf8_char c @ r"
proof -
  obtain b bs1 where bs: "bs = b # bs1"
    using assms by (cases bs) (auto simp: utf8_next_def)
  consider (one) "unat b < 0x80" | (two) "0xC2 \<le> unat b" "unat b < 0xE0"
    | (three) "0xE0 \<le> unat b" "unat b < 0xF0" | (four) "0xF0 \<le> unat b" "unat b < 0xF5"
    using assms bs by (auto simp: utf8_next_def split: if_splits)
  then show ?thesis
  proof cases
    case one
    with assms bs show ?thesis by (auto simp: utf8_next_def utf8_char_def is_scalar_def)
  next
    case two
    with utf8_next_two assms bs show ?thesis by blast
  next
    case three
    with utf8_next_three assms bs show ?thesis by blast
  next
    case four
    with utf8_next_four assms bs show ?thesis by blast
  qed
qed

lemma from_utf8_sound: "from_utf8 bs = Some s \<Longrightarrow> wf_str s \<and> utf8 s = bs"
proof (induction bs arbitrary: s rule: from_utf8.induct)
  case (1 bs)
  show ?case
  proof (cases "bs = []")
    case False
    with "1.prems" obtain c r s' where step: "utf8_next bs = Some (c, r)" "from_utf8 r = Some s'" "s = c # s'"
      by (auto simp: from_utf8.simps [of bs] split: option.splits)
    with "1.IH" False have "wf_str s' \<and> utf8 s' = r" by auto
    with step utf8_next_sound [OF step(1)] show ?thesis by simp
  qed (use "1.prems" in simp)
qed

subsection \<open>Slicing\<close>

lemma str_get_to_0 [simp]: "str_get_to s 0 = Some []"
  by (cases s) auto

lemma str_get_from_0 [simp]: "str_get_from s 0 = Some s"
  by (cases s) auto

lemma str_get_to_utf8 [simp]: "str_get_to (s @ t) (length (utf8 s)) = Some s"
  by (induction s) auto

lemma str_get_from_utf8 [simp]: "str_get_from (s @ t) (length (utf8 s)) = Some t"
  by (induction s) auto

lemma utf8_char_ascii: "c < 0x80 \<Longrightarrow> utf8_char c = [byte_of c]"
  by (simp add: utf8_char_def)

lemma utf8_ascii: "is_ascii s \<Longrightarrow> utf8 s = map byte_of s"
  by (induction s) (auto simp: is_ascii_def is_ascii_char_def utf8_char_ascii)

text \<open>Bytes of non-ASCII characters are never ASCII bytes, so an ASCII byte in the encoding
  stands for itself.\<close>

lemma utf8_char_high: "is_scalar c \<Longrightarrow> 0x80 \<le> c \<Longrightarrow> b \<in> set (utf8_char c) \<Longrightarrow> 0x80 \<le> unat b"
proof -
  assume c: "is_scalar c" "0x80 \<le> c" "b \<in> set (utf8_char c)"
  have "c < 0x110000" using c(1) by (rule is_scalar_bound)
  then have "c div 262144 < 5" by simp
  moreover have "c < 0x800 \<Longrightarrow> c div 64 < 32" "c < 0x10000 \<Longrightarrow> c div 4096 < 16" by simp_all
  moreover have "c div 64 mod 64 < 64" "c mod 64 < 64" "c div 4096 mod 64 < 64" by simp_all
  ultimately show ?thesis using c(2,3)
    by (auto simp: utf8_char_def split: if_splits)
qed

lemma ascii_byte_in_utf8:
  assumes "wf_str s" "a < 0x80"
  shows "byte_of a \<in> set (utf8 s) \<longleftrightarrow> a \<in> set s"
  using assms(1)
proof (induction s)
  case (Cons c s)
  have "byte_of a \<in> set (utf8_char c) \<longleftrightarrow> a = c"
  proof (cases "c < 0x80")
    case True
    have "byte_of a = byte_of c \<longleftrightarrow> a = c"
      using True assms(2) byte_of_inj [of a c] by auto
    with True show ?thesis by (auto simp: utf8_char_ascii)
  next
    case False
    with Cons.prems assms(2) utf8_char_high [of c "byte_of a"] show ?thesis by fastforce
  qed
  with Cons show ?case by auto
qed simp

text \<open>A trailing ASCII byte is decoded on its own.\<close>

lemma utf8_snoc_ascii:
  assumes "wf_str s" "utf8 s = bs @ [byte_of a]" "a < 0x80"
  shows "\<exists>t. s = t @ [a] \<and> utf8 t = bs"
proof (cases s rule: rev_cases)
  case Nil
  with assms show ?thesis by simp
next
  case (snoc t c)
  have "last (utf8_char c) = byte_of a" using assms(2) snoc by (metis last_appendR last_snoc utf8_char_neq_Nil utf8_simps append_Nil2)
  then have "byte_of a \<in> set (utf8_char c)" by (metis last_in_set utf8_char_neq_Nil)
  then have "a = c"
    using assms snoc ascii_byte_in_utf8 [of "[c]" a] by simp
  with assms snoc show ?thesis by (simp add: utf8_char_ascii)
qed

lemma from_utf8_snoc_ascii:
  assumes "a < 0x80"
  shows "from_utf8 (bs @ [byte_of a]) = map_option (\<lambda>s. s @ [a]) (from_utf8 bs)"
proof (cases "from_utf8 bs")
  case (Some s)
  then have s: "wf_str s" "utf8 s = bs" using from_utf8_sound by blast+
  with assms have "wf_str (s @ [a])" "utf8 (s @ [a]) = bs @ [byte_of a]"
    by (simp_all add: utf8_char_ascii is_scalar_def)
  with Some show ?thesis by (metis from_utf8_utf8 option.simps(9))
next
  case None
  have "from_utf8 (bs @ [byte_of a]) = None"
  proof (rule ccontr)
    assume "from_utf8 (bs @ [byte_of a]) \<noteq> None"
    then obtain s where s: "from_utf8 (bs @ [byte_of a]) = Some s" by blast
    then have "wf_str s" "utf8 s = bs @ [byte_of a]" using from_utf8_sound by blast+
    then obtain t where "s = t @ [a]" "utf8 t = bs" using utf8_snoc_ascii assms by blast
    with \<open>wf_str s\<close> have "from_utf8 bs = Some t" by auto
    with None show False by simp
  qed
  with None show ?thesis by simp
qed

lemma wf_str_ascii: "is_ascii s \<Longrightarrow> wf_str s"
  by (induction s) (auto simp: is_ascii_def is_ascii_char_def is_scalar_def)

lemma utf8_inj: "wf_str s \<Longrightarrow> wf_str t \<Longrightarrow> utf8 s = utf8 t \<Longrightarrow> s = t"
  by (metis from_utf8_utf8 option.inject)

lemma length_utf8_le: "length (utf8 s) \<le> 4 * length s"
  by (induction s) (auto simp: le_trans [OF add_le_mono [OF len_utf8_le_4]])

lemma length_le_utf8: "length s \<le> length (utf8 s)"
proof (induction s)
  case (Cons c s)
  then show ?case using len_utf8_pos [of c] unfolding utf8_simps by (simp del: len_utf8_pos)
qed simp

subsection \<open>Trimming\<close>

lemma trim_start_Nil_iff: "trim_start s = [] \<longleftrightarrow> list_all is_whitespace s"
  by (simp add: trim_start_def list_all_iff)

lemma trim_end_append:
  "t \<noteq> [] \<Longrightarrow> \<not> is_whitespace (last t) \<Longrightarrow> trim_end (s @ t) = s @ t"
  by (cases t rule: rev_cases) (auto simp: trim_end_def)

lemma trim_id:
  assumes "s \<noteq> []" "\<not> is_whitespace (hd s)" "\<not> is_whitespace (last s)"
  shows "trim s = s"
proof -
  from assms(1,2) have "trim_start s = s" by (cases s) (auto simp: trim_start_def)
  with trim_end_append [OF assms(1,3), of "[]"] show ?thesis by (simp add: trim_def)
qed

lemma trim_end_decomp: "\<exists>w. s = trim_end s @ w \<and> list_all is_whitespace w"
proof -
  have "rev s = takeWhile is_whitespace (rev s) @ dropWhile is_whitespace (rev s)" by simp
  then have "s = trim_end s @ rev (takeWhile is_whitespace (rev s))"
    unfolding trim_end_def by (metis rev_append rev_rev_ident)
  moreover have "list_all is_whitespace (rev (takeWhile is_whitespace (rev s)))"
    by (auto simp: list_all_iff dest: set_takeWhileD)
  ultimately show ?thesis by blast
qed

lemma trim_decomp:
  "\<exists>u w. s = u @ trim s @ w \<and> list_all is_whitespace u \<and> list_all is_whitespace w"
proof -
  obtain w where w: "trim_start s = trim s @ w" "list_all is_whitespace w"
    using trim_end_decomp [of "trim_start s"] by (auto simp: trim_def)
  have "s = takeWhile is_whitespace s @ trim_start s" by (simp add: trim_start_def)
  moreover have "list_all is_whitespace (takeWhile is_whitespace s)"
    by (auto simp: list_all_iff dest: set_takeWhileD)
  ultimately show ?thesis using w by metis
qed

lemma trim_last: "trim s \<noteq> [] \<Longrightarrow> \<not> is_whitespace (last (trim s))"
  by (simp add: trim_def trim_end_def last_rev hd_dropWhile)

lemma trim_hd: "trim s \<noteq> [] \<Longrightarrow> \<not> is_whitespace (hd (trim s))"
proof -
  assume ne: "trim s \<noteq> []"
  obtain w where "trim_start s = trim s @ w"
    using trim_end_decomp [of "trim_start s"] by (auto simp: trim_def)
  with ne have "hd (trim s) = hd (trim_start s)" "trim_start s \<noteq> []" by auto
  then show ?thesis by (simp add: trim_start_def hd_dropWhile)
qed

lemma trim_Nil [simp]: "trim [] = []"
  by (simp add: trim_def trim_end_def trim_start_def)

lemma trim_trim [simp]: "trim (trim s) = trim s"
proof (cases "trim s = []")
  case True
  then show ?thesis by (simp only: trim_Nil)
next
  case False
  then show ?thesis by (intro trim_id trim_hd trim_last)
qed

lemma set_trim_subset: "set (trim s) \<subseteq> set s"
  using trim_decomp [of s] by (metis Un_upper1 Un_upper2 set_append subset_trans)

lemma wf_str_trim [simp]: "wf_str s \<Longrightarrow> wf_str (trim s)"
  using set_trim_subset [of s] by (auto simp: wf_str_def list_all_iff)

lemma trim_append_ws: "list_all is_whitespace w \<Longrightarrow> trim (s @ w) = trim s"
proof -
  assume w: "list_all is_whitespace w"
  have te: "trim_end (t @ w) = trim_end t" for t
    using w by (simp add: trim_end_def list_all_iff dropWhile_append)
  show ?thesis
  proof (cases "list_all is_whitespace s")
    case True
    with w show ?thesis by (simp add: trim_def trim_start_def list_all_iff dropWhile_eq_Nil_conv [THEN iffD2] trim_end_def)
  next
    case False
    then have "trim_start (s @ w) = trim_start s @ w"
      by (auto simp: trim_start_def list_all_iff)
    then show ?thesis by (simp add: trim_def te)
  qed
qed

end
