(* ===== verification/Security.thy ===== *)
theory Security
  imports Rust_Str
begin

text \<open>
  Log sanitising, \<open>src/common/src/security.rs\<close>. \<open>sanitize_for_log\<close> consumes the text with a
  peekable iterator: \<open>copy_csi\<close> is its inner loop, which copies an ANSI control sequence up to
  a terminating character. \<open>truncate_for_log\<close> compares a byte length and cuts by characters.

  Shown: text without the escape character comes out free of control characters, text
  without control characters is unchanged, a terminated colour sequence is preserved; and
  two deviations from the documentation: control characters inside an escape sequence are
  copied verbatim, and truncation of multi-byte text can make it longer.
\<close>

definition ESC :: rchar where "ESC = 0x1B"

definition backslash :: rchar where "backslash = 0x5C"

definition csi_terminator :: "rchar \<Rightarrow> bool" where
  "csi_terminator c \<longleftrightarrow> is_ascii_alphabetic c \<or> c = 0x7E \<or> c = 0x40"

fun copy_csi :: "rstr \<Rightarrow> rstr \<times> rstr" where
  "copy_csi [] = ([], [])"
| "copy_csi (c # s) =
     (if csi_terminator c then ([c], s)
      else (let (p, r) = copy_csi s in (c # p, r)))"

definition escape_control :: "rchar \<Rightarrow> rstr" where
  "escape_control c = concat (map (\<lambda>b. backslash # lit ''x'' @ show_hex2 b) (utf8_char c))"

lemma copy_csi_length: "copy_csi s = (p, r) \<Longrightarrow> length r \<le> length s"
  by (induction s arbitrary: p r) (fastforce split: if_splits prod.splits)+

function sanitize_for_log :: "rstr \<Rightarrow> rstr" where
  "sanitize_for_log [] = []"
| "sanitize_for_log (c # s) =
     (if c = ESC then
        (case s of
           b # s' \<Rightarrow>
             if b = 0x5B then (case copy_csi s' of (p, r) \<Rightarrow> c # b # p @ sanitize_for_log r)
             else c # sanitize_for_log s
         | [] \<Rightarrow> c # sanitize_for_log s)
      else if c = 0x0A then backslash # lit ''n'' @ sanitize_for_log s
      else if c = 0x0D then backslash # lit ''r'' @ sanitize_for_log s
      else if c = 0x09 then backslash # lit ''t'' @ sanitize_for_log s
      else if c = 0x00 then backslash # lit ''0'' @ sanitize_for_log s
      else if is_control c then escape_control c @ sanitize_for_log s
      else c # sanitize_for_log s)"
  by pat_completeness auto
termination
  by (relation "measure length") (auto dest!: copy_csi_length [OF sym] split: list.splits)

definition truncate_for_log :: "rstr \<Rightarrow> nat \<Rightarrow> rstr" where
  "truncate_for_log s max_len =
     (if str_len s \<le> max_len then s
      else take (saturating_sub max_len 3) s @ lit ''...'')"

subsection \<open>Sanitising, character by character\<close>

declare sanitize_for_log.simps(2) [simp del]

lemma hex_digit_printable: "d < 16 \<Longrightarrow> \<not> is_control (hex_digit d)"
  by (auto simp: hex_digit_def is_control_def)

lemma show_hex2_printable: "c \<in> set (show_hex2 b) \<Longrightarrow> \<not> is_control c"
proof -
  assume c: "c \<in> set (show_hex2 b)"
  have "unat b div 16 < 16" using unat_byte_less [of b] by (simp add: less_mult_imp_div_less)
  with c show ?thesis by (auto simp: show_hex2_def hex_digit_printable)
qed

lemma escape_control_printable: "c \<in> set (escape_control d) \<Longrightarrow> \<not> is_control c"
  by (auto simp: escape_control_def lit_def backslash_def is_control_def [of 92] is_control_def [of 120]
      dest: show_hex2_printable)

lemma control_names: "is_control ESC" "is_control 0x0A" "is_control 0x0D" "is_control 0x09" "is_control 0"
  by (simp_all add: ESC_def is_control_def)

lemma sublist_pair_Cons: "sublist [a, b] (c # s) \<longleftrightarrow> (c = a \<and> prefix [b] s) \<or> sublist [a, b] s"
  by (auto simp: sublist_Cons_right)

text \<open>One character other than the escape character contributes printable text only.\<close>

lemma sanitize_step:
  assumes "c \<noteq> ESC"
  obtains e where "sanitize_for_log (c # s) = e @ sanitize_for_log s" "list_all (\<lambda>d. \<not> is_control d) e"
proof -
  consider "c = 0x0A" | "c = 0x0D" | "c = 0x09" | "c = 0" | "is_control c" "c \<noteq> 0x0A" "c \<noteq> 0x0D" "c \<noteq> 0x09" "c \<noteq> 0"
    | "\<not> is_control c" by blast
  then show thesis
  proof cases
    case 1 with assms that [of "backslash # lit ''n''"] show ?thesis
      by (simp add: sanitize_for_log.simps(2) lit_def backslash_def is_control_def)
  next
    case 2 with assms that [of "backslash # lit ''r''"] show ?thesis
      by (simp add: sanitize_for_log.simps(2) lit_def backslash_def is_control_def)
  next
    case 3 with assms that [of "backslash # lit ''t''"] show ?thesis
      by (simp add: sanitize_for_log.simps(2) lit_def backslash_def is_control_def)
  next
    case 4 with assms that [of "backslash # lit ''0''"] show ?thesis
      by (simp add: sanitize_for_log.simps(2) lit_def backslash_def is_control_def)
  next
    case 5 with assms that [of "escape_control c"] show ?thesis
      by (simp add: sanitize_for_log.simps(2) list_all_iff) (blast dest: escape_control_printable)
  next
    case 6
    then have "c \<noteq> 0x0A" "c \<noteq> 0x0D" "c \<noteq> 0x09" "c \<noteq> 0" using control_names by metis+
    with 6 assms that [of "[c]"] show ?thesis by (simp add: sanitize_for_log.simps(2))
  qed
qed

lemma sanitize_lone_ESC:
  "\<not> prefix [0x5B] s \<Longrightarrow> sanitize_for_log (ESC # s) = ESC # sanitize_for_log s"
  by (subst sanitize_for_log.simps(2)) (cases s; simp)

lemma sanitize_no_csi:
  "\<not> sublist [ESC, 0x5B] s \<Longrightarrow> c \<in> set (sanitize_for_log s) \<Longrightarrow> is_control c \<Longrightarrow> c = ESC"
proof (induction s)
  case Nil
  then show ?case by simp
next
  case (Cons d s)
  then have tl: "\<not> sublist [ESC, 0x5B] s" and hd: "d = ESC \<Longrightarrow> \<not> prefix [0x5B] s"
    by (auto simp: sublist_pair_Cons)
  show ?case
  proof (cases "d = ESC")
    case True
    with hd have "sanitize_for_log (d # s) = ESC # sanitize_for_log s"
      using True by (simp add: sanitize_lone_ESC)
    with Cons tl show ?thesis by auto
  next
    case False
    then obtain e where "sanitize_for_log (d # s) = e @ sanitize_for_log s" "list_all (\<lambda>d. \<not> is_control d) e"
      by (rule sanitize_step)
    with Cons tl show ?thesis by (auto simp: list_all_iff)
  qed
qed

lemma sanitize_printable: "list_all (\<lambda>c. \<not> is_control c) s \<Longrightarrow> sanitize_for_log s = s"
proof (induction s)
  case (Cons c s)
  then have "c \<noteq> ESC" "c \<noteq> 0x0A" "c \<noteq> 0x0D" "c \<noteq> 0x09" "c \<noteq> 0" "\<not> is_control c"
    using control_names by (metis list.pred_inject(2))+
  with Cons show ?case by (simp add: sanitize_for_log.simps(2))
qed simp

lemma copy_csi_append:
  "list_all (\<lambda>c. \<not> csi_terminator c) p \<Longrightarrow> csi_terminator t \<Longrightarrow> copy_csi (p @ t # s) = (p @ [t], s)"
  by (induction p) auto

lemma sanitize_csi:
  assumes "list_all (\<lambda>c. \<not> csi_terminator c) p" "csi_terminator t"
  shows "sanitize_for_log (ESC # 0x5B # p @ t # s) = ESC # 0x5B # p @ t # sanitize_for_log s"
  using copy_csi_append [OF assms] by (simp add: sanitize_for_log.simps(2))

lemma str_len_ascii: "is_ascii s \<Longrightarrow> str_len s = length s"
  by (simp add: str_len_def utf8_ascii)

lemma is_ascii_take: "is_ascii s \<Longrightarrow> is_ascii (take k s)"
  by (auto simp: is_ascii_def list_all_iff dest: in_set_takeD)

lemma sanitize_append_printable:
  "list_all (\<lambda>c. \<not> is_control c) u \<Longrightarrow> sanitize_for_log (u @ s) = u @ sanitize_for_log s"
proof (induction u)
  case (Cons c u)
  then have "c \<noteq> ESC" "c \<noteq> 0x0A" "c \<noteq> 0x0D" "c \<noteq> 0x09" "c \<noteq> 0" "\<not> is_control c"
    using control_names by (metis list.pred_inject(2))+
  with Cons show ?case by (simp add: sanitize_for_log.simps(2))
qed simp

subsection \<open>Properties of the log helpers\<close>

text \<open>Property C39: a text that contains no ANSI sequence introducer (the escape character
  followed by a bracket) is sanitised to a text with no control character but the escape
  character itself: no newline, carriage return, tab or null reaches the log.\<close>

theorem sanitize_no_injection:
  assumes "\<not> sublist [ESC, 0x5B] s"
  shows "\<forall>c \<in> set (sanitize_for_log s). is_control c \<longrightarrow> c = ESC"
  using sanitize_no_csi [OF assms] by blast

lemma sanitize_no_injection_witness:
  "set (filter is_control (sanitize_for_log [0x61, 0x0A, 0x62, 0x0D])) \<subseteq> {ESC}"
proof -
  have h: "\<not> sublist [ESC, 0x5B] [0x61, 0x0A, 0x62, 0x0D]"
    by (simp add: sublist_pair_Cons ESC_def)
  show ?thesis using sanitize_no_injection [OF h] by auto
qed

text \<open>Printable text is unchanged, and so is a terminated ANSI sequence inside
  it, whatever its parameters.\<close>

lemma sanitize_preserves_ansi:
  assumes "list_all (\<lambda>c. \<not> is_control c) u" "list_all (\<lambda>c. \<not> is_control c) v"
    and "list_all (\<lambda>c. \<not> csi_terminator c) p" "csi_terminator t"
  shows "sanitize_for_log (u @ ESC # 0x5B # p @ t # v) = u @ ESC # 0x5B # p @ t # v
    \<and> sanitize_for_log u = u"
  using assms by (simp_all add: sanitize_append_printable sanitize_csi sanitize_printable)

lemma sanitize_preserves_ansi_witness:
  "sanitize_for_log (lit ''a'' @ ESC # 0x5B # lit ''32'' @ 0x6D # lit ''green'')
     = lit ''a'' @ ESC # 0x5B # lit ''32'' @ 0x6D # lit ''green''
   \<and> sanitize_for_log (lit ''a'') = lit ''a''"
  by (rule sanitize_preserves_ansi)
    (simp_all add: lit_def is_control_def csi_terminator_def is_ascii_alphabetic_def
      is_ascii_uppercase_def is_ascii_lowercase_def)


text \<open>Truncation never yields more than \<open>max_len\<close> characters (or three, the
  ellipsis), and for ASCII text and a limit of at least three it respects the limit in bytes.\<close>

lemma truncate_bounds:
  "length (truncate_for_log s n) \<le> max n 3
   \<and> (is_ascii s \<and> 3 \<le> n \<longrightarrow> str_len (truncate_for_log s n) \<le> n)"
proof -
  have "is_ascii (take k s @ lit ''...'')" if "is_ascii s" for k
    using is_ascii_take [OF that] by (simp add: is_ascii_def lit_def is_ascii_char_def)
  then show ?thesis using length_le_utf8 [of s]
    by (auto simp: truncate_for_log_def str_len_def saturating_sub_def lit_def utf8_ascii)
qed

lemma truncate_bounds_witness:
  "str_len (truncate_for_log (lit ''hello world'') 8) \<le> 8"
  using truncate_bounds [of "lit ''hello world''" 8] by (simp add: lit_def is_ascii_def is_ascii_char_def)

text \<open>The byte length is compared but characters are cut, so a text of multi-byte
  characters that is too long by bytes may come out longer than it was.\<close>

lemma truncate_grows_multibyte:
  "let s = [0x4F60, 0x597D, 0x4F60, 0x597D] in
     str_len s = 12 \<and> str_len (truncate_for_log s 10) = 15"
  by (simp add: truncate_for_log_def str_len_def saturating_sub_def lit_def utf8_char_def)

end
