(* ===== verification/Consts.thy ===== *)
theory Consts
  imports Rust_Str
begin

text \<open>
  The constants of \<open>src/common/src/consts.rs\<close>. Strings are texts, durations are
  milliseconds. The constants that no Rust source reads (the \<open>_PREFIX\<close> variants other than
  \<open>CLIENT_SEND_PREFIX\<close>, \<open>DEFAULT_TZ\<close>, \<open>MAX_LOG_LINE_LENGTH\<close> and
  \<open>CHECK_INTERVAL_TCP_READER\<close>) are left out.
\<close>

definition BACKBONE_DEFAULT_SEND_TIMEOUT :: nat where "BACKBONE_DEFAULT_SEND_TIMEOUT = 100"
definition BACKBONE_DEFAULT_RECV_TIMEOUT :: nat where "BACKBONE_DEFAULT_RECV_TIMEOUT = 100"

definition ENV_CHAT_HOST :: rstr where "ENV_CHAT_HOST = lit ''CHAT_HOST''"
definition ENV_CHAT_PORT :: rstr where "ENV_CHAT_PORT = lit ''CHAT_PORT''"
definition ENV_CHAT_USERNAME :: rstr where "ENV_CHAT_USERNAME = lit ''CHAT_USERNAME''"

definition SERVER_EVENT_OK :: rstr where "SERVER_EVENT_OK = lit ''OK''"
definition SERVER_EVENT_BROADCAST :: rstr where "SERVER_EVENT_BROADCAST = lit ''BROADCAST''"
definition SERVER_EVENT_ERR :: rstr where "SERVER_EVENT_ERR = lit ''ERR''"
definition SERVER_EVENT_USER_JOINED :: rstr where "SERVER_EVENT_USER_JOINED = lit ''JOINED''"
definition SERVER_EVENT_USER_LEFT :: rstr where "SERVER_EVENT_USER_LEFT = lit ''LEFT''"

definition CLIENT_JOIN_CMD :: rstr where "CLIENT_JOIN_CMD = lit ''JOIN''"
definition CLIENT_SEND_CMD :: rstr where "CLIENT_SEND_CMD = lit ''SEND''"
definition CLIENT_SEND_PREFIX :: rstr where "CLIENT_SEND_PREFIX = lit ''SEND ''"
definition CLIENT_LEAVE_CMD :: rstr where "CLIENT_LEAVE_CMD = lit ''LEAVE''"

definition APP_ENV :: rstr where "APP_ENV = lit ''CHAT_APP_ENV''"
definition DEFAULT_LOG_LEVEL :: rstr where "DEFAULT_LOG_LEVEL = lit ''CHAT_APP_LOG_LEVEL''"
definition APP_ENV_DEFAULT_VALUE :: rstr where "APP_ENV_DEFAULT_VALUE = lit ''development''"
definition APP_ENV_PROD_VALUE :: rstr where "APP_ENV_PROD_VALUE = lit ''production''"
definition DEFAULT_LOG_LEVEL_DEFAULT_VALUE :: rstr where
  "DEFAULT_LOG_LEVEL_DEFAULT_VALUE = lit ''info''"

definition MAX_CLIENT_BUFFER_SIZE :: nat where "MAX_CLIENT_BUFFER_SIZE = 1024"
definition MAX_CLIENT_MESSAGE_LENGTH :: nat where "MAX_CLIENT_MESSAGE_LENGTH = 4096"
definition READ_TIMEOUT :: nat where "READ_TIMEOUT = 30000"
definition MAX_CONNECTIONS :: nat where "MAX_CONNECTIONS = 10000"
definition MAX_MESSAGES_PER_SECOND :: u32 where "MAX_MESSAGES_PER_SECOND = 10"
definition MESSAGE_BURST_CAPACITY :: u32 where "MESSAGE_BURST_CAPACITY = 20"

text \<open>The words of the wire protocol, computed.\<close>

lemmas wire_words [wire_simps] =
  SERVER_EVENT_OK_def SERVER_EVENT_BROADCAST_def SERVER_EVENT_ERR_def
  SERVER_EVENT_USER_JOINED_def SERVER_EVENT_USER_LEFT_def
  CLIENT_JOIN_CMD_def CLIENT_SEND_CMD_def CLIENT_LEAVE_CMD_def lit_def

end
