(* ===== verification/Chat_Config.thy ===== *)
theory Chat_Config
  imports Consts
begin

text \<open>
  The configuration from the environment, \<open>src/common/src/config.rs\<close>, and the set-up of logging,
  \<open>src/common/src/telemetry.rs\<close>. \<open>env::var\<close> is the argument \<open>var\<close>. The crates
  \<open>tracing_subscriber\<close> and \<open>tracing_appender\<close> are the argument \<open>tracing\<close>: making a filter from a
  level, starting the background writer, and installing the subscriber of the process, whose
  state \<open>init_logging\<close> threads.
\<close>

type_synonym env_var = "rstr \<Rightarrow> rstr option"

definition server_tz :: "env_var \<Rightarrow> (rstr, rstr) result" where
  "server_tz var = (case var (lit ''TZ'') of Some tz \<Rightarrow> Inr tz | None \<Rightarrow> Inl (lit ''TZ must be set''))"

datatype invalid_log_level_error = InvalidLogLevelError (ill_level: rstr)

definition invalid_log_level_to_string :: "invalid_log_level_error \<Rightarrow> rstr" where
  "invalid_log_level_to_string e =
     lit ''Invalid log level: '' @ [0x27] @ ill_level e @ [0x27]
     @ lit ''. Must be one of: trace, debug, info, warn, error, off''"

definition app_env :: "env_var \<Rightarrow> rstr" where
  "app_env var = (case var APP_ENV of Some e \<Rightarrow> e | None \<Rightarrow> APP_ENV_DEFAULT_VALUE)"

definition known_log_levels :: "rstr list" where
  "known_log_levels = [lit ''trace'', lit ''debug'', lit ''info'', lit ''warn'', lit ''error'', lit ''off'']"

definition log_level :: "unicode \<Rightarrow> env_var \<Rightarrow> (invalid_log_level_error, rstr) result" where
  "log_level U var =
     (let level =
        (case var DEFAULT_LOG_LEVEL of
           Some l \<Rightarrow> l
         | None \<Rightarrow> (case var (lit ''RUST_LOG'') of Some l \<Rightarrow> l | None \<Rightarrow> DEFAULT_LOG_LEVEL_DEFAULT_VALUE))
      in if str_to_lowercase U level \<in> set known_log_levels then Inr level else Inl (InvalidLogLevelError level))"

definition is_production :: "env_var \<Rightarrow> bool" where
  "is_production var \<longleftrightarrow> app_env var = APP_ENV_PROD_VALUE"

text \<open>The layer that formats events, with the writer it hands them to.\<close>

datatype log_format = Fmt_Json (flatten_event: bool) | Fmt_Pretty

record 'w fmt_layer =
  ly_format :: log_format
  ly_ansi :: bool
  ly_writer :: 'w

record ('f, 'w) subscriber =
  sb_filter :: 'f
  sb_layer :: "'w fmt_layer"

datatype init_error = Init_Tz rstr | Init_LogLevel invalid_log_level_error | Init_Filter rstr | Init_Subscriber rstr

definition init_error_to_string :: "init_error \<Rightarrow> rstr" where
  "init_error_to_string e =
     (case e of
        Init_Tz s \<Rightarrow> s
      | Init_LogLevel l \<Rightarrow> invalid_log_level_to_string l
      | Init_Filter s \<Rightarrow> s
      | Init_Subscriber s \<Rightarrow> s)"

text \<open>The calls of the crates: \<open>EnvFilter::try_new\<close>, \<open>tracing_appender::non_blocking(stdout())\<close> with
  the writer and the guard that it returns, and \<open>try_init\<close>, which installs the subscriber of
  the process or fails.\<close>

record ('f, 'w, 'd, 's) tracing =
  tr_env_filter :: "rstr \<Rightarrow> (rstr, 'f) result"
  tr_non_blocking :: "'w \<times> 'd"
  tr_try_init :: "('f, 'w) subscriber \<Rightarrow> 's \<Rightarrow> (rstr, unit) result \<times> 's"

definition init_logging ::
    "unicode \<Rightarrow> ('f, 'w, 'd, 's) tracing \<Rightarrow> env_var \<Rightarrow> 's \<Rightarrow> (init_error, 'd) result \<times> 's" where
  "init_logging U tr var st =
     (case server_tz var of
        Inl e \<Rightarrow> (Inl (Init_Tz e), st)
      | Inr _ \<Rightarrow>
          (case log_level U var of
             Inl e \<Rightarrow> (Inl (Init_LogLevel e), st)
           | Inr level \<Rightarrow>
               (let env = app_env var in
                case tr_env_filter tr level of
                  Inl e \<Rightarrow> (Inl (Init_Filter e), st)
                | Inr flt \<Rightarrow>
                    (let (non_blocking_writer, guard) = tr_non_blocking tr;
                         formatting_layer =
                           (if env = APP_ENV_PROD_VALUE
                            then \<lparr> ly_format = Fmt_Json True, ly_ansi = False, ly_writer = non_blocking_writer \<rparr>
                            else \<lparr> ly_format = Fmt_Pretty, ly_ansi = True, ly_writer = non_blocking_writer \<rparr>)
                     in case tr_try_init tr \<lparr> sb_filter = flt, sb_layer = formatting_layer \<rparr> st of
                          (Inl e, st') \<Rightarrow> (Inl (Init_Subscriber e), st')
                        | (Inr _, st') \<Rightarrow> (Inr guard, st')))))"

text \<open>A process in which a subscriber can be installed once, as \<open>tracing\<close> documents.\<close>

definition once :: "(rstr, string, nat, (rstr, string) subscriber option) tracing" where
  "once = \<lparr> tr_env_filter = Inr, tr_non_blocking = (''stdout'', 7),
     tr_try_init = (\<lambda>sb st. case st of None \<Rightarrow> (Inr (), Some sb) | Some _ \<Rightarrow> (Inl [], st)) \<rparr>"

lemma lowercase_ascii: "is_ascii s \<Longrightarrow> lowercase_from U before s = map to_ascii_lowercase s"
  by (induction s arbitrary: before) (auto simp: is_ascii_def is_ascii_char_def char_to_lowercase_def)

text \<open>The subscriber that a configuration asks for.\<close>

lemma log_level_ascii:
  assumes "level = (case var DEFAULT_LOG_LEVEL of Some l \<Rightarrow> l
      | None \<Rightarrow> (case var (lit ''RUST_LOG'') of Some l \<Rightarrow> l | None \<Rightarrow> lit ''info''))" "is_ascii level"
  shows "log_level U var = (if map to_ascii_lowercase level \<in> set known_log_levels then Inr level
      else Inl (InvalidLogLevelError level))"
  unfolding log_level_def DEFAULT_LOG_LEVEL_DEFAULT_VALUE_def assms(1) [symmetric] Let_def str_to_lowercase_def
    lowercase_ascii [OF assms(2)] ..

text \<open>Logging is set up exactly if \<open>TZ\<close> is set, the chosen level (from the variable of
  the application, else \<open>RUST_LOG\<close>, else \<open>info\<close>) is one of the six known ones in any case,
  and the filter and the subscriber accept it. The level is passed on as it was written, the
  subscriber writes to the background writer whose guard is returned, and its output is flat
  JSON without colours exactly in production. If \<open>TZ\<close> or the level is wrong, nothing is
  installed. Levels are ASCII here.\<close>

lemma init_logging_outcome:
  assumes "level = (case var DEFAULT_LOG_LEVEL of Some l \<Rightarrow> l
      | None \<Rightarrow> (case var (lit ''RUST_LOG'') of Some l \<Rightarrow> l | None \<Rightarrow> lit ''info''))" "is_ascii level"
  shows "(init_logging U tr var st = (Inr guard, st') \<longleftrightarrow>
      var (lit ''TZ'') \<noteq> None \<and> map to_ascii_lowercase level \<in> set known_log_levels
      \<and> guard = snd (tr_non_blocking tr)
      \<and> (\<exists>flt. tr_env_filter tr level = Inr flt
          \<and> tr_try_init tr \<lparr> sb_filter = flt,
              sb_layer = \<lparr> ly_format = (if is_production var then Fmt_Json True else Fmt_Pretty),
                           ly_ansi = (\<not> is_production var), ly_writer = fst (tr_non_blocking tr) \<rparr> \<rparr> st = (Inr (), st')))
    \<and> (var (lit ''TZ'') = None \<or> map to_ascii_lowercase level \<notin> set known_log_levels \<longrightarrow>
        snd (init_logging U tr var st) = st)"
  using log_level_ascii [OF assms, of U]
  by (cases "var (lit ''TZ'')"; cases "tr_env_filter tr level"; cases "is_production var")
    (auto simp: init_logging_def server_tz_def is_production_def Let_def split: prod.splits sum.splits)

lemma init_logging_outcome_witness:
  "init_logging ascii_unicode once [lit ''TZ'' \<mapsto> lit ''UTC'', lit ''RUST_LOG'' \<mapsto> lit ''WARN'',
       APP_ENV \<mapsto> lit ''production''] None
     = (Inr 7, Some \<lparr> sb_filter = lit ''WARN'',
         sb_layer = \<lparr> ly_format = Fmt_Json True, ly_ansi = False, ly_writer = ''stdout'' \<rparr> \<rparr>)"
  by (rule iffD2 [OF conjunct1 [OF init_logging_outcome [of "lit ''WARN''"]]])
    (simp_all add: once_def lit_def DEFAULT_LOG_LEVEL_def APP_ENV_def is_ascii_def is_ascii_char_def known_log_levels_def
      to_ascii_lowercase_def is_ascii_uppercase_def is_production_def app_env_def APP_ENV_PROD_VALUE_def)

end
