(* ===== verification/External_Libs.thy ===== *)
theory External_Libs
  imports Rust_Str
begin

text \<open>
  Interfaces of the crates the sources call. Each crate is a record of the operations used;
  the model takes the record as an argument. The predicates \<open>sz_ok\<close>, \<open>crossbeam_ok\<close>,
  \<open>mpsc_ok\<close> and \<open>governor_ok\<close> state the documented behaviour that the code relies on; they
  are the only assumptions of the theorems about these crates. Each predicate is met by
  an executable instance (\<open>ref_sz\<close>, \<open>ref_crossbeam\<close>, \<open>ref_mpsc\<close>, \<open>ref_governor\<close>), which the
  concrete runs use.

  \<^item> stringzilla: substring search, search for a byte outside a set, Unicode case folding
    into a caller-supplied buffer;
  \<^item> crossbeam: a bounded channel, with the state of the channel at the moment the call
    takes effect (the message is accepted, or the time limit expires);
  \<^item> tokio mpsc: a bounded channel whose receiver is polled;
  \<^item> governor: a rate limiter (generic cell rate algorithm).

  Fields that no source line reads (\<open>sz_fold_char\<close>, \<open>cb_messages\<close> and the like) are views
  in which the laws are stated.
\<close>

subsection \<open>stringzilla\<close>

record sz_lib =
  sz_find :: "byte list \<Rightarrow> byte list \<Rightarrow> nat option"
  sz_find_byte_not_from :: "byte list \<Rightarrow> byte list \<Rightarrow> nat option"
  sz_utf8_case_fold :: "byte list \<Rightarrow> byte list \<Rightarrow> nat \<times> byte list"
  sz_fold_char :: "rchar \<Rightarrow> rstr"

definition sz_fold :: "sz_lib \<Rightarrow> rstr \<Rightarrow> rstr" where
  "sz_fold sz s = concat (map (sz_fold_char sz) s)"

definition sz_find_ok :: "(byte list \<Rightarrow> byte list \<Rightarrow> nat option) \<Rightarrow> bool" where
  "sz_find_ok f \<longleftrightarrow>
     (\<forall>h n. n \<noteq> [] \<longrightarrow>
        (case f h n of
           None \<Rightarrow> \<forall>i. \<not> occurs_at n h i
         | Some i \<Rightarrow> occurs_at n h i \<and> (\<forall>j < i. \<not> occurs_at n h j)))"

definition sz_not_from_ok :: "(byte list \<Rightarrow> byte list \<Rightarrow> nat option) \<Rightarrow> bool" where
  "sz_not_from_ok f \<longleftrightarrow> (\<forall>h cs. f h cs = find_index (\<lambda>b. b \<notin> set cs) h)"

text \<open>Case folding: the destination must hold three times the source; then the folded text
  is written to its front and the number of bytes written is returned. ASCII letters fold
  to lower case, and no character grows by more than the factor three.\<close>

definition sz_case_fold_ok :: "sz_lib \<Rightarrow> bool" where
  "sz_case_fold_ok sz \<longleftrightarrow>
     (\<forall>c. is_scalar c \<longrightarrow> wf_str (sz_fold_char sz c)
          \<and> length (utf8 (sz_fold_char sz c)) \<le> 3 * len_utf8 c)
     \<and> (\<forall>c < 0x80. sz_fold_char sz c = [to_ascii_lowercase c])
     \<and> (\<forall>s buf. wf_str s \<longrightarrow> 3 * str_len s \<le> length buf \<longrightarrow>
          (case sz_utf8_case_fold sz (utf8 s) buf of
             (n, buf') \<Rightarrow> n = str_len (sz_fold sz s) \<and> length buf' = length buf
                          \<and> take n buf' = utf8 (sz_fold sz s)))"

definition sz_ok :: "sz_lib \<Rightarrow> bool" where
  "sz_ok sz \<longleftrightarrow> sz_find_ok (sz_find sz) \<and> sz_not_from_ok (sz_find_byte_not_from sz)
                \<and> sz_case_fold_ok sz"

fun naive_find :: "byte list \<Rightarrow> byte list \<Rightarrow> nat option" where
  "naive_find [] n = (if n = [] then Some 0 else None)"
| "naive_find (b # h) n =
     (if take (length n) (b # h) = n then Some 0 else map_option Suc (naive_find h n))"

definition ref_fold_char :: "rchar \<Rightarrow> rstr" where
  "ref_fold_char c = [to_ascii_lowercase c]"

definition ref_case_fold :: "byte list \<Rightarrow> byte list \<Rightarrow> nat \<times> byte list" where
  "ref_case_fold src buf =
     (case from_utf8 src of
        None \<Rightarrow> (0, buf)
      | Some s \<Rightarrow> (let r = utf8 (map to_ascii_lowercase s) in (length r, r @ drop (length r) buf)))"

definition ref_sz :: sz_lib where
  "ref_sz = \<lparr> sz_find = naive_find,
              sz_find_byte_not_from = (\<lambda>h cs. find_index (\<lambda>b. b \<notin> set cs) h),
              sz_utf8_case_fold = ref_case_fold,
              sz_fold_char = ref_fold_char \<rparr>"

subsection \<open>crossbeam channel\<close>

datatype 'm send_timeout_error = STE_Timeout 'm | STE_Disconnected 'm
datatype 'm try_send_error = TSE_Full 'm | TSE_Disconnected 'm
datatype recv_timeout_error = RTE_Timeout | RTE_Disconnected

record ('q, 'm) crossbeam =
  cb_bounded :: "nat \<Rightarrow> 'q"
  cb_send_timeout :: "'q \<Rightarrow> 'm \<Rightarrow> nat \<Rightarrow> ('m send_timeout_error + unit) \<times> 'q"
  cb_recv_timeout :: "'q \<Rightarrow> nat \<Rightarrow> (recv_timeout_error + 'm) \<times> 'q"
  cb_messages :: "'q \<Rightarrow> 'm list"
  cb_capacity :: "'q \<Rightarrow> nat"
  cb_disconnected :: "'q \<Rightarrow> bool"

definition cb_accepts :: "('q, 'm) crossbeam \<Rightarrow> 'q \<Rightarrow> bool" where
  "cb_accepts cb q \<longleftrightarrow> \<not> cb_disconnected cb q \<and> length (cb_messages cb q) < cb_capacity cb q"

definition cb_bounded_ok :: "('q, 'm) crossbeam \<Rightarrow> bool" where
  "cb_bounded_ok cb \<longleftrightarrow>
     (\<forall>n > 0. cb_messages cb (cb_bounded cb n) = [] \<and> cb_capacity cb (cb_bounded cb n) = n
              \<and> \<not> cb_disconnected cb (cb_bounded cb n))"

text \<open>A send fails at once when every receiver is gone, fails after the time limit when the
  buffer is full, and otherwise appends the message; a receive takes the oldest message.\<close>

definition cb_send_ok :: "('q, 'm) crossbeam \<Rightarrow> bool" where
  "cb_send_ok cb \<longleftrightarrow>
     (\<forall>q m t r q'. cb_capacity cb q > 0 \<longrightarrow> cb_send_timeout cb q m t = (r, q') \<longrightarrow>
        cb_capacity cb q' = cb_capacity cb q \<and> cb_disconnected cb q' = cb_disconnected cb q
        \<and> cb_messages cb q' = cb_messages cb q @ (if cb_accepts cb q then [m] else [])
        \<and> r = (if cb_accepts cb q then Inr ()
               else Inl (if cb_disconnected cb q then STE_Disconnected m else STE_Timeout m)))"

definition cb_recv_ok :: "('q, 'm) crossbeam \<Rightarrow> bool" where
  "cb_recv_ok cb \<longleftrightarrow>
     (\<forall>q t r q'. cb_capacity cb q > 0 \<longrightarrow> cb_recv_timeout cb q t = (r, q') \<longrightarrow>
        cb_capacity cb q' = cb_capacity cb q \<and> cb_disconnected cb q' = cb_disconnected cb q
        \<and> cb_messages cb q' = tl (cb_messages cb q)
        \<and> r = (case cb_messages cb q of
                 m # ms \<Rightarrow> Inr m
               | [] \<Rightarrow> Inl (if cb_disconnected cb q then RTE_Disconnected else RTE_Timeout)))"

definition crossbeam_ok :: "('q, 'm) crossbeam \<Rightarrow> bool" where
  "crossbeam_ok cb \<longleftrightarrow> cb_bounded_ok cb \<and> cb_send_ok cb \<and> cb_recv_ok cb"

record 'm fifo =
  fifo_buf :: "'m list"
  fifo_cap :: nat
  fifo_disc :: bool

definition ref_crossbeam :: "('m fifo, 'm) crossbeam" where
  "ref_crossbeam =
     \<lparr> cb_bounded = (\<lambda>n. \<lparr> fifo_buf = [], fifo_cap = n, fifo_disc = False \<rparr>),
       cb_send_timeout = (\<lambda>q m t.
         if fifo_disc q then (Inl (STE_Disconnected m), q)
         else if length (fifo_buf q) < fifo_cap q then (Inr (), q\<lparr>fifo_buf := fifo_buf q @ [m]\<rparr>)
         else (Inl (STE_Timeout m), q)),
       cb_recv_timeout = (\<lambda>q t.
         case fifo_buf q of
           m # ms \<Rightarrow> (Inr m, q\<lparr>fifo_buf := ms\<rparr>)
         | [] \<Rightarrow> (Inl (if fifo_disc q then RTE_Disconnected else RTE_Timeout), q)),
       cb_messages = fifo_buf, cb_capacity = fifo_cap, cb_disconnected = fifo_disc \<rparr>"

subsection \<open>tokio mpsc channel\<close>

text \<open>The state of a polled future. \<open>mp_send\<close> is one poll of the future \<open>tx.send(m)\<close>: it fails when the
  receiver is gone and waits while the channel is full.\<close>

datatype 'a poll = Pending | Ready 'a

record ('c, 'm) mpsc =
  mp_channel :: "nat \<Rightarrow> 'c"
  mp_send :: "'c \<Rightarrow> 'm \<Rightarrow> (unit, unit) result poll \<times> 'c"
  mp_try_recv :: "'c \<Rightarrow> 'm option \<times> 'c"
  mp_recv :: "'c \<Rightarrow> 'm option poll \<times> 'c"
  mp_drop_receiver :: "'c \<Rightarrow> 'c"
  mp_messages :: "'c \<Rightarrow> 'm list"
  mp_capacity :: "'c \<Rightarrow> nat"
  mp_closed :: "'c \<Rightarrow> bool"
  mp_no_senders :: "'c \<Rightarrow> bool"

definition mp_accepts :: "('c, 'm) mpsc \<Rightarrow> 'c \<Rightarrow> bool" where
  "mp_accepts mp c \<longleftrightarrow> \<not> mp_closed mp c \<and> length (mp_messages mp c) < mp_capacity mp c"

text \<open>What no operation on a channel but dropping its receiver changes.\<close>

definition mp_same :: "('c, 'm) mpsc \<Rightarrow> 'c \<Rightarrow> 'c \<Rightarrow> bool" where
  "mp_same mp c c' \<longleftrightarrow> mp_capacity mp c' = mp_capacity mp c \<and> mp_closed mp c' = mp_closed mp c
     \<and> mp_no_senders mp c' = mp_no_senders mp c"

definition mp_channel_ok :: "('c, 'm) mpsc \<Rightarrow> bool" where
  "mp_channel_ok mp \<longleftrightarrow>
     (\<forall>n > 0. mp_messages mp (mp_channel mp n) = [] \<and> mp_capacity mp (mp_channel mp n) = n
              \<and> \<not> mp_closed mp (mp_channel mp n) \<and> \<not> mp_no_senders mp (mp_channel mp n))"

definition mp_send_ok :: "('c, 'm) mpsc \<Rightarrow> bool" where
  "mp_send_ok mp \<longleftrightarrow>
     (\<forall>c m r c'. mp_send mp c m = (r, c') \<longrightarrow>
        mp_same mp c c' \<and> mp_messages mp c' = mp_messages mp c @ (if mp_accepts mp c then [m] else [])
        \<and> r = (if mp_accepts mp c then Ready (Inr ())
               else if mp_closed mp c then Ready (Inl ()) else Pending))"

definition mp_try_recv_ok :: "('c, 'm) mpsc \<Rightarrow> bool" where
  "mp_try_recv_ok mp \<longleftrightarrow>
     (\<forall>c r c'. mp_try_recv mp c = (r, c') \<longrightarrow>
        mp_same mp c c' \<and> mp_messages mp c' = tl (mp_messages mp c)
        \<and> r = (case mp_messages mp c of m # ms \<Rightarrow> Some m | [] \<Rightarrow> None))"

definition mp_recv_ok :: "('c, 'm) mpsc \<Rightarrow> bool" where
  "mp_recv_ok mp \<longleftrightarrow>
     (\<forall>c r c'. mp_recv mp c = (r, c') \<longrightarrow>
        mp_same mp c c' \<and> mp_messages mp c' = tl (mp_messages mp c)
        \<and> r = (case mp_messages mp c of
                 m # ms \<Rightarrow> Ready (Some m)
               | [] \<Rightarrow> if mp_no_senders mp c then Ready None else Pending))"

definition mp_drop_ok :: "('c, 'm) mpsc \<Rightarrow> bool" where
  "mp_drop_ok mp \<longleftrightarrow> (\<forall>c. mp_closed mp (mp_drop_receiver mp c)
                                \<and> mp_messages mp (mp_drop_receiver mp c) = [])"

definition mpsc_ok :: "('c, 'm) mpsc \<Rightarrow> bool" where
  "mpsc_ok mp \<longleftrightarrow> mp_channel_ok mp \<and> mp_send_ok mp \<and> mp_try_recv_ok mp \<and> mp_recv_ok mp
                  \<and> mp_drop_ok mp"

record 'm mfifo =
  mf_buf :: "'m list"
  mf_cap :: nat
  mf_closed :: bool
  mf_no_senders :: bool

definition ref_mpsc :: "('m mfifo, 'm) mpsc" where
  "ref_mpsc =
     \<lparr> mp_channel = (\<lambda>n. \<lparr> mf_buf = [], mf_cap = n, mf_closed = False, mf_no_senders = False \<rparr>),
       mp_send = (\<lambda>c m.
         if mf_closed c then (Ready (Inl ()), c)
         else if length (mf_buf c) < mf_cap c then (Ready (Inr ()), c\<lparr>mf_buf := mf_buf c @ [m]\<rparr>)
         else (Pending, c)),
       mp_try_recv = (\<lambda>c. case mf_buf c of m # ms \<Rightarrow> (Some m, c\<lparr>mf_buf := ms\<rparr>) | [] \<Rightarrow> (None, c)),
       mp_recv = (\<lambda>c. case mf_buf c of
           m # ms \<Rightarrow> (Ready (Some m), c\<lparr>mf_buf := ms\<rparr>)
         | [] \<Rightarrow> (if mf_no_senders c then Ready None else Pending, c)),
       mp_drop_receiver = (\<lambda>c. c\<lparr>mf_closed := True, mf_buf := []\<rparr>),
       mp_messages = mf_buf, mp_capacity = mf_cap, mp_closed = mf_closed,
       mp_no_senders = mf_no_senders \<rparr>"

subsection \<open>governor\<close>

text \<open>Times are nanoseconds. A limiter with period \<open>T\<close> and burst \<open>b\<close> keeps the
  theoretical arrival time of the next cell; a cell is admitted at \<open>t\<close> when that time is at
  most \<open>t + b * T\<close>. \<open>gov_until_ready\<close> is one poll of the future of \<open>until_ready\<close>: it resolves
  at once when a check succeeds, and otherwise waits with the limiter unchanged.\<close>

record 'g governor =
  gov_direct :: "u32 \<Rightarrow> u32 \<Rightarrow> 'g"
  gov_check :: "'g \<Rightarrow> nat \<Rightarrow> bool \<times> 'g"
  gov_until_ready :: "'g \<Rightarrow> nat \<Rightarrow> 'g poll"
  gov_tat :: "'g \<Rightarrow> nat option"
  gov_period :: "'g \<Rightarrow> nat"
  gov_burst :: "'g \<Rightarrow> nat"

definition arrival :: "'g governor \<Rightarrow> 'g \<Rightarrow> nat \<Rightarrow> nat" where
  "arrival gv g t = (case gov_tat gv g of None \<Rightarrow> t + gov_period gv g | Some x \<Rightarrow> x)"

definition governor_ok :: "'g governor \<Rightarrow> bool" where
  "governor_ok gv \<longleftrightarrow>
     (\<forall>r b. r \<noteq> 0 \<longrightarrow> b \<noteq> 0 \<longrightarrow>
        gov_tat gv (gov_direct gv r b) = None
        \<and> gov_period gv (gov_direct gv r b) = 1000000000 div unat r
        \<and> gov_burst gv (gov_direct gv r b) = unat b)
     \<and> (\<forall>g now ok g'. gov_check gv g now = (ok, g') \<longrightarrow>
          gov_period gv g' = gov_period gv g \<and> gov_burst gv g' = gov_burst gv g
          \<and> ok = (arrival gv g now \<le> now + gov_burst gv g * gov_period gv g)
          \<and> gov_tat gv g' = (if ok then Some (max (arrival gv g now) now + gov_period gv g)
                             else gov_tat gv g))
     \<and> (\<forall>g now. gov_until_ready gv g now =
          (case gov_check gv g now of (ok, g') \<Rightarrow> if ok then Ready g' else Pending))"

record gcra =
  gc_tat :: "nat option"
  gc_period :: nat
  gc_burst :: nat

definition ref_arrival :: "gcra \<Rightarrow> nat \<Rightarrow> nat" where
  "ref_arrival g t = (case gc_tat g of None \<Rightarrow> t + gc_period g | Some x \<Rightarrow> x)"

definition ref_admit :: "gcra \<Rightarrow> nat \<Rightarrow> gcra" where
  "ref_admit g t = g\<lparr>gc_tat := Some (max (ref_arrival g t) t + gc_period g)\<rparr>"

definition ref_governor :: "gcra governor" where
  "ref_governor =
     \<lparr> gov_direct = (\<lambda>r b. \<lparr> gc_tat = None, gc_period = 1000000000 div unat r, gc_burst = unat b \<rparr>),
       gov_check = (\<lambda>g now.
         if ref_arrival g now \<le> now + gc_burst g * gc_period g then (True, ref_admit g now)
         else (False, g)),
       gov_until_ready = (\<lambda>g now.
         if ref_arrival g now \<le> now + gc_burst g * gc_period g then Ready (ref_admit g now)
         else Pending),
       gov_tat = gc_tat, gov_period = gc_period, gov_burst = gc_burst \<rparr>"

subsection \<open>The instances meet the contracts\<close>

lemma occurs_at_Cons_Suc [simp]: "occurs_at n (b # h) (Suc i) \<longleftrightarrow> occurs_at n h i"
  by (auto simp: occurs_at_def)

lemma occurs_at_0: "occurs_at n h 0 \<longleftrightarrow> take (length n) h = n"
  by (auto simp: occurs_at_def) (metis length_take min.cobounded1)

lemma naive_find_ok: "n \<noteq> [] \<Longrightarrow>
    (case naive_find h n of
       None \<Rightarrow> \<forall>i. \<not> occurs_at n h i
     | Some i \<Rightarrow> occurs_at n h i \<and> (\<forall>j < i. \<not> occurs_at n h j))"
proof (induction h)
  case Nil
  then show ?case by (simp add: occurs_at_def)
next
  case (Cons b h)
  show ?case
  proof (cases "occurs_at n (b # h) 0")
    case True
    then show ?thesis by (simp add: occurs_at_0)
  next
    case False
    then have step: "naive_find (b # h) n = map_option Suc (naive_find h n)"
      by (simp add: occurs_at_0)
    have none: "\<not> occurs_at n (b # h) i" if "\<forall>j. i = Suc j \<longrightarrow> \<not> occurs_at n h j" for i
      using that False by (cases i) auto
    show ?thesis using Cons none unfolding step by (auto split: option.splits)
  qed
qed

lemma to_ascii_lowercase_facts:
  "is_scalar c \<Longrightarrow> is_scalar (to_ascii_lowercase c)"
  "len_utf8 (to_ascii_lowercase c) = len_utf8 c"
  by (auto simp: to_ascii_lowercase_def is_ascii_uppercase_def is_scalar_def len_utf8_def)

lemma ref_sz_fold: "sz_fold ref_sz s = map to_ascii_lowercase s"
  by (induction s) (auto simp: sz_fold_def ref_sz_def ref_fold_char_def)

lemma length_utf8_lowercase: "length (utf8 (map to_ascii_lowercase s)) = length (utf8 s)"
  by (induction s) (auto simp: to_ascii_lowercase_facts)

lemma ref_sz_ok: "sz_ok ref_sz"
proof -
  have "sz_case_fold_ok ref_sz"
    unfolding sz_case_fold_ok_def ref_sz_fold
    by (auto simp: ref_sz_def ref_fold_char_def to_ascii_lowercase_facts ref_case_fold_def
        str_len_def Let_def length_utf8_lowercase)
  moreover have "sz_find_ok (sz_find ref_sz)" "sz_not_from_ok (sz_find_byte_not_from ref_sz)"
    using naive_find_ok by (simp_all add: sz_find_ok_def sz_not_from_ok_def ref_sz_def)
  ultimately show ?thesis by (simp add: sz_ok_def)
qed

lemma ref_crossbeam_ok: "crossbeam_ok ref_crossbeam"
  by (auto simp: crossbeam_ok_def cb_bounded_ok_def cb_send_ok_def cb_recv_ok_def cb_accepts_def
      ref_crossbeam_def split: list.splits if_splits)

lemma ref_mpsc_ok: "mpsc_ok ref_mpsc"
  by (auto simp: mpsc_ok_def mp_channel_ok_def mp_send_ok_def mp_try_recv_ok_def mp_recv_ok_def
      mp_drop_ok_def mp_same_def mp_accepts_def ref_mpsc_def split: list.splits if_splits)

lemma ref_governor_ok: "governor_ok ref_governor"
  by (auto simp: governor_ok_def ref_governor_def ref_admit_def ref_arrival_def arrival_def Let_def
      split: option.splits if_splits)

subsection \<open>The laws as rewrite rules\<close>

lemma sz_find_byte [lib_laws]:
  assumes "sz_ok sz"
  shows "sz_find sz h [b] = find_index ((=) b) h"
proof -
  have occ: "occurs_at [b] h i \<longleftrightarrow> i < length h \<and> h ! i = b" for i
    by (auto simp: occurs_at_def take_Suc_conv_app_nth hd_drop_conv_nth take_Suc)
  have law: "case sz_find sz h [b] of
       None \<Rightarrow> \<forall>i. \<not> occurs_at [b] h i
     | Some i \<Rightarrow> occurs_at [b] h i \<and> (\<forall>j < i. \<not> occurs_at [b] h j)"
    using assms by (simp add: sz_ok_def sz_find_ok_def)
  show ?thesis
  proof (cases "sz_find sz h [b]")
    case None
    with law have "find_index ((=) b) h = None"
      by (fastforce simp: find_index_None occ in_set_conv_nth)
    with None show ?thesis by simp
  next
    case (Some i)
    with law have "find_index ((=) b) h = Some i"
      by (auto simp: find_index_Some occ)
    with Some show ?thesis by simp
  qed
qed

lemma sz_not_from [lib_laws]:
  "sz_ok sz \<Longrightarrow> sz_find_byte_not_from sz h cs = find_index (\<lambda>b. b \<notin> set cs) h"
  by (simp add: sz_ok_def sz_not_from_ok_def)

lemma sz_fold_char_ascii: "sz_ok sz \<Longrightarrow> c < 0x80 \<Longrightarrow> sz_fold_char sz c = [to_ascii_lowercase c]"
  by (simp add: sz_ok_def sz_case_fold_ok_def)

lemma sz_fold_ascii: "sz_ok sz \<Longrightarrow> is_ascii s \<Longrightarrow> sz_fold sz s = map to_ascii_lowercase s"
  by (induction s) (auto simp: sz_fold_def is_ascii_def is_ascii_char_def sz_fold_char_ascii)

lemma wf_sz_fold: "sz_ok sz \<Longrightarrow> wf_str s \<Longrightarrow> wf_str (sz_fold sz s)"
  by (induction s) (auto simp: sz_fold_def sz_ok_def sz_case_fold_ok_def)

lemma length_sz_fold: "sz_ok sz \<Longrightarrow> wf_str s \<Longrightarrow> str_len (sz_fold sz s) \<le> 3 * str_len s"
proof (induction s)
  case (Cons c s)
  then have "length (utf8 (sz_fold_char sz c)) \<le> 3 * len_utf8 c"
    by (simp add: sz_ok_def sz_case_fold_ok_def)
  with Cons show ?case by (simp add: sz_fold_def str_len_def)
qed (simp add: sz_fold_def str_len_def)

lemma sz_case_fold_law:
  assumes "sz_ok sz" "wf_str s" "3 * str_len s \<le> length buf"
  obtains buf' where "sz_utf8_case_fold sz (utf8 s) buf = (str_len (sz_fold sz s), buf')"
    "length buf' = length buf" "take (str_len (sz_fold sz s)) buf' = utf8 (sz_fold sz s)"
proof -
  obtain n buf' where n: "sz_utf8_case_fold sz (utf8 s) buf = (n, buf')"
    by (cases "sz_utf8_case_fold sz (utf8 s) buf")
  moreover have "case sz_utf8_case_fold sz (utf8 s) buf of
      (n, buf') \<Rightarrow> n = str_len (sz_fold sz s) \<and> length buf' = length buf
                   \<and> take n buf' = utf8 (sz_fold sz s)"
    using assms by (simp add: sz_ok_def sz_case_fold_ok_def)
  ultimately show thesis by (auto intro: that)
qed

lemma governor_direct [lib_laws]:
  "governor_ok gv \<Longrightarrow> r \<noteq> 0 \<Longrightarrow> b \<noteq> 0 \<Longrightarrow> gov_tat gv (gov_direct gv r b) = None"
  "governor_ok gv \<Longrightarrow> r \<noteq> 0 \<Longrightarrow> b \<noteq> 0 \<Longrightarrow>
     gov_period gv (gov_direct gv r b) = 1000000000 div unat r"
  "governor_ok gv \<Longrightarrow> r \<noteq> 0 \<Longrightarrow> b \<noteq> 0 \<Longrightarrow> gov_burst gv (gov_direct gv r b) = unat b"
  by (simp_all add: governor_ok_def)

lemma crossbeam_bounded [lib_laws]:
  "crossbeam_ok cb \<Longrightarrow> 0 < n \<Longrightarrow> cb_messages cb (cb_bounded cb n) = []"
  "crossbeam_ok cb \<Longrightarrow> 0 < n \<Longrightarrow> cb_capacity cb (cb_bounded cb n) = n"
  "crossbeam_ok cb \<Longrightarrow> 0 < n \<Longrightarrow> \<not> cb_disconnected cb (cb_bounded cb n)"
  by (simp_all add: crossbeam_ok_def cb_bounded_ok_def)

lemma crossbeam_send:
  assumes "crossbeam_ok cb" "0 < cb_capacity cb q" "cb_send_timeout cb q m t = (r, q')"
  shows "r = (if cb_accepts cb q then Inr ()
              else Inl (if cb_disconnected cb q then STE_Disconnected m else STE_Timeout m))"
    "cb_messages cb q' = cb_messages cb q @ (if cb_accepts cb q then [m] else [])"
    "cb_capacity cb q' = cb_capacity cb q" "cb_disconnected cb q' = cb_disconnected cb q"
  using assms unfolding crossbeam_ok_def cb_send_ok_def by blast+

lemma crossbeam_recv:
  assumes "crossbeam_ok cb" "0 < cb_capacity cb q" "cb_recv_timeout cb q t = (r, q')"
  shows "r = (case cb_messages cb q of
                m # ms \<Rightarrow> Inr m
              | [] \<Rightarrow> Inl (if cb_disconnected cb q then RTE_Disconnected else RTE_Timeout))"
    "cb_messages cb q' = tl (cb_messages cb q)"
    "cb_capacity cb q' = cb_capacity cb q" "cb_disconnected cb q' = cb_disconnected cb q"
  using assms unfolding crossbeam_ok_def cb_recv_ok_def by blast+

lemma mpsc_channel [lib_laws]:
  "mpsc_ok mp \<Longrightarrow> 0 < n \<Longrightarrow> mp_messages mp (mp_channel mp n) = []"
  "mpsc_ok mp \<Longrightarrow> 0 < n \<Longrightarrow> mp_capacity mp (mp_channel mp n) = n"
  "mpsc_ok mp \<Longrightarrow> 0 < n \<Longrightarrow> \<not> mp_closed mp (mp_channel mp n)"
  "mpsc_ok mp \<Longrightarrow> 0 < n \<Longrightarrow> \<not> mp_no_senders mp (mp_channel mp n)"
  by (simp_all add: mpsc_ok_def mp_channel_ok_def)

lemma mpsc_send:
  assumes "mpsc_ok mp" "mp_send mp c m = (r, c')"
  shows "r = (if mp_accepts mp c then Ready (Inr ()) else if mp_closed mp c then Ready (Inl ()) else Pending)"
    "mp_messages mp c' = mp_messages mp c @ (if mp_accepts mp c then [m] else [])"
    "mp_same mp c c'"
  using assms unfolding mpsc_ok_def mp_send_ok_def by blast+

lemma mpsc_try_recv:
  assumes "mpsc_ok mp" "mp_try_recv mp c = (r, c')"
  shows "r = (case mp_messages mp c of m # ms \<Rightarrow> Some m | [] \<Rightarrow> None)"
    "mp_messages mp c' = tl (mp_messages mp c)" "mp_same mp c c'"
  using assms unfolding mpsc_ok_def mp_try_recv_ok_def by blast+

lemma mpsc_recv:
  assumes "mpsc_ok mp" "mp_recv mp c = (r, c')"
  shows "r = (case mp_messages mp c of
                m # ms \<Rightarrow> Ready (Some m)
              | [] \<Rightarrow> if mp_no_senders mp c then Ready None else Pending)"
    "mp_messages mp c' = tl (mp_messages mp c)" "mp_same mp c c'"
  using assms unfolding mpsc_ok_def mp_recv_ok_def by blast+

lemma mpsc_drop [lib_laws]:
  "mpsc_ok mp \<Longrightarrow> mp_closed mp (mp_drop_receiver mp c)"
  "mpsc_ok mp \<Longrightarrow> mp_messages mp (mp_drop_receiver mp c) = []"
  by (simp_all add: mpsc_ok_def mp_drop_ok_def)

lemma mp_same_refl [simp]: "mp_same mp c c"
  by (simp add: mp_same_def)

lemma mp_same_trans: "mp_same mp a b \<Longrightarrow> mp_same mp b c \<Longrightarrow> mp_same mp a c"
  by (simp add: mp_same_def)

end
