(* ===== verification/Room.thy ===== *)
theory Room
  imports Consts External_Libs
begin

text \<open>
  The room, \<open>src/server/src/chat/room.rs\<close>: the bounded queue between the connections and the
  dispatcher. \<open>OneToOne\<close> and \<open>OneToMany\<close> wrap a byte vector (the latter shared, never
  mutated), so both are byte lists here and their conversions are functions on them. The two
  ends of the crossbeam channel are one channel state \<open>rm_chan\<close>; the \<open>RwLock\<close> around the
  sender is modelled with its writer and its poison flag, as \<open>try_read\<close> looks at both.

  The locale \<open>message_queue\<close> is the contract of the traits \<open>MessageQueue\<close> and
  \<open>MessageReceiver\<close>: whatever is sent is received once and in order, and nothing is lost but
  what was refused. It is interpreted by the room here and by the channels of the users in
  \<open>Broker\<close>.
\<close>

definition DEFAULT_BUFFER_LENGTH :: u16 where
  "DEFAULT_BUFFER_LENGTH = 0xFFFF"

datatype room_error = RE_Busy | RE_Closed | RE_Full | RE_Timeout | RE_Poisoned

definition room_error_to_string :: "room_error \<Rightarrow> rstr" where
  "room_error_to_string e =
     (case e of
        RE_Busy \<Rightarrow> lit ''room busy, message not sent''
      | RE_Closed \<Rightarrow> lit ''room closed, message not sent''
      | RE_Full \<Rightarrow> lit ''room buffer full, message not sent''
      | RE_Timeout \<Rightarrow> lit ''room send timed out, message not sent''
      | RE_Poisoned \<Rightarrow> lit ''room lock poisoned, message not sent'')"

datatype recv_error = RcvE_Timeout | RcvE_Disconnected

datatype one_to_one = OneToOne (one_bytes: "byte list")
datatype one_to_many = OneToMany (many_bytes: "byte list")

definition one_to_one_from :: "byte list \<Rightarrow> one_to_one" where
  "one_to_one_from v = OneToOne v"

definition one_to_many_from :: "one_to_one \<Rightarrow> one_to_many" where
  "one_to_many_from one = OneToMany (one_bytes one)"

definition one_to_one_deref :: "one_to_one \<Rightarrow> byte list" where
  "one_to_one_deref one = one_bytes one"

definition one_to_many_deref :: "one_to_many \<Rightarrow> byte list" where
  "one_to_many_deref many = many_bytes many"

definition receiver_recv_timeout ::
    "('q, one_to_many) crossbeam \<Rightarrow> 'q \<Rightarrow> nat \<Rightarrow> (recv_error, one_to_many) result \<times> 'q" where
  "receiver_recv_timeout cb q timeout =
     (case cb_recv_timeout cb q timeout of
        (r, q') \<Rightarrow>
          (map_err (\<lambda>e. case e of RTE_Timeout \<Rightarrow> RcvE_Timeout
                                | RTE_Disconnected \<Rightarrow> RcvE_Disconnected) r, q'))"

definition room_error_from_try_send :: "one_to_many try_send_error \<Rightarrow> room_error" where
  "room_error_from_try_send err = (case err of TSE_Full _ \<Rightarrow> RE_Full | TSE_Disconnected _ \<Rightarrow> RE_Closed)"

definition room_error_from_send_timeout :: "one_to_many send_timeout_error \<Rightarrow> room_error" where
  "room_error_from_send_timeout err =
     (case err of STE_Timeout _ \<Rightarrow> RE_Timeout | STE_Disconnected _ \<Rightarrow> RE_Closed)"

text \<open>\<open>std::sync::RwLock::try_read\<close>.\<close>

datatype try_lock_error = TLE_WouldBlock | TLE_Poisoned

record 'a rwlock =
  lk_value :: 'a
  lk_writer :: bool
  lk_poisoned :: bool

definition rwlock_new :: "'a \<Rightarrow> 'a rwlock" where
  "rwlock_new x = \<lparr> lk_value = x, lk_writer = False, lk_poisoned = False \<rparr>"

definition try_read :: "'a rwlock \<Rightarrow> (try_lock_error, 'a) result" where
  "try_read lk =
     (if lk_writer lk then Inl TLE_WouldBlock
      else if lk_poisoned lk then Inl TLE_Poisoned
      else Inr (lk_value lk))"

text \<open>The sender behind the lock is \<open>Some ()\<close> while the room holds it: its channel is \<open>rm_chan\<close>.\<close>

record 'q room =
  rm_id :: rstr
  rm_created_at :: rstr
  rm_sender :: "unit option rwlock"
  rm_chan :: 'q

definition room_to_string :: "'q room \<Rightarrow> rstr" where
  "room_to_string room =
     lit ''Room { id: '' @ rm_id room @ lit '', created_at: '' @ rm_created_at room @ lit '' }''"

text \<open>The identifier and the time of creation come from the crates \<open>uuid\<close> and \<open>jiff\<close>.\<close>

definition room_new :: "('q, one_to_many) crossbeam \<Rightarrow> rstr \<Rightarrow> rstr \<Rightarrow> u16 \<Rightarrow> 'q room" where
  "room_new cb uuid now buffer_length =
     (let effective_buffer_length = (if buffer_length < 1 then 1 else buffer_length)
      in \<lparr> rm_id = uuid, rm_created_at = now, rm_sender = rwlock_new (Some ()),
           rm_chan = cb_bounded cb (unat effective_buffer_length) \<rparr>)"

text \<open>The room of the process, made on first use.\<close>

definition get_room :: "('q, one_to_many) crossbeam \<Rightarrow> rstr \<Rightarrow> rstr \<Rightarrow> 'q room" where
  "get_room cb uuid now = room_new cb uuid now DEFAULT_BUFFER_LENGTH"

definition with_sender ::
    "('e \<Rightarrow> room_error) \<Rightarrow> 'q room \<Rightarrow> one_to_many \<Rightarrow> ('q \<Rightarrow> one_to_many \<Rightarrow> ('e, unit) result \<times> 'q)
     \<Rightarrow> (room_error, unit) result \<times> 'q room" where
  "with_sender into room msg f =
     (case try_read (rm_sender room) of
        Inl TLE_WouldBlock \<Rightarrow> (Inl RE_Busy, room)
      | Inl TLE_Poisoned \<Rightarrow> (Inl RE_Poisoned, room)
      | Inr None \<Rightarrow> (Inl RE_Closed, room)
      | Inr (Some _) \<Rightarrow>
          (case f (rm_chan room) msg of
             (result, q') \<Rightarrow> (map_err into result, room\<lparr>rm_chan := q'\<rparr>)))"

definition room_send_timeout ::
    "('q, one_to_many) crossbeam \<Rightarrow> 'q room \<Rightarrow> one_to_many \<Rightarrow> nat
     \<Rightarrow> (room_error, unit) result \<times> 'q room" where
  "room_send_timeout cb room msg timeout =
     with_sender room_error_from_send_timeout room msg (\<lambda>sender m. cb_send_timeout cb sender m timeout)"

definition queue_send_timeout ::
    "('q, one_to_many) crossbeam \<Rightarrow> 'q room \<Rightarrow> one_to_one \<Rightarrow> nat
     \<Rightarrow> (room_error, unit) result \<times> 'q room" where
  "queue_send_timeout cb room msg timeout = room_send_timeout cb room (one_to_many_from msg) timeout"

definition queue_recv_timeout ::
    "('q, one_to_many) crossbeam \<Rightarrow> 'q room \<Rightarrow> nat \<Rightarrow> (recv_error, one_to_many) result \<times> 'q room" where
  "queue_recv_timeout cb room timeout =
     (case receiver_recv_timeout cb (rm_chan room) timeout of (r, q') \<Rightarrow> (r, room\<lparr>rm_chan := q'\<rparr>))"

text \<open>The invariant of a room that nobody closes, and the view of it that the contract uses.\<close>

definition room_ok :: "('q, one_to_many) crossbeam \<Rightarrow> 'q room \<Rightarrow> bool" where
  "room_ok cb room \<longleftrightarrow> rm_sender room = rwlock_new (Some ()) \<and> 0 < cb_capacity cb (rm_chan room)
     \<and> \<not> cb_disconnected cb (rm_chan room)
     \<and> length (cb_messages cb (rm_chan room)) \<le> cb_capacity cb (rm_chan room)"

definition room_messages :: "('q, one_to_many) crossbeam \<Rightarrow> 'q room \<Rightarrow> byte list list" where
  "room_messages cb room = map one_to_many_deref (cb_messages cb (rm_chan room))"

definition room_capacity :: "('q, one_to_many) crossbeam \<Rightarrow> 'q room \<Rightarrow> nat" where
  "room_capacity cb room = cb_capacity cb (rm_chan room)"

definition room_send :: "('q, one_to_many) crossbeam \<Rightarrow> 'q room \<Rightarrow> byte list \<Rightarrow> nat
     \<Rightarrow> (room_error, unit) result \<times> 'q room" where
  "room_send cb room bytes t = queue_send_timeout cb room (one_to_one_from bytes) t"

definition room_recv :: "('q, one_to_many) crossbeam \<Rightarrow> 'q room \<Rightarrow> nat
     \<Rightarrow> (recv_error, byte list) result \<times> 'q room" where
  "room_recv cb room t =
     (case queue_recv_timeout cb room t of
        (Inl e, room') \<Rightarrow> (Inl e, room')
      | (Inr m, room') \<Rightarrow> (Inr (one_to_many_deref m), room'))"

text \<open>A sequence of operations on a queue: what was accepted, what was received, and the queue
  afterwards.\<close>

datatype 'm queue_op = Q_Send 'm nat | Q_Recv nat

fun queue_run ::
    "('q \<Rightarrow> 'm \<Rightarrow> nat \<Rightarrow> ('e, unit) result \<times> 'q) \<Rightarrow> ('q \<Rightarrow> nat \<Rightarrow> ('f, 'm) result \<times> 'q)
     \<Rightarrow> 'm queue_op list \<Rightarrow> 'q \<Rightarrow> 'm list \<times> 'm list \<times> 'q" where
  "queue_run send recv [] q = ([], [], q)"
| "queue_run send recv (Q_Send m t # ops) q =
     (case send q m t of
        (r, q1) \<Rightarrow>
          (case queue_run send recv ops q1 of
             (acc, rcv, q2) \<Rightarrow> ((if r = Inr () then [m] else []) @ acc, rcv, q2)))"
| "queue_run send recv (Q_Recv t # ops) q =
     (case recv q t of
        (r, q1) \<Rightarrow>
          (case queue_run send recv ops q1 of
             (acc, rcv, q2) \<Rightarrow> (acc, (case r of Inr m \<Rightarrow> [m] | Inl e \<Rightarrow> []) @ rcv, q2)))"

subsection \<open>The contract of a message queue\<close>

locale message_queue =
  fixes lib_ok :: "'l \<Rightarrow> bool"
    and invar :: "'l \<Rightarrow> 'q \<Rightarrow> bool"
    and contents :: "'l \<Rightarrow> 'q \<Rightarrow> 'm list"
    and capacity :: "'l \<Rightarrow> 'q \<Rightarrow> nat"
    and send :: "'l \<Rightarrow> 'q \<Rightarrow> 'm \<Rightarrow> nat \<Rightarrow> ('e, unit) result \<times> 'q"
    and recv :: "'l \<Rightarrow> 'q \<Rightarrow> nat \<Rightarrow> ('f, 'm) result \<times> 'q"
  assumes bounded: "invar L q \<Longrightarrow> length (contents L q) \<le> capacity L q"
    and send_accepts: "lib_ok L \<Longrightarrow> invar L q \<Longrightarrow> length (contents L q) < capacity L q \<Longrightarrow>
          \<exists>q'. send L q m t = (Inr (), q') \<and> invar L q' \<and> contents L q' = contents L q @ [m]
               \<and> capacity L q' = capacity L q"
    and send_refuses: "lib_ok L \<Longrightarrow> invar L q \<Longrightarrow> length (contents L q) = capacity L q \<Longrightarrow>
          \<exists>e q'. send L q m t = (Inl e, q') \<and> invar L q' \<and> contents L q' = contents L q
               \<and> capacity L q' = capacity L q"
    and recv_oldest: "lib_ok L \<Longrightarrow> invar L q \<Longrightarrow> contents L q = m # ms \<Longrightarrow>
          \<exists>q'. recv L q t = (Inr m, q') \<and> invar L q' \<and> contents L q' = ms \<and> capacity L q' = capacity L q"
    and recv_empty: "lib_ok L \<Longrightarrow> invar L q \<Longrightarrow> contents L q = [] \<Longrightarrow>
          \<exists>e q'. recv L q t = (Inl e, q') \<and> invar L q' \<and> contents L q' = [] \<and> capacity L q' = capacity L q"
begin

lemma send_step:
  assumes "lib_ok L" "invar L q" "send L q m t = (r, q')"
  shows "invar L q'" "capacity L q' = capacity L q"
    "contents L q' = contents L q @ (if r = Inr () then [m] else [])"
    "r = Inr () \<longleftrightarrow> length (contents L q) < capacity L q"
  using send_accepts [OF assms(1,2), of m t] send_refuses [OF assms(1,2), of m t]
    bounded [OF assms(2)] assms(3)
  by (cases "length (contents L q) < capacity L q"; force)+

lemma recv_step:
  assumes "lib_ok L" "invar L q" "recv L q t = (r, q')"
  shows "invar L q'" "capacity L q' = capacity L q"
    "contents L q = (case r of Inr m \<Rightarrow> [m] | Inl e \<Rightarrow> []) @ contents L q'"
    "(\<exists>m. r = Inr m) \<longleftrightarrow> contents L q \<noteq> []"
  using recv_oldest [OF assms(1,2), of _ _ t] recv_empty [OF assms(1,2), of t] assms(3)
  by (cases "contents L q"; force)+

text \<open>Whatever the interleaving of sends and receives: the messages accepted come out in the
  order in which they went in, each once, and the rest is still queued.\<close>

lemma run_fifo:
  assumes "lib_ok L" "invar L q" "queue_run (send L) (recv L) ops q = (acc, rcv, q')"
  shows "invar L q' \<and> capacity L q' = capacity L q \<and> contents L q @ acc = rcv @ contents L q'"
  using assms(2,3)
proof (induction ops arbitrary: q acc rcv q')
  case (Cons op ops)
  show ?case
  proof (cases op)
    case (Q_Send m t)
    obtain r q1 where s: "send L q m t = (r, q1)" by force
    obtain acc1 rcv1 q2 where run: "queue_run (send L) (recv L) ops q1 = (acc1, rcv1, q2)"
      by (metis prod_cases3)
    show ?thesis
      using Cons.IH [OF send_step(1) [OF assms(1) Cons.prems(1) s] run]
        send_step [OF assms(1) Cons.prems(1) s] Cons.prems(2) Q_Send s run
      by auto
  next
    case (Q_Recv t)
    obtain r q1 where s: "recv L q t = (r, q1)" by force
    obtain acc1 rcv1 q2 where run: "queue_run (send L) (recv L) ops q1 = (acc1, rcv1, q2)"
      by (metis prod_cases3)
    show ?thesis
      using Cons.IH [OF recv_step(1) [OF assms(1) Cons.prems(1) s] run]
        recv_step [OF assms(1) Cons.prems(1) s] Cons.prems(2) Q_Recv s run
      by auto
  qed
qed simp

text \<open>Receiving as often as there are messages returns all of them and empties the queue.\<close>

lemma run_recv_all:
  assumes "lib_ok L" "invar L q"
  shows "\<exists>q'. queue_run (send L) (recv L) (map Q_Recv ts) q = ([], take (length ts) (contents L q), q')"
  using assms(2)
proof (induction ts arbitrary: q)
  case (Cons t ts)
  obtain r q1 where s: "recv L q t = (r, q1)" by force
  note st = recv_step [OF assms(1) Cons.prems s]
  obtain q2 where "queue_run (send L) (recv L) (map Q_Recv ts) q1
      = ([], take (length ts) (contents L q1), q2)"
    using Cons.IH [OF st(1)] by blast
  with s st(3,4) show ?case by (cases r) auto
qed simp

end

subsection \<open>The room meets the contract\<close>

lemma try_read_new [simp]: "try_read (rwlock_new x) = Inr x"
  by (simp add: try_read_def rwlock_new_def)

lemma room_ok_new:
  assumes "crossbeam_ok cb"
  shows "room_ok cb (room_new cb uuid now n)" "room_messages cb (room_new cb uuid now n) = []"
    "room_capacity cb (room_new cb uuid now n) = max 1 (unat n)"
proof -
  let ?n = "unat (if n < 1 then 1 else n)"
  have "0 < ?n" by (auto simp: unat_gt_0)
  moreover have "?n = max 1 (unat n)"
    by (auto simp: max_def Suc_le_eq unat_gt_0)
  ultimately show "room_ok cb (room_new cb uuid now n)" "room_messages cb (room_new cb uuid now n) = []"
    "room_capacity cb (room_new cb uuid now n) = max 1 (unat n)"
    using assms unfolding room_ok_def room_messages_def room_capacity_def room_new_def Let_def
    by (simp_all add: lib_laws)
qed

lemma room_send_law:
  assumes "crossbeam_ok cb" "room_ok cb room" "room_send cb room bytes t = (r, room')"
  shows "r = (if length (room_messages cb room) < room_capacity cb room then Inr () else Inl RE_Timeout)"
    "room_messages cb room' = room_messages cb room
       @ (if length (room_messages cb room) < room_capacity cb room then [bytes] else [])"
    "room_ok cb room'" "room_capacity cb room' = room_capacity cb room"
    "rm_id room' = rm_id room" "rm_created_at room' = rm_created_at room"
proof -
  obtain r1 q1 where s: "cb_send_timeout cb (rm_chan room) (OneToMany bytes) t = (r1, q1)" by force
  have "0 < cb_capacity cb (rm_chan room)" using assms(2) by (simp add: room_ok_def)
  note law = crossbeam_send [OF assms(1) this s]
  have st: "rm_sender room = rwlock_new (Some ())" "\<not> cb_disconnected cb (rm_chan room)"
    using assms(2) by (simp_all add: room_ok_def)
  have eq: "r = map_err room_error_from_send_timeout r1" "room' = room\<lparr>rm_chan := q1\<rparr>"
    using assms(3) st s
    by (auto simp: room_send_def queue_send_timeout_def room_send_timeout_def with_sender_def
        one_to_one_from_def one_to_many_from_def)
  have acc: "cb_accepts cb (rm_chan room) \<longleftrightarrow> length (room_messages cb room) < room_capacity cb room"
    using st by (simp add: cb_accepts_def room_messages_def room_capacity_def)
  show "r = (if length (room_messages cb room) < room_capacity cb room then Inr () else Inl RE_Timeout)"
    using law(1) st acc by (simp add: eq room_error_from_send_timeout_def)
  show "room_messages cb room' = room_messages cb room
       @ (if length (room_messages cb room) < room_capacity cb room then [bytes] else [])"
    using law(2) acc by (simp add: eq room_messages_def one_to_many_deref_def)
  show "room_ok cb room'" using law st assms(2) acc
    by (auto simp: eq room_ok_def room_messages_def room_capacity_def)
  show "room_capacity cb room' = room_capacity cb room" "rm_id room' = rm_id room"
    "rm_created_at room' = rm_created_at room"
    using law by (simp_all add: eq room_capacity_def)
qed

lemma room_recv_law:
  assumes "crossbeam_ok cb" "room_ok cb room" "room_recv cb room t = (r, room')"
  shows "r = (case room_messages cb room of m # ms \<Rightarrow> Inr m | [] \<Rightarrow> Inl RcvE_Timeout)"
    "room_messages cb room' = tl (room_messages cb room)"
    "room_ok cb room'" "room_capacity cb room' = room_capacity cb room"
proof -
  obtain r1 q1 where s: "cb_recv_timeout cb (rm_chan room) t = (r1, q1)" by force
  have "0 < cb_capacity cb (rm_chan room)" using assms(2) by (simp add: room_ok_def)
  note law = crossbeam_recv [OF assms(1) this s]
  have st: "\<not> cb_disconnected cb (rm_chan room)" using assms(2) by (simp add: room_ok_def)
  have eq: "r = (case map_err (\<lambda>e. case e of RTE_Timeout \<Rightarrow> RcvE_Timeout
                    | RTE_Disconnected \<Rightarrow> RcvE_Disconnected) r1 of
                   Inl e \<Rightarrow> Inl e | Inr m \<Rightarrow> Inr (one_to_many_deref m))"
    "room' = room\<lparr>rm_chan := q1\<rparr>"
    using assms(3) s
    by (auto simp: room_recv_def queue_recv_timeout_def receiver_recv_timeout_def split: sum.splits prod.splits)
  show "r = (case room_messages cb room of m # ms \<Rightarrow> Inr m | [] \<Rightarrow> Inl RcvE_Timeout)"
    using law(1) st by (auto simp: eq room_messages_def split: list.split)
  show "room_messages cb room' = tl (room_messages cb room)"
    using law(2) by (simp add: eq room_messages_def map_tl)
  show "room_ok cb room'" using law assms(2) by (auto simp: eq room_ok_def)
  show "room_capacity cb room' = room_capacity cb room" using law by (simp add: eq room_capacity_def)
qed

interpretation room_queue: message_queue crossbeam_ok room_ok room_messages room_capacity room_send room_recv
proof (unfold_locales, goal_cases)
  case (1 L q)
  then show ?case by (simp add: room_ok_def room_messages_def room_capacity_def)
next
  case (2 L q m t)
  then show ?case by (cases "room_send L q m t") (auto dest: room_send_law [OF 2(1,2)])
next
  case (3 L q m t)
  then show ?case by (cases "room_send L q m t") (auto dest: room_send_law [OF 3(1,2)])
next
  case (4 L q m ms t)
  then show ?case by (cases "room_recv L q t") (auto dest: room_recv_law [OF 4(1,2)])
next
  case (5 L q t)
  then show ?case by (cases "room_recv L q t") (auto dest: room_recv_law [OF 5(1,2)])
qed

subsection \<open>Properties of the room\<close>

text \<open>A room, of any requested size, holds at least one message, and for every
  sequence of sends and receives on it the accepted messages are received in the order of
  the sends, each once; at no time are more than \<open>max 1 n\<close> queued.\<close>

lemma room_fifo:
  assumes "crossbeam_ok cb"
    and "queue_run (room_send cb) (room_recv cb) ops (room_new cb uuid now n) = (acc, rcv, room')"
  shows "acc = rcv @ room_messages cb room' \<and> length (room_messages cb room') \<le> max 1 (unat n)"
  using room_queue.run_fifo [OF assms(1) room_ok_new(1) [OF assms(1)] assms(2)]
    room_queue.bounded [of cb room'] room_ok_new [OF assms(1)] by auto

lemma room_fifo_witness:
  "queue_run (room_send ref_crossbeam) (room_recv ref_crossbeam)
      [Q_Send [1] 100, Q_Send [2] 100, Q_Recv 100, Q_Send [3] 100]
      (room_new ref_crossbeam [] [] 0)
    = ([[1], [3]], [[1]], snd (snd (queue_run (room_send ref_crossbeam) (room_recv ref_crossbeam)
      [Q_Send [1] 100, Q_Send [2] 100, Q_Recv 100, Q_Send [3] 100]
      (room_new ref_crossbeam [] [] 0))))
   \<and> room_messages ref_crossbeam (snd (snd (queue_run (room_send ref_crossbeam) (room_recv ref_crossbeam)
      [Q_Send [1] 100, Q_Send [2] 100, Q_Recv 100, Q_Send [3] 100]
      (room_new ref_crossbeam [] [] 0)))) = [[3]]"
  using room_fifo [OF ref_crossbeam_ok, of
      "[Q_Send [1] 100, Q_Send [2] 100, Q_Recv 100, Q_Send [3] 100]" "[]" "[]" 0 "[[1], [3]]" "[[1]]"]
  by (simp add: room_send_def room_recv_def queue_send_timeout_def queue_recv_timeout_def
      room_send_timeout_def with_sender_def receiver_recv_timeout_def room_new_def ref_crossbeam_def
      one_to_one_from_def one_to_many_from_def one_to_many_deref_def room_messages_def
      room_error_from_send_timeout_def)

text \<open>Sending to a room succeeds exactly when its buffer has space and then
  appends the message; otherwise the send times out and the room is unchanged. The errors
  \<open>Busy\<close>, \<open>Closed\<close>, \<open>Full\<close> and \<open>Poisoned\<close> do not occur, as nothing takes the sender out of the
  room or writes its lock.\<close>

lemma room_send_outcome:
  assumes "crossbeam_ok cb"
    and "queue_run (room_send cb) (room_recv cb) ops (room_new cb uuid now n) = (acc, rcv, room)"
    and "queue_send_timeout cb room (one_to_one_from bytes) t = (r, room')"
  shows "let free = length (room_messages cb room) < max 1 (unat n)
         in r = (if free then Inr () else Inl RE_Timeout)
            \<and> room_messages cb room' = room_messages cb room @ (if free then [bytes] else [])"
proof -
  have "room_ok cb room" "room_capacity cb room = max 1 (unat n)"
    using room_queue.run_fifo [OF assms(1) room_ok_new(1) [OF assms(1)] assms(2)]
      room_ok_new [OF assms(1)] by simp_all
  with room_send_law [OF assms(1), of room bytes t r room'] assms(3)
  show ?thesis by (simp add: room_send_def)
qed

lemma room_send_outcome_witness:
  "fst (queue_send_timeout ref_crossbeam (room_new ref_crossbeam [] [] 0) (one_to_one_from [7]) 100) = Inr ()"
proof -
  obtain r room' where s: "queue_send_timeout ref_crossbeam (room_new ref_crossbeam [] [] 0)
      (one_to_one_from [7]) 100 = (r, room')" by force
  show ?thesis
    using room_send_outcome [OF ref_crossbeam_ok, of "[]" "[]" "[]" 0, OF _ s] s
    by (simp add: room_ok_new [OF ref_crossbeam_ok])
qed

end
