(* ===== verification/Username_String.thy ===== *)
theory Username_String
  imports External_Libs
begin

text \<open>
  Validation and case folding of user names, \<open>src/server/src/chat/string.rs\<close>.

  Shown: the search for a byte outside the ASCII alphabet that serves ASCII names agrees with
  the character-by-character test; validation accepts exactly the trimmed texts of 1 to 32
  alphanumeric or underscore characters and reports every other text by its first defect; the
  fixed buffer of 384 bytes always suffices to fold a name of at most 32 characters, so the
  fallback to \<open>str::to_lowercase\<close> is never taken for a valid name.
\<close>

definition MAX_USERNAME_LEN :: nat where "MAX_USERNAME_LEN = 32"

definition ASCII_VALID_CHARS :: rstr where
  "ASCII_VALID_CHARS = lit ''abcdefghijklmnopqrstuvwxyzABCDEFGHIJKLMNOPQRSTUVWXYZ0123456789_''"

definition is_blank :: "rstr \<Rightarrow> bool" where
  "is_blank s \<longleftrightarrow> trim s = []"

definition is_valid_username_char :: "unicode \<Rightarrow> rchar \<Rightarrow> bool" where
  "is_valid_username_char U c \<longleftrightarrow> is_alphanumeric U c \<or> c = 0x5F"

definition is_ascii_valid_fast :: "sz_lib \<Rightarrow> rstr \<Rightarrow> bool" where
  "is_ascii_valid_fast sz s \<longleftrightarrow> sz_find_byte_not_from sz (utf8 s) (utf8 ASCII_VALID_CHARS) = None"

definition is_valid_username_str :: "unicode \<Rightarrow> sz_lib \<Rightarrow> rstr \<Rightarrow> bool" where
  "is_valid_username_str U sz s =
     (if s = [] then False
      else if is_ascii s then is_ascii_valid_fast sz s
      else list_all (is_valid_username_char U) s)"

definition is_too_long :: "rstr \<Rightarrow> bool" where
  "is_too_long s \<longleftrightarrow> length s > MAX_USERNAME_LEN"

datatype validation_result = VR_Valid | VR_Empty | VR_TooLong | VR_InvalidChars

definition validate_username :: "unicode \<Rightarrow> sz_lib \<Rightarrow> rstr \<Rightarrow> validation_result" where
  "validate_username U sz s =
     (let trimmed = trim s in
      if trimmed = [] then VR_Empty
      else if is_too_long trimmed then VR_TooLong
      else if \<not> is_valid_username_str U sz trimmed then VR_InvalidChars
      else VR_Valid)"

definition validated_username ::
    "unicode \<Rightarrow> sz_lib \<Rightarrow> rstr \<Rightarrow> (validation_result, rstr) result" where
  "validated_username U sz s =
     (let trimmed = trim s in
      case validate_username U sz trimmed of
        VR_Valid \<Rightarrow> Inr trimmed
      | err \<Rightarrow> Inl err)"

definition CASE_FOLD_BUFFER_SIZE :: nat where
  "CASE_FOLD_BUFFER_SIZE = MAX_USERNAME_LEN * 3 * 4"

definition case_fold :: "sz_lib \<Rightarrow> rstr \<Rightarrow> rstr option" where
  "case_fold sz s =
     (if s = [] then Some []
      else
        (let (len, buffer) = sz_utf8_case_fold sz (utf8 s) (replicate CASE_FOLD_BUFFER_SIZE 0)
         in if len \<le> length buffer then from_utf8 (take len buffer) else None))"

definition usernames_equal_ignore_case :: "sz_lib \<Rightarrow> rstr \<Rightarrow> rstr \<Rightarrow> bool" where
  "usernames_equal_ignore_case sz a b =
     (case (case_fold sz a, case_fold sz b) of
        (Some folded_a, Some folded_b) \<Rightarrow> folded_a = folded_b
      | _ \<Rightarrow> False)"

definition to_lowercase :: "unicode \<Rightarrow> sz_lib \<Rightarrow> rstr \<Rightarrow> rstr" where
  "to_lowercase U sz s = (case case_fold sz s of Some t \<Rightarrow> t | None \<Rightarrow> str_to_lowercase U s)"

text \<open>The specification of a valid user name, as a text.\<close>

definition valid_name :: "unicode \<Rightarrow> rstr \<Rightarrow> bool" where
  "valid_name U s \<longleftrightarrow> s \<noteq> [] \<and> length s \<le> MAX_USERNAME_LEN \<and> list_all (is_valid_username_char U) s"

subsection \<open>The ASCII alphabet\<close>

lemma ASCII_VALID_CHARS_upt:
  "set ASCII_VALID_CHARS = set ([0x61..<0x7B] @ [0x41..<0x5B] @ [0x30..<0x3A] @ [0x5F])"
  unfolding ASCII_VALID_CHARS_def lit_def by (simp add: upt_conv_Cons insert_commute)

lemma ASCII_VALID_CHARS_iff:
  "c \<in> set ASCII_VALID_CHARS \<longleftrightarrow>
     (0x61 \<le> c \<and> c < 0x7B) \<or> (0x41 \<le> c \<and> c < 0x5B) \<or> (0x30 \<le> c \<and> c < 0x3A) \<or> c = 0x5F"
  by (simp only: ASCII_VALID_CHARS_upt set_append set_upt Un_iff atLeastLessThan_iff list.set
      insert_iff empty_iff simp_thms)

lemma valid_char_ascii:
  "is_ascii_char c \<Longrightarrow> is_valid_username_char U c \<longleftrightarrow> c \<in> set ASCII_VALID_CHARS"
  by (auto simp: ASCII_VALID_CHARS_iff is_valid_username_char_def is_alphanumeric_def
      is_ascii_alphabetic_def is_ascii_uppercase_def is_ascii_lowercase_def is_ascii_digit_def)

lemma ASCII_VALID_CHARS_ascii: "is_ascii ASCII_VALID_CHARS"
  by (auto simp: is_ascii_def list_all_iff ASCII_VALID_CHARS_iff is_ascii_char_def)

lemma is_ascii_valid_fast_iff:
  assumes "sz_ok sz" "is_ascii s"
  shows "is_ascii_valid_fast sz s \<longleftrightarrow> set s \<subseteq> set ASCII_VALID_CHARS"
proof -
  have inj: "inj_on byte_of (set s \<union> set ASCII_VALID_CHARS)"
    using assms(2) ASCII_VALID_CHARS_ascii
    by (intro inj_onI byte_of_inj) (auto simp: is_ascii_def list_all_iff is_ascii_char_def)
  have "is_ascii_valid_fast sz s \<longleftrightarrow> byte_of ` set s \<subseteq> byte_of ` set ASCII_VALID_CHARS"
    using assms ASCII_VALID_CHARS_ascii
    by (auto simp: is_ascii_valid_fast_def lib_laws find_index_None utf8_ascii)
  also have "\<dots> \<longleftrightarrow> set s \<subseteq> set ASCII_VALID_CHARS"
    using inj by (auto dest!: subsetD inj_onD)
  finally show ?thesis .
qed

lemma is_valid_username_str_iff:
  assumes "sz_ok sz"
  shows "is_valid_username_str U sz s \<longleftrightarrow> s \<noteq> [] \<and> list_all (is_valid_username_char U) s"
  using assms
  by (auto simp: is_valid_username_str_def is_ascii_valid_fast_iff is_ascii_def list_all_iff
      valid_char_ascii)

subsection \<open>Case folding fits its buffer\<close>

lemma case_fold_buffer:
  assumes "length s \<le> MAX_USERNAME_LEN"
  shows "3 * str_len s \<le> CASE_FOLD_BUFFER_SIZE"
  using assms length_utf8_le [of s]
  by (simp add: CASE_FOLD_BUFFER_SIZE_def MAX_USERNAME_LEN_def str_len_def)

lemma case_fold_eq:
  assumes "sz_ok sz" "wf_str s" "length s \<le> MAX_USERNAME_LEN"
  shows "case_fold sz s = Some (sz_fold sz s)"
proof (cases "s = []")
  case True
  then show ?thesis by (simp add: case_fold_def sz_fold_def)
next
  case False
  let ?buf = "replicate CASE_FOLD_BUFFER_SIZE (0 :: byte)"
  have fits: "3 * str_len s \<le> length ?buf" using case_fold_buffer [OF assms(3)] by simp
  obtain buf' where b: "sz_utf8_case_fold sz (utf8 s) ?buf = (str_len (sz_fold sz s), buf')"
    "length buf' = length ?buf" "take (str_len (sz_fold sz s)) buf' = utf8 (sz_fold sz s)"
    using sz_case_fold_law [OF assms(1,2) fits] by blast
  have "str_len (sz_fold sz s) \<le> length buf'"
    using length_sz_fold [OF assms(1,2)] fits b(2) by simp
  with b False wf_sz_fold [OF assms(1,2)] show ?thesis by (simp add: case_fold_def)
qed

lemma to_lowercase_eq:
  "sz_ok sz \<Longrightarrow> wf_str s \<Longrightarrow> length s \<le> MAX_USERNAME_LEN \<Longrightarrow> to_lowercase U sz s = sz_fold sz s"
  by (simp add: to_lowercase_def case_fold_eq)

lemma validate_username_iff:
  assumes "sz_ok sz"
  shows "validate_username U sz s = VR_Valid \<longleftrightarrow> valid_name U (trim s)"
    and "validate_username U sz s = VR_Empty \<longleftrightarrow> trim s = []"
    and "validate_username U sz s = VR_TooLong \<longleftrightarrow> MAX_USERNAME_LEN < length (trim s)"
    and "validate_username U sz s = VR_InvalidChars \<longleftrightarrow>
           trim s \<noteq> [] \<and> length (trim s) \<le> MAX_USERNAME_LEN
           \<and> \<not> list_all (is_valid_username_char U) (trim s)"
  by (auto simp: validate_username_def Let_def valid_name_def is_too_long_def
      is_valid_username_str_iff [OF assms])

subsection \<open>Properties of user name validation\<close>

text \<open>Property C37: the byte search that serves ASCII names and the character test that serves
  the others together decide one condition: the name is non-empty and every character is
  alphanumeric or an underscore.\<close>

theorem username_fast_path:
  assumes "sz_ok sz"
  shows "is_valid_username_str U sz s \<longleftrightarrow> s \<noteq> [] \<and> list_all (is_valid_username_char U) s"
  using assms by (rule is_valid_username_str_iff)

lemma username_fast_path_witness:
  "is_valid_username_str ascii_unicode ref_sz (lit ''user_1'')
   \<and> \<not> is_valid_username_str ascii_unicode ref_sz (lit ''a b'')"
  using username_fast_path [OF ref_sz_ok, of ascii_unicode "lit ''user_1''"]
    username_fast_path [OF ref_sz_ok, of ascii_unicode "lit ''a b''"]
  by (simp add: lit_def is_valid_username_char_def is_alphanumeric_def is_ascii_char_def
      is_ascii_alphabetic_def is_ascii_uppercase_def is_ascii_lowercase_def is_ascii_digit_def)

text \<open>Property C36: validation classifies every text by its first defect: empty after trimming,
  longer than 32 characters, or an inadmissible character; it accepts the rest.\<close>

theorem validate_username_classifies:
  assumes "sz_ok sz"
  shows "(validate_username U sz s = VR_Valid \<longleftrightarrow> valid_name U (trim s))
    \<and> (validate_username U sz s = VR_Empty \<longleftrightarrow> trim s = [])
    \<and> (validate_username U sz s = VR_TooLong \<longleftrightarrow> MAX_USERNAME_LEN < length (trim s))
    \<and> (validate_username U sz s = VR_InvalidChars \<longleftrightarrow>
         trim s \<noteq> [] \<and> length (trim s) \<le> MAX_USERNAME_LEN
         \<and> \<not> list_all (is_valid_username_char U) (trim s))"
  using validate_username_iff [OF assms] by simp

lemma validate_username_classifies_witness:
  "validate_username ascii_unicode ref_sz (lit ''  '') = VR_Empty
   \<and> validate_username ascii_unicode ref_sz (replicate 33 0x61) = VR_TooLong"
proof -
  have "trim (replicate 33 0x61) = replicate 33 0x61"
    by (rule trim_id) (simp_all add: is_whitespace_def)
  moreover have "trim (lit ''  '') = []"
    by (simp add: lit_def trim_def trim_start_def trim_end_def is_whitespace_def)
  ultimately show ?thesis
    using validate_username_classifies [OF ref_sz_ok, of ascii_unicode "lit ''  ''"]
      validate_username_classifies [OF ref_sz_ok, of ascii_unicode "replicate 33 0x61"]
    by (simp add: MAX_USERNAME_LEN_def)
qed

text \<open>Property C38: the stack buffer is large enough for every name the server admits: three
  times the bytes of at most 32 characters fit, folding returns the whole folded name, and
  the fallback to \<open>str::to_lowercase\<close> is never used.\<close>

theorem case_fold_fits:
  assumes "sz_ok sz" "wf_str s" "length s \<le> MAX_USERNAME_LEN"
  shows "3 * str_len s \<le> CASE_FOLD_BUFFER_SIZE \<and> case_fold sz s = Some (sz_fold sz s)
    \<and> to_lowercase U sz s = sz_fold sz s"
  using case_fold_buffer [OF assms(3)] case_fold_eq [OF assms] to_lowercase_eq [OF assms] by simp

lemma case_fold_fits_witness:
  "case_fold ref_sz (lit ''HELLO'') = Some (lit ''hello'')"
  using case_fold_fits [OF ref_sz_ok, of "lit ''HELLO''" ascii_unicode]
  by (simp add: lit_def is_scalar_def MAX_USERNAME_LEN_def ref_sz_fold to_ascii_lowercase_def
      is_ascii_uppercase_def)

end
