(* ===== verification/User_Registry.thy ===== *)
theory User_Registry
  imports Username_String "HOL-Library.AList"
begin

text \<open>
  Users and their registry, \<open>src/server/src/chat/user.rs\<close>. A \<open>Sender\<close> is the identifier of a
  channel in the store \<open>chan_id \<Rightarrow> 'c\<close> of all user channels, so that clones of a sender share
  the channel. The hash map is an association list with distinct keys; its order stands for
  the iteration order of the map, and no theorem depends on it. Whether the lock was obtained
  within the 50 ms of \<open>LOCK_TIMEOUT\<close> is the argument \<open>locked\<close> of each operation.

  The locale \<open>name_registry\<close> is the contract between the registry and the connections that
  use it; it is interpreted by the operations below.
\<close>

definition CONCURRENT_LIMIT :: nat where "CONCURRENT_LIMIT = 1024"

datatype user_error =
    UE_UsernameEmpty
  | UE_UsernameTooLong
  | UE_UsernameNotAlphanumeric
  | UE_UsernameTaken rstr
  | UE_LockTimeout

definition user_error_to_string :: "user_error \<Rightarrow> rstr" where
  "user_error_to_string e =
     (case e of
        UE_UsernameEmpty \<Rightarrow> lit ''username cannot be empty''
      | UE_UsernameTooLong \<Rightarrow> lit ''username too long (max 32 chars)''
      | UE_UsernameNotAlphanumeric \<Rightarrow> lit ''username must be alphanumeric''
      | UE_UsernameTaken n \<Rightarrow> lit ''username '' @ 0x27 # n @ 0x27 # lit '' is already taken''
      | UE_LockTimeout \<Rightarrow> lit ''registry lock timeout'')"

datatype username = Username (username_to_string: rstr)

definition username_new :: "unicode \<Rightarrow> sz_lib \<Rightarrow> rstr \<Rightarrow> (user_error, username) result" where
  "username_new U sz s =
     (let trimmed = trim s in
      case validate_username U sz trimmed of
        VR_Valid \<Rightarrow> Inr (Username trimmed)
      | VR_Empty \<Rightarrow> Inl UE_UsernameEmpty
      | VR_TooLong \<Rightarrow> Inl UE_UsernameTooLong
      | VR_InvalidChars \<Rightarrow> Inl UE_UsernameNotAlphanumeric)"

type_synonym chan_id = nat

record user =
  u_username :: username
  u_tx :: chan_id

definition user_new :: "username \<Rightarrow> chan_id \<Rightarrow> user" where
  "user_new username tx = \<lparr> u_username = username, u_tx = tx \<rparr>"

definition user_to_string :: "user \<Rightarrow> rstr" where
  "user_to_string u = username_to_string (u_username u)"

definition get_username :: "user \<Rightarrow> username" where
  "get_username u = u_username u"

datatype normalized_key = NormalizedKey rstr

definition from_username :: "unicode \<Rightarrow> sz_lib \<Rightarrow> username \<Rightarrow> normalized_key" where
  "from_username U sz username = NormalizedKey (to_lowercase U sz (username_to_string username))"

type_synonym user_registry = "(normalized_key \<times> user) list"

definition registry_new :: user_registry where
  "registry_new = []"

text \<open>The registry of the process, made on first use.\<close>

definition get_registry :: user_registry where
  "get_registry = registry_new"

definition register ::
    "unicode \<Rightarrow> sz_lib \<Rightarrow> bool \<Rightarrow> user_registry \<Rightarrow> username \<Rightarrow> chan_id
     \<Rightarrow> (user_error, user) result \<times> user_registry" where
  "register U sz locked users username tx =
     (if \<not> locked then (Inl UE_LockTimeout, users)
      else
        (let key = from_username U sz username in
         case map_of users key of
           Some _ \<Rightarrow> (Inl (UE_UsernameTaken (username_to_string username)), users)
         | None \<Rightarrow>
             (let registered_user = user_new username tx
              in (Inr registered_user, (key, registered_user) # users))))"

definition unregister ::
    "unicode \<Rightarrow> sz_lib \<Rightarrow> bool \<Rightarrow> user_registry \<Rightarrow> user
     \<Rightarrow> (user_error, bool) result \<times> user_registry" where
  "unregister U sz locked users user =
     (if \<not> locked then (Inl UE_LockTimeout, users)
      else
        (let key = from_username U sz (get_username user)
         in (Inr (map_of users key \<noteq> None), AList.delete key users)))"

text \<open>Fan-out of one message. \<open>broadcast\<close> collects the senders under the lock; then the sends run
  concurrently, each under its own time limit and at most \<open>CONCURRENT_LIMIT\<close> at once, and the
  successful ones are counted. \<open>broadcasting\<close> is the state of this stream: the senders that have
  not finished, of which the first \<open>CONCURRENT_LIMIT\<close> are under way.\<close>

definition broadcast_senders :: "user_registry \<Rightarrow> username option \<Rightarrow> chan_id list" where
  "broadcast_senders users exclude =
     map u_tx (filter (\<lambda>user. exclude \<noteq> Some (u_username user)) (map snd users))"

record broadcasting =
  bc_message :: "byte list"
  bc_senders :: "chan_id list"
  bc_sent :: nat

definition broadcast ::
    "bool \<Rightarrow> user_registry \<Rightarrow> byte list \<Rightarrow> username option \<Rightarrow> (user_error, broadcasting) result" where
  "broadcast locked users message exclude =
     (if \<not> locked then Inl UE_LockTimeout
      else Inr \<lparr> bc_message = message, bc_senders = broadcast_senders users exclude, bc_sent = 0 \<rparr>)"

text \<open>One poll of \<open>tokio::time::timeout(SEND_TIMEOUT, tx.send(msg))\<close>: the send is polled first, and
  only if it waits the time limit counts, which has passed if \<open>elapsed\<close>.\<close>

datatype send_outcome = Send_Ok | Send_Closed | Send_Elapsed

definition send_timeout ::
    "('c, 'm) mpsc \<Rightarrow> bool \<Rightarrow> 'c \<Rightarrow> 'm \<Rightarrow> send_outcome poll \<times> 'c" where
  "send_timeout mp elapsed c msg =
     (case mp_send mp c msg of
        (Ready (Inr _), c') \<Rightarrow> (Ready Send_Ok, c')
      | (Ready (Inl _), c') \<Rightarrow> (Ready Send_Closed, c')
      | (Pending, c') \<Rightarrow> (if elapsed then Ready Send_Elapsed else Pending, c'))"

text \<open>One poll of one of the sends under way; \<open>pick\<close> is the number of the one that is woken, modulo
  how many there are. The result is \<open>Ready\<close> with the count when none is left.\<close>

definition broadcast_poll ::
    "('c, byte list) mpsc \<Rightarrow> nat \<Rightarrow> bool \<Rightarrow> (chan_id \<Rightarrow> 'c) \<Rightarrow> broadcasting
     \<Rightarrow> nat poll \<times> broadcasting \<times> (chan_id \<Rightarrow> 'c)" where
  "broadcast_poll mp pick elapsed chans bc =
     (let senders = bc_senders bc; i = pick mod length (take CONCURRENT_LIMIT senders) in
      if senders = [] then (Ready (bc_sent bc), bc, chans)
      else
        (case send_timeout mp elapsed (chans (senders ! i)) (bc_message bc) of
           (Pending, c') \<Rightarrow> (Pending, bc, chans(senders ! i := c'))
         | (Ready outcome, c') \<Rightarrow>
             (let bc' = bc\<lparr>bc_senders := remove_nth i senders,
                           bc_sent := bc_sent bc + (if outcome = Send_Ok then 1 else 0)\<rparr>
              in (if bc_senders bc' = [] then Ready (bc_sent bc') else Pending, bc', chans(senders ! i := c')))))"

text \<open>A broadcast on its own: polled until it is done, with no other task in between.\<close>

fun broadcast_run ::
    "('c, byte list) mpsc \<Rightarrow> (nat \<times> bool) list \<Rightarrow> (chan_id \<Rightarrow> 'c) \<Rightarrow> broadcasting
     \<Rightarrow> nat poll \<times> (chan_id \<Rightarrow> 'c)" where
  "broadcast_run mp [] chans bc = (Pending, chans)"
| "broadcast_run mp ((pick, elapsed) # ps) chans bc =
     (case broadcast_poll mp pick elapsed chans bc of
        (Ready sent_count, bc', chans') \<Rightarrow> (Ready sent_count, chans')
      | (Pending, bc', chans') \<Rightarrow> broadcast_run mp ps chans' bc')"

text \<open>The invariant: keys are distinct, each key is the folded name of its user, and every
  name is valid.\<close>

definition valid_username :: "unicode \<Rightarrow> username \<Rightarrow> bool" where
  "valid_username U u \<longleftrightarrow> valid_name U (username_to_string u)
     \<and> wf_str (username_to_string u) \<and> trim (username_to_string u) = username_to_string u"

definition registry_ok :: "unicode \<Rightarrow> sz_lib \<Rightarrow> user_registry \<Rightarrow> bool" where
  "registry_ok U sz users \<longleftrightarrow>
     distinct (map fst users)
     \<and> (\<forall>(k, u) \<in> set users. k = from_username U sz (u_username u) \<and> valid_username U (u_username u))"

text \<open>A history of registry operations, for statements about every registry that can arise.\<close>

datatype registry_op = Op_Register bool rstr chan_id | Op_Unregister bool user

definition registry_apply :: "unicode \<Rightarrow> sz_lib \<Rightarrow> registry_op \<Rightarrow> user_registry \<Rightarrow> user_registry" where
  "registry_apply U sz op users =
     (case op of
        Op_Register locked raw tx \<Rightarrow>
          (case username_new U sz raw of
             Inl e \<Rightarrow> users
           | Inr n \<Rightarrow> snd (register U sz locked users n tx))
      | Op_Unregister locked u \<Rightarrow> snd (unregister U sz locked users u))"

definition op_text_ok :: "registry_op \<Rightarrow> bool" where
  "op_text_ok op = (case op of Op_Register _ raw _ \<Rightarrow> wf_str raw | Op_Unregister _ _ \<Rightarrow> True)"


subsection \<open>User names\<close>

lemma username_new_iff:
  assumes "sz_ok sz"
  shows "username_new U sz s = Inr u \<longleftrightarrow> u = Username (trim s) \<and> valid_name U (trim s)"
  using validate_username_iff [OF assms, of U "trim s"]
  by (cases "validate_username U sz (trim s)") (auto simp: username_new_def)

lemma username_new_valid:
  assumes "sz_ok sz" "wf_str s" "username_new U sz s = Inr u"
  shows "valid_username U u"
  using assms by (auto simp: username_new_iff valid_username_def)

lemma username_new_errors:
  assumes "sz_ok sz"
  shows "username_new U sz s = Inl UE_UsernameEmpty \<longleftrightarrow> trim s = []"
    "username_new U sz s = Inl UE_UsernameTooLong \<longleftrightarrow> MAX_USERNAME_LEN < length (trim s)"
    "username_new U sz s \<noteq> Inl (UE_UsernameTaken n)" "username_new U sz s \<noteq> Inl UE_LockTimeout"
  using validate_username_iff [OF assms, of U "trim s"]
  by (cases "validate_username U sz (trim s)"; auto simp: username_new_def)+

lemma from_username_eq:
  assumes "sz_ok sz" "valid_username U u"
  shows "from_username U sz u = NormalizedKey (sz_fold sz (username_to_string u))"
  using assms by (simp add: from_username_def valid_username_def valid_name_def to_lowercase_eq)

subsection \<open>The registry\<close>

lemma register_cases:
  "register U sz locked users n tx =
     (if \<not> locked then (Inl UE_LockTimeout, users)
      else if map_of users (from_username U sz n) = None
        then (Inr (user_new n tx), (from_username U sz n, user_new n tx) # users)
      else (Inl (UE_UsernameTaken (username_to_string n)), users))"
  by (simp add: register_def Let_def split: option.split)

lemma map_of_delete: "map_of (AList.delete k users) = (map_of users)(k := None)"
  by (simp add: AList.delete_conv')

lemma registry_ok_new [simp]: "registry_ok U sz registry_new"
  by (simp add: registry_ok_def registry_new_def)

lemma registry_ok_register:
  assumes "registry_ok U sz users" "valid_username U n"
  shows "registry_ok U sz (snd (register U sz locked users n tx))"
  using assms
  by (auto simp: registry_ok_def register_cases user_new_def map_of_eq_None_iff)

lemma registry_ok_unregister:
  assumes "registry_ok U sz users"
  shows "registry_ok U sz (snd (unregister U sz locked users u))"
  using assms
  by (auto simp: registry_ok_def unregister_def Let_def AList.delete_eq distinct_map_filter)

lemma registry_lookup_name:
  assumes "registry_ok U sz users" "map_of users k = Some u"
  shows "k = from_username U sz (u_username u)" "valid_username U (u_username u)"
  using assms map_of_SomeD [OF assms(2)] by (auto simp: registry_ok_def)

locale name_registry =
  fixes lib_ok :: "'l \<Rightarrow> bool"
    and invar :: "'l \<Rightarrow> 'r \<Rightarrow> bool"
    and lookup :: "'r \<Rightarrow> 'k \<Rightarrow> 'u option"
    and key :: "'l \<Rightarrow> 'n \<Rightarrow> 'k"
    and valid :: "'l \<Rightarrow> 'n \<Rightarrow> bool"
    and name_of :: "'u \<Rightarrow> 'n"
    and mk_user :: "'n \<Rightarrow> 'c \<Rightarrow> 'u"
    and add :: "'l \<Rightarrow> bool \<Rightarrow> 'r \<Rightarrow> 'n \<Rightarrow> 'c \<Rightarrow> ('e, 'u) result \<times> 'r"
    and del :: "'l \<Rightarrow> bool \<Rightarrow> 'r \<Rightarrow> 'u \<Rightarrow> ('e, bool) result \<times> 'r"
  assumes name_mk_user [simp]: "name_of (mk_user n c) = n"
    and add_free: "lookup r (key L n) = None \<Longrightarrow> \<exists>r'. add L True r n c = (Inr (mk_user n c), r')
          \<and> lookup r' = (lookup r)(key L n \<mapsto> mk_user n c)"
    and add_taken: "lookup r (key L n) \<noteq> None \<Longrightarrow> \<exists>e. add L locked r n c = (Inl e, r)"
    and add_unlocked: "\<exists>e. add L False r n c = (Inl e, r)"
    and del_locked: "\<exists>r'. del L True r u = (Inr (lookup r (key L (name_of u)) \<noteq> None), r')
          \<and> lookup r' = (lookup r)(key L (name_of u) := None)"
    and del_unlocked: "\<exists>e. del L False r u = (Inl e, r)"
    and invar_add: "lib_ok L \<Longrightarrow> invar L r \<Longrightarrow> valid L n \<Longrightarrow> invar L (snd (add L locked r n c))"
    and invar_del: "lib_ok L \<Longrightarrow> invar L r \<Longrightarrow> invar L (snd (del L locked r u))"
    and invar_key: "invar L r \<Longrightarrow> lookup r k = Some u \<Longrightarrow> k = key L (name_of u)"
begin

lemma add_InrD:
  assumes "add L locked r n c = (Inr u, r')"
  shows "locked" "u = mk_user n c" "lookup r (key L n) = None"
    "lookup r' = (lookup r)(key L n \<mapsto> mk_user n c)"
proof -
  show l: locked using assms add_unlocked [of L r n c] by (cases locked) auto
  show f: "lookup r (key L n) = None"
  proof (rule ccontr)
    assume "lookup r (key L n) \<noteq> None"
    from add_taken [OF this, of locked c] assms show False by auto
  qed
  show "u = mk_user n c" "lookup r' = (lookup r)(key L n \<mapsto> mk_user n c)"
    using add_free [OF f, of c] assms l by auto
qed

lemma add_InlD: "add L locked r n c = (Inl e, r') \<Longrightarrow> r' = r"
  using add_taken [of r L n locked c] add_unlocked [of L r n c] add_free [of r L n c]
  by (cases "lookup r (key L n)"; cases locked) auto

text \<open>Two users never hold names with the same key.\<close>

lemma names_unique:
  assumes "invar L r" "lookup r k = Some u" "lookup r k' = Some v" "key L (name_of u) = key L (name_of v)"
  shows "k = k' \<and> u = v"
  using assms invar_key by (metis option.inject)

text \<open>Leaving makes the name available again, and only that name.\<close>

lemma add_del_restores:
  assumes "add L locked r n c = (Inr u, r')"
  shows "\<exists>r''. del L True r' u = (Inr True, r'') \<and> lookup r'' = lookup r"
proof -
  note a = add_InrD [OF assms]
  obtain r'' where "del L True r' u = (Inr (lookup r' (key L (name_of u)) \<noteq> None), r'')"
    "lookup r'' = (lookup r')(key L (name_of u) := None)"
    using del_locked by blast
  with a show ?thesis by (auto simp: fun_upd_idem)
qed

lemma del_twice:
  assumes "del L True r u = (Inr b, r')"
  shows "\<exists>r''. del L True r' u = (Inr False, r'')"
  using assms del_locked [of L r u] del_locked [of L r' u] by auto

lemma readd_after_del:
  assumes "del L True r u = (Inr b, r')" "key L n = key L (name_of u)"
  shows "\<exists>r''. add L True r' n c = (Inr (mk_user n c), r'')"
  using assms del_locked [of L r u] add_free [of r' L n c] by auto

end

interpretation registry: name_registry
  "\<lambda>(U, sz). sz_ok sz" "\<lambda>(U, sz). registry_ok U sz" "map_of"
  "\<lambda>(U, sz). from_username U sz" "\<lambda>(U, sz). valid_username U" get_username user_new
  "\<lambda>(U, sz). register U sz" "\<lambda>(U, sz). unregister U sz"
proof (unfold_locales, goal_cases)
  case (1 n c)
  show ?case by (simp add: get_username_def user_new_def)
next
  case (2 r L n c)
  then show ?case by (simp add: case_prod_beta register_cases)
next
  case (3 r L n locked c)
  then show ?case by (auto simp: case_prod_beta register_cases)
next
  case (4 L r n c)
  show ?case by (simp add: case_prod_beta register_cases)
next
  case (5 L r u)
  show ?case by (simp add: case_prod_beta unregister_def Let_def map_of_delete)
next
  case (6 L r u)
  show ?case by (simp add: case_prod_beta unregister_def)
next
  case (7 L r n locked c)
  then show ?case by (simp add: case_prod_beta registry_ok_register)
next
  case (8 L r locked u)
  then show ?case by (simp add: case_prod_beta registry_ok_unregister)
next
  case (9 L r k u)
  then show ?case using registry_lookup_name(1) [of "fst L" "snd L" r k u]
    by (simp add: case_prod_beta get_username_def)
qed


subsection \<open>Broadcast\<close>

lemma send_timeout_law:
  assumes "mpsc_ok mp" "send_timeout mp elapsed c msg = (r, c')"
  shows "r = (if mp_accepts mp c then Ready Send_Ok else if mp_closed mp c then Ready Send_Closed
              else if elapsed then Ready Send_Elapsed else Pending)"
    "mp_messages mp c' = mp_messages mp c @ (if mp_accepts mp c then [msg] else [])" "mp_same mp c c'"
proof -
  obtain q c1 where q: "mp_send mp c msg = (q, c1)" by force
  note law = mpsc_send [OF assms(1) q]
  have c1: "c1 = c'" using assms(2) q by (simp add: send_timeout_def split: poll.splits sum.splits)
  show "mp_messages mp c' = mp_messages mp c @ (if mp_accepts mp c then [msg] else [])" "mp_same mp c c'"
    using law(2,3) unfolding c1 .
  have "r = (case q of Ready (Inr _) \<Rightarrow> Ready Send_Ok | Ready (Inl _) \<Rightarrow> Ready Send_Closed
      | Pending \<Rightarrow> if elapsed then Ready Send_Elapsed else Pending)"
    using assms(2) q by (auto simp: send_timeout_def split: poll.splits sum.splits)
  then show "r = (if mp_accepts mp c then Ready Send_Ok else if mp_closed mp c then Ready Send_Closed
              else if elapsed then Ready Send_Elapsed else Pending)"
    unfolding law(1) by simp
qed

text \<open>What one poll of a broadcast does: nothing is left to do, the send that is woken goes on waiting,
  or it is finished.\<close>

lemma broadcast_poll_cases:
  assumes "mpsc_ok mp" "distinct (bc_senders bc)" "broadcast_poll mp pick elapsed chans bc = (p, bc', chans')"
  obtains (over) "bc_senders bc = []" "p = Ready (bc_sent bc)" "bc' = bc" "chans' = chans"
    | (waits) tx where "tx \<in> set (bc_senders bc)" "\<not> mp_accepts mp (chans tx)" "\<not> elapsed" "p = Pending" "bc' = bc"
      "\<And>t. mp_messages mp (chans' t) = mp_messages mp (chans t)" "\<And>t. mp_same mp (chans t) (chans' t)"
    | (sends) tx where "tx \<in> set (bc_senders bc)" "bc_message bc' = bc_message bc"
      "set (bc_senders bc') = set (bc_senders bc) - {tx}" "distinct (bc_senders bc')"
      "length (bc_senders bc) = Suc (length (bc_senders bc'))"
      "p = (if bc_senders bc' = [] then Ready (bc_sent bc') else Pending)"
      "\<And>P. length (filter P (bc_senders bc)) = length (filter P (bc_senders bc')) + (if P tx then 1 else 0)"
      "bc_sent bc' = bc_sent bc + (if mp_accepts mp (chans tx) then 1 else 0)"
      "\<And>t. mp_messages mp (chans' t) = mp_messages mp (chans t)
             @ (if t = tx \<and> mp_accepts mp (chans tx) then [bc_message bc] else [])"
      "\<And>t. mp_same mp (chans t) (chans' t)"
proof (cases "bc_senders bc = []")
  case True
  then have "p = Ready (bc_sent bc)" "bc' = bc" "chans' = chans" using assms(3) by (auto simp: broadcast_poll_def)
  then show thesis by (rule that(1) [OF True])
next
  case False
  let ?txs = "bc_senders bc"
  let ?i = "pick mod length (take CONCURRENT_LIMIT ?txs)"
  have "0 < length (take CONCURRENT_LIMIT ?txs)" using False by (simp add: CONCURRENT_LIMIT_def)
  then have "?i < length (take CONCURRENT_LIMIT ?txs)" by (rule mod_less_divisor)
  then have i: "?i < length ?txs" by simp
  let ?tx = "?txs ! ?i"
  obtain r c' where s: "send_timeout mp elapsed (chans ?tx) (bc_message bc) = (r, c')" by force
  note law = send_timeout_law [OF assms(1) s]
  have chans': "chans' = chans(?tx := c')"
    using assms(3) s False by (auto simp: broadcast_poll_def Let_def split: poll.splits)
  show thesis
  proof (cases r)
    case Pending
    then have "p = Pending" "bc' = bc" using assms(3) s False by (auto simp: broadcast_poll_def Let_def)
    moreover have na: "\<not> mp_accepts mp (chans ?tx)" "\<not> elapsed" using law(1) Pending by (auto split: if_splits)
    moreover have "mp_messages mp (chans' t) = mp_messages mp (chans t)" "mp_same mp (chans t) (chans' t)" for t
      using law(2,3) na(1) by (simp_all add: chans')
    ultimately show thesis by (intro that(2) [OF nth_mem [OF i]])
  next
    case (Ready outcome)
    then have bc': "bc' = bc\<lparr>bc_senders := remove_nth ?i ?txs, bc_sent := bc_sent bc + (if outcome = Send_Ok then 1 else 0)\<rparr>"
      "p = (if bc_senders bc' = [] then Ready (bc_sent bc') else Pending)"
      using assms(3) s False by (auto simp: broadcast_poll_def Let_def)
    have o: "outcome = Send_Ok \<longleftrightarrow> mp_accepts mp (chans ?tx)" using law(1) Ready by (auto split: if_splits)
    have cnt: "length (filter P ?txs) = length (filter P (bc_senders bc')) + (if P ?tx then 1 else 0)" for P
      using remove_nth_facts(2) [OF i] by (simp add: bc'(1))
    have sent: "bc_sent bc' = bc_sent bc + (if mp_accepts mp (chans ?tx) then 1 else 0)" by (simp add: bc'(1) o)
    have msgs: "mp_messages mp (chans' t) = mp_messages mp (chans t)
        @ (if t = ?tx \<and> mp_accepts mp (chans ?tx) then [bc_message bc] else [])"
      "mp_same mp (chans t) (chans' t)" for t
      using law(2,3) by (simp_all add: chans')
    have rest: "bc_message bc' = bc_message bc" "set (bc_senders bc') = set ?txs - {?tx}" "distinct (bc_senders bc')"
      "length ?txs = Suc (length (bc_senders bc'))"
      using remove_nth_facts(1,3,4) [OF i] assms(2) by (simp_all add: bc'(1))
    show thesis by (rule that(3) [OF nth_mem [OF i] rest bc'(2) cnt sent msgs])
  qed
qed

lemma broadcast_run_completes:
  assumes "mpsc_ok mp" "distinct (bc_senders bc)" "list_all snd ps" "ps \<noteq> []" "length (bc_senders bc) \<le> length ps"
  shows "\<exists>chans'. broadcast_run mp ps chans bc
      = (Ready (bc_sent bc + length (filter (\<lambda>tx. mp_accepts mp (chans tx)) (bc_senders bc))), chans')
    \<and> (\<forall>tx. mp_messages mp (chans' tx) = mp_messages mp (chans tx)
          @ (if tx \<in> set (bc_senders bc) \<and> mp_accepts mp (chans tx) then [bc_message bc] else []))"
  using assms(2-)
proof (induction ps arbitrary: bc chans)
  case (Cons x ps)
  obtain pick where x: "x = (pick, True)" using Cons.prems(2) by (cases x) simp
  obtain p bc' chans' where s: "broadcast_poll mp pick True chans bc = (p, bc', chans')" by (metis prod_cases3)
  show ?case
  proof (rule broadcast_poll_cases [OF assms(1) Cons.prems(1) s], goal_cases)
    case 1
    with s x show ?case by simp
  next
    case (3 tx)
    have same: "mp_accepts mp (chans' t) = mp_accepts mp (chans t)" if "t \<noteq> tx" for t
      using 3(9,10) [of t] that by (simp add: mp_accepts_def mp_same_def)
    have flt: "filter (\<lambda>t. mp_accepts mp (chans' t)) (bc_senders bc') = filter (\<lambda>t. mp_accepts mp (chans t)) (bc_senders bc')"
      using 3(3) same by (intro filter_cong) auto
    note count = 3(7) [of "\<lambda>t. mp_accepts mp (chans t)"]
    show ?case
    proof (cases "bc_senders bc' = []")
      case True
      then have "set (bc_senders bc) = {tx}" using 3(1,3) by auto
      with 3(6,8,9) True count s x show ?thesis by simp
    next
      case False
      have "ps \<noteq> []" using False 3(5) Cons.prems(4) by auto
      then obtain chans2 where "broadcast_run mp ps chans' bc'
          = (Ready (bc_sent bc' + length (filter (\<lambda>tx. mp_accepts mp (chans' tx)) (bc_senders bc'))), chans2)"
        "\<forall>t. mp_messages mp (chans2 t) = mp_messages mp (chans' t)
          @ (if t \<in> set (bc_senders bc') \<and> mp_accepts mp (chans' t) then [bc_message bc'] else [])"
        using Cons.IH [of bc' chans'] Cons.prems(2,4) 3(4,5) by auto
      moreover have "broadcast_run mp (x # ps) chans bc = broadcast_run mp ps chans' bc'"
        using 3(6) False s x by simp
      moreover have "mp_messages mp (chans' t) @ (if t \<in> set (bc_senders bc') \<and> mp_accepts mp (chans' t) then [bc_message bc'] else [])
        = mp_messages mp (chans t) @ (if t \<in> set (bc_senders bc) \<and> mp_accepts mp (chans t) then [bc_message bc] else [])" for t
        using 3(1,2,3,9) same by (cases "t = tx") auto
      ultimately show ?thesis using count flt 3(8) by simp
    qed
  qed simp
qed simp

subsection \<open>Properties of the registry\<close>

lemma registry_run_ok:
  assumes "sz_ok sz" "list_all op_text_ok ops" "registry_ok U sz users"
  shows "registry_ok U sz (fold (registry_apply U sz) ops users)"
  using assms(2,3)
proof (induction ops arbitrary: users)
  case (Cons op ops)
  have "registry_ok U sz (registry_apply U sz op users)"
  proof (cases op)
    case (Op_Register locked raw tx)
    with Cons.prems assms(1) show ?thesis
      by (auto simp: registry_apply_def op_text_ok_def registry_ok_register
          dest: username_new_valid split: sum.split)
  next
    case (Op_Unregister locked u)
    with Cons.prems show ?thesis by (simp add: registry_apply_def registry_ok_unregister)
  qed
  with Cons show ?case by simp
qed simp

lemma registry_entry:
  "registry_ok U sz users \<Longrightarrow> sz_ok sz \<Longrightarrow> (k, u) \<in> set users \<Longrightarrow>
   k = NormalizedKey (sz_fold sz (username_to_string (u_username u)))"
  using from_username_eq by (fastforce simp: registry_ok_def)

lemma registry_lookup_folded:
  assumes "sz_ok sz" "registry_ok U sz users" "valid_username U n"
  shows "map_of users (from_username U sz n) = None \<longleftrightarrow>
    (\<forall>u \<in> snd ` set users. sz_fold sz (user_to_string u) \<noteq> sz_fold sz (username_to_string n))"
  using assms registry_entry [OF assms(2,1)]
  by (force simp: map_of_eq_None_iff from_username_eq user_to_string_def)

lemma distinct_folded:
  assumes "sz_ok sz" "registry_ok U sz users"
  shows "distinct (map (\<lambda>(k, u). sz_fold sz (user_to_string u)) users)"
proof -
  have "map fst users = map NormalizedKey (map (\<lambda>(k, u). sz_fold sz (user_to_string u)) users)"
    using registry_entry [OF assms(2,1)] by (auto simp: user_to_string_def)
  moreover have "distinct (map fst users)" using assms(2) by (simp add: registry_ok_def)
  ultimately show ?thesis by (metis distinct_map)
qed

text \<open>After any history of joins and leaves, with any raw names and any outcome
  of the lock, no two registered users have names that are equal up to case folding.\<close>

lemma usernames_unique:
  assumes "sz_ok sz" "list_all op_text_ok ops"
  shows "distinct (map (\<lambda>(k, u). sz_fold sz (user_to_string u))
                     (fold (registry_apply U sz) ops registry_new))"
  using assms by (intro distinct_folded [where U = U] registry_run_ok) simp_all

lemma usernames_unique_witness:
  "distinct (map (\<lambda>(k, u). sz_fold ref_sz (user_to_string u))
     (fold (registry_apply ascii_unicode ref_sz)
        [Op_Register True (lit ''alice'') 0, Op_Register True (lit ''ALICE'') 1] registry_new))"
  by (rule usernames_unique [OF ref_sz_ok]) (simp add: op_text_ok_def lit_def is_scalar_def)

text \<open>Registering a valid name fails with \<open>UsernameTaken\<close> exactly when a user is
  registered whose name is equal up to case folding, and then leaves the registry alone;
  otherwise it adds the user under the folded name; without the lock nothing changes.\<close>

lemma register_effect:
  assumes "sz_ok sz" "registry_ok U sz users" "valid_username U n"
  shows "register U sz locked users n tx =
    (if \<not> locked then (Inl UE_LockTimeout, users)
     else if \<exists>u \<in> snd ` set users. sz_fold sz (user_to_string u) = sz_fold sz (username_to_string n)
       then (Inl (UE_UsernameTaken (username_to_string n)), users)
     else (Inr (user_new n tx),
           (NormalizedKey (sz_fold sz (username_to_string n)), user_new n tx) # users))"
  using registry_lookup_folded [OF assms] from_username_eq [OF assms(1,3)]
  by (auto simp: register_cases)

lemma register_effect_witness:
  "register ascii_unicode ref_sz True
     [(NormalizedKey (lit ''alice''), user_new (Username (lit ''alice'')) 0)] (Username (lit ''ALICE'')) 1
   = (Inl (UE_UsernameTaken (lit ''ALICE'')),
      [(NormalizedKey (lit ''alice''), user_new (Username (lit ''alice'')) 0)])"
proof -
  note d = lit_def is_scalar_def valid_name_def MAX_USERNAME_LEN_def is_valid_username_char_def
    is_alphanumeric_def is_ascii_char_def is_ascii_alphabetic_def is_ascii_uppercase_def
    is_ascii_lowercase_def ref_sz_fold to_ascii_lowercase_def
  have v: "valid_username ascii_unicode (Username (lit ''alice''))"
    "valid_username ascii_unicode (Username (lit ''ALICE''))"
    by (simp_all add: valid_username_def d trim_id is_whitespace_def)
  have ok: "registry_ok ascii_unicode ref_sz
      [(NormalizedKey (lit ''alice''), user_new (Username (lit ''alice'')) 0)]"
    using v from_username_eq [OF ref_sz_ok v(1)] by (simp add: registry_ok_def user_new_def d)
  show ?thesis
    using register_effect [OF ref_sz_ok ok v(2), of True 1]
    by (simp add: user_to_string_def user_new_def d)
qed

text \<open>Leaving undoes joining: unregistering a user that has just been registered
  reports success, restores the set of taken names, a second attempt reports that nothing was
  removed, and the name can then be registered by another connection.\<close>

lemma leave_frees_name:
  assumes "register U sz True users n tx = (Inr u, users1)"
    and "unregister U sz True users1 u = (r, users2)"
  shows "r = Inr True \<and> map_of users2 = map_of users
    \<and> fst (unregister U sz True users2 u) = Inr False
    \<and> fst (register U sz True users2 n tx') = Inr (user_new n tx')"
proof -
  have r: "r = Inr True" "map_of users2 = map_of users"
    using registry.add_del_restores [of "(U, sz)" True users n tx u users1] assms by auto
  moreover have "fst (unregister U sz True users2 u) = Inr False"
    using registry.del_twice [of "(U, sz)" users1 u True users2] assms r by auto
  moreover have "map_of users2 (from_username U sz n) = None"
    using registry.add_InrD(3) [of "(U, sz)" True users n tx u users1] assms r by simp
  ultimately show ?thesis by (simp add: register_cases)
qed

lemma leave_frees_name_witness:
  "\<exists>users1 users2.
     register ascii_unicode ref_sz True [] (Username (lit ''bob'')) 7
       = (Inr (user_new (Username (lit ''bob'')) 7), users1)
     \<and> unregister ascii_unicode ref_sz True users1 (user_new (Username (lit ''bob'')) 7) = (Inr True, users2)
     \<and> fst (register ascii_unicode ref_sz True users2 (Username (lit ''bob'')) 8)
         = Inr (user_new (Username (lit ''bob'')) 8)"
proof -
  obtain users1 where r: "register ascii_unicode ref_sz True [] (Username (lit ''bob'')) 7
       = (Inr (user_new (Username (lit ''bob'')) 7), users1)"
    by (simp add: register_cases)
  obtain r2 users2 where u: "unregister ascii_unicode ref_sz True users1
      (user_new (Username (lit ''bob'')) 7) = (r2, users2)"
    by (cases "unregister ascii_unicode ref_sz True users1 (user_new (Username (lit ''bob'')) 7)")
  show ?thesis using leave_frees_name [OF r u, of 8] r u by blast
qed



end
