(* ===== verification/Rate_Limiter.thy ===== *)
theory Rate_Limiter
  imports Consts External_Libs
begin

text \<open>
  The rate limiter of a connection, \<open>src/server/src/chat/rate_limiter.rs\<close>, over the
  \<open>governor\<close> crate. \<open>acquire\<close> is an asynchronous function; its definition is one poll of it at
  a given time, which lets the caller through or leaves it waiting.

  Shown: zero rates and bursts are replaced by one; a caller that is let through again and
  again is slowed to the configured rate beyond its burst, however it is polled; and nobody
  waits longer than one period after the previous caller was let through.
\<close>

record 'g rate_limiter =
  rl_inner :: 'g

text \<open>\<open>NonZeroU32::new(n).unwrap_or(NonZeroU32::MIN)\<close>.\<close>

definition non_zero_or_min :: "u32 \<Rightarrow> u32" where
  "non_zero_or_min n = (if n = 0 then 1 else n)"

definition with_config :: "'g governor \<Rightarrow> u32 \<Rightarrow> u32 \<Rightarrow> 'g rate_limiter" where
  "with_config gv rate_per_second burst_capacity =
     (let rate = non_zero_or_min rate_per_second; burst = non_zero_or_min burst_capacity
      in \<lparr> rl_inner = gov_direct gv rate burst \<rparr>)"

definition rate_limiter_new :: "'g governor \<Rightarrow> 'g rate_limiter" where
  "rate_limiter_new gv = with_config gv MAX_MESSAGES_PER_SECOND MESSAGE_BURST_CAPACITY"

definition rate_limiter_default :: "'g governor \<Rightarrow> 'g rate_limiter" where
  "rate_limiter_default gv = rate_limiter_new gv"

definition try_acquire :: "'g governor \<Rightarrow> 'g rate_limiter \<Rightarrow> nat \<Rightarrow> bool \<times> 'g rate_limiter" where
  "try_acquire gv rl now =
     (case gov_check gv (rl_inner rl) now of (ok, g) \<Rightarrow> (ok, rl\<lparr>rl_inner := g\<rparr>))"

definition acquire :: "'g governor \<Rightarrow> 'g rate_limiter \<Rightarrow> nat \<Rightarrow> 'g rate_limiter poll" where
  "acquire gv rl now =
     (case gov_until_ready gv (rl_inner rl) now of
        Pending \<Rightarrow> Pending
      | Ready g \<Rightarrow> Ready (rl\<lparr>rl_inner := g\<rparr>))"

text \<open>The times at which a caller that polls at the given times is let through.\<close>

fun acquire_times :: "'g governor \<Rightarrow> 'g rate_limiter \<Rightarrow> nat list \<Rightarrow> nat list" where
  "acquire_times gv rl [] = []"
| "acquire_times gv rl (now # nows) =
     (case acquire gv rl now of
        Pending \<Rightarrow> acquire_times gv rl nows
      | Ready rl' \<Rightarrow> now # acquire_times gv rl' nows)"

text \<open>A limiter with period \<open>T\<close> and burst \<open>b\<close>, and what it owes: a limiter that has let somebody
  through at time \<open>t\<close> lets the next but \<open>n\<close> through no earlier than \<open>t + (n + 1) * T - b * T\<close>.\<close>

definition limits :: "'g governor \<Rightarrow> nat \<Rightarrow> nat \<Rightarrow> 'g rate_limiter \<Rightarrow> bool" where
  "limits gv T b rl \<longleftrightarrow> gov_period gv (rl_inner rl) = T \<and> gov_burst gv (rl_inner rl) = b"

definition owes :: "'g governor \<Rightarrow> nat \<Rightarrow> 'g rate_limiter \<Rightarrow> bool" where
  "owes gv x rl \<longleftrightarrow> (\<exists>y. gov_tat gv (rl_inner rl) = Some y \<and> x \<le> y)"

definition spaced :: "nat \<Rightarrow> nat \<Rightarrow> nat list \<Rightarrow> bool" where
  "spaced T b ts \<longleftrightarrow>
     (\<forall>j < length ts. \<forall>i < j. ts ! i + (j - i) * T \<le> ts ! j + b * T)"

text \<open>The debt towards every time in a list, as long as the list is the times let through so far.\<close>

definition owes_all :: "'g governor \<Rightarrow> nat \<Rightarrow> nat list \<Rightarrow> 'g rate_limiter \<Rightarrow> bool" where
  "owes_all gv T ts rl \<longleftrightarrow> (\<forall>i < length ts. owes gv (ts ! i + (length ts - i) * T) rl)"

subsection \<open>One poll\<close>

lemma acquire_iff_try:
  assumes "governor_ok gv"
  shows "acquire gv rl now = (case try_acquire gv rl now of (ok, rl') \<Rightarrow> if ok then Ready rl' else Pending)"
  using assms by (auto simp: acquire_def try_acquire_def governor_ok_def split: prod.split)

lemma acquire_Ready:
  assumes "governor_ok gv" "limits gv T b rl" "acquire gv rl now = Ready rl'"
  shows "limits gv T b rl'" "owes gv (now + T) rl'" "owes gv x rl \<Longrightarrow> x \<le> now + b * T"
    "owes gv x rl \<Longrightarrow> owes gv (x + T) rl'"
    "\<exists>y. gov_tat gv (rl_inner rl') = Some y \<and> y \<le> now + b * T + T"
proof -
  obtain g where g: "gov_check gv (rl_inner rl) now = (True, g)" "rl' = rl\<lparr>rl_inner := g\<rparr>"
    using assms(1,3) by (auto simp: acquire_def governor_ok_def split: prod.splits if_splits)
  have "gov_period gv g = T \<and> gov_burst gv g = b \<and> arrival gv (rl_inner rl) now \<le> now + b * T
     \<and> gov_tat gv g = Some (max (arrival gv (rl_inner rl) now) now + T)"
    using assms(1,2) g(1) unfolding governor_ok_def limits_def by fastforce
  with g(2) show "limits gv T b rl'" "owes gv (now + T) rl'" "owes gv x rl \<Longrightarrow> x \<le> now + b * T"
    "owes gv x rl \<Longrightarrow> owes gv (x + T) rl'"
    "\<exists>y. gov_tat gv (rl_inner rl') = Some y \<and> y \<le> now + b * T + T"
    by (auto simp: limits_def owes_def arrival_def)
qed

lemma acquire_Pending:
  assumes "governor_ok gv" "limits gv T b rl" "acquire gv rl now = Pending"
  shows "now + b * T < arrival gv (rl_inner rl) now"
  using assms unfolding governor_ok_def limits_def acquire_def
  by (fastforce split: prod.splits if_splits)

lemma with_config_limits:
  assumes "governor_ok gv"
  shows "limits gv (1000000000 div unat (non_zero_or_min rate)) (unat (non_zero_or_min burst))
           (with_config gv rate burst)"
    "gov_tat gv (rl_inner (with_config gv rate burst)) = None"
  using assms by (simp_all add: limits_def with_config_def Let_def lib_laws non_zero_or_min_def)

lemma spaced_snoc:
  assumes "spaced T b ts" "\<And>i. i < length ts \<Longrightarrow> ts ! i + (length ts - i) * T \<le> t + b * T"
  shows "spaced T b (ts @ [t])"
  using assms by (auto simp: spaced_def nth_append less_Suc_eq)

lemma owes_all_acquire:
  assumes "governor_ok gv" "limits gv T b rl" "acquire gv rl now = Ready rl'"
    and "owes_all gv T ts rl" "spaced T b ts"
  shows "owes_all gv T (ts @ [now]) rl'" "spaced T b (ts @ [now])"
proof -
  note a = acquire_Ready [OF assms(1-3)]
  show "spaced T b (ts @ [now])"
    using assms(4) a(3) by (intro spaced_snoc assms(5)) (auto simp: owes_all_def)
  have "owes gv (ts ! i + (Suc (length ts) - i) * T) rl'" if "i < length ts" for i
    using a(4) [of "ts ! i + (length ts - i) * T"] assms(4) that
    by (simp add: owes_all_def Suc_diff_le add.assoc add.commute [of T])
  with a(2) show "owes_all gv T (ts @ [now]) rl'"
    by (auto simp: owes_all_def nth_append less_Suc_eq)
qed

lemma acquire_times_spaced:
  assumes "governor_ok gv" "limits gv T b rl" "owes_all gv T ts rl" "spaced T b ts"
  shows "spaced T b (ts @ acquire_times gv rl nows)"
  using assms(2-)
proof (induction nows arbitrary: rl ts)
  case (Cons now nows)
  show ?case
  proof (cases "acquire gv rl now")
    case (Ready rl')
    with Cons.IH [of rl' "ts @ [now]"] owes_all_acquire [OF assms(1) Cons.prems(1) Ready Cons.prems(2,3)]
      acquire_Ready(1) [OF assms(1) Cons.prems(1) Ready]
    show ?thesis by simp
  qed (use Cons in simp)
qed simp

subsection \<open>Properties of the rate limiter\<close>

text \<open>A limiter made from any configuration, zeros included, and polled at any
  times lets a caller through at times \<open>ts\<close> such that \<open>n\<close> admissions apart lie at least
  \<open>n - burst\<close> periods of time, where the period is one second divided by the (non-zero) rate.\<close>

lemma acquire_rate_bound:
  assumes "governor_ok gv"
  shows "spaced (1000000000 div unat (non_zero_or_min rate)) (unat (non_zero_or_min burst))
           (acquire_times gv (with_config gv rate burst) nows)"
  using acquire_times_spaced [OF assms with_config_limits(1) [OF assms], where ts = "[]"]
  by (simp add: owes_all_def spaced_def)

lemma acquire_rate_bound_witness:
  "spaced 100000000 1 (acquire_times ref_governor (with_config ref_governor 10 0) [5, 5, 100000005])"
  using acquire_rate_bound [OF ref_governor_ok, of 10 0 "[5, 5, 100000005]"]
  by (simp add: non_zero_or_min_def)

text \<open>A caller polled one period after the last admission is let through: the wait is bounded.\<close>

lemma acquire_after_period:
  assumes "governor_ok gv" "limits gv T b rl" "acquire gv rl t = Ready rl'" "t + T \<le> now"
  shows "\<exists>rl''. acquire gv rl' now = Ready rl''"
proof (cases "acquire gv rl' now")
  case Pending
  obtain y where y: "gov_tat gv (rl_inner rl') = Some y" "y \<le> t + b * T + T"
    using acquire_Ready(5) [OF assms(1-3)] by blast
  with acquire_Pending [OF assms(1) acquire_Ready(1) [OF assms(1-3)] Pending] assms(4)
  show ?thesis by (simp add: arrival_def)
qed simp

text \<open>A fresh limiter lets its first caller through at once.\<close>

lemma acquire_fresh:
  assumes "governor_ok gv" "limits gv T b rl" "0 < b" "gov_tat gv (rl_inner rl) = None"
  shows "\<exists>rl'. acquire gv rl now = Ready rl'"
proof (cases "acquire gv rl now")
  case Pending
  have "T \<le> b * T" using assms(3) by simp
  with acquire_Pending [OF assms(1,2) Pending] assms(2,4) show ?thesis
    by (simp add: arrival_def limits_def)
qed simp

end
