(* ===== verification/Broker.thy ===== *)
theory Broker
  imports Room User_Registry Rate_Limiter
begin

text \<open>
  The message broker, \<open>src/server/src/chat/broker.rs\<close>: it holds the room, the registry and the
  dispatcher task that moves messages from the room to the channels of the users. The
  channels themselves are part of the state, as the store that the senders of the registry
  point into.

  The dispatcher is a task of its own, and other tasks run between any two of its steps, so it is
  modelled one poll at a time: \<open>bk_task\<close> is the point it has reached, the check of the shutdown flag,
  the blocking receive, or the concurrent sends of a broadcast, and \<open>dispatcher_poll\<close> is what it does
  next. Its environment says whether the blocking receive task could be joined, whether the lock
  of the registry was obtained in time, which of the sends is woken and whether its time limit
  has passed. \<open>dispatcher_loop\<close> is a sequence of polls with no other task in between.

  The crates are collected in the record \<open>libs\<close>; \<open>libs_ok\<close> is the conjunction of their laws.
\<close>

record ('q, 'c, 'g) libs =
  lb_unicode :: unicode
  lb_sz :: sz_lib
  lb_cb :: "('q, one_to_many) crossbeam"
  lb_mp :: "('c, byte list) mpsc"
  lb_gov :: "'g governor"

definition libs_ok :: "('q, 'c, 'g) libs \<Rightarrow> bool" where
  "libs_ok L \<longleftrightarrow> sz_ok (lb_sz L) \<and> crossbeam_ok (lb_cb L) \<and> mpsc_ok (lb_mp L) \<and> governor_ok (lb_gov L)"

text \<open>The points of the dispatcher task.\<close>

datatype dispatcher = Dp_NotStarted | Dp_Top | Dp_Receiving | Dp_Sending broadcasting | Dp_Stopped

datatype join_handle = JoinHandle

record ('q, 'c) broker =
  bk_room :: "'q room"
  bk_registry :: user_registry
  bk_dispatcher_handle :: "join_handle option"
  bk_shutdown_flag :: bool
  bk_task :: dispatcher
  bk_channels :: "chan_id \<Rightarrow> 'c"

definition broker_new :: "'q room \<Rightarrow> user_registry \<Rightarrow> (chan_id \<Rightarrow> 'c) \<Rightarrow> ('q, 'c) broker" where
  "broker_new room registry chans =
     \<lparr> bk_room = room, bk_registry = registry, bk_dispatcher_handle = None,
       bk_shutdown_flag = False, bk_task = Dp_NotStarted, bk_channels = chans \<rparr>"

text \<open>The broker of the process, made on first use over the room and the registry of the process.\<close>

definition get_broker :: "('q, 'c, 'g) libs \<Rightarrow> rstr \<Rightarrow> rstr \<Rightarrow> (chan_id \<Rightarrow> 'c) \<Rightarrow> ('q, 'c) broker" where
  "get_broker L uuid now chans = broker_new (get_room (lb_cb L) uuid now) get_registry chans"

definition broker_registry :: "('q, 'c) broker \<Rightarrow> user_registry" where
  "broker_registry b = bk_registry b"

definition forward_to_room ::
    "('q, 'c, 'g) libs \<Rightarrow> ('q, 'c) broker \<Rightarrow> byte list \<Rightarrow> (room_error, unit) result \<times> ('q, 'c) broker" where
  "forward_to_room L b encoded_msg =
     (case queue_send_timeout (lb_cb L) (bk_room b) (one_to_one_from encoded_msg)
             BACKBONE_DEFAULT_SEND_TIMEOUT of
        (r, room') \<Rightarrow> (r, b\<lparr>bk_room := room'\<rparr>))"

text \<open>\<open>join_ok\<close>: the blocking task ended without a panic.\<close>

record dispatch_env =
  de_join_ok :: bool
  de_locked :: bool
  de_pick :: nat
  de_elapsed :: bool

definition recv_with_timeout ::
    "('q, 'c, 'g) libs \<Rightarrow> bool \<Rightarrow> 'q room \<Rightarrow> (recv_error, one_to_many) result \<times> 'q room" where
  "recv_with_timeout L join_ok room =
     (if join_ok then queue_recv_timeout (lb_cb L) room BACKBONE_DEFAULT_RECV_TIMEOUT
      else (Inl RcvE_Disconnected, room))"

text \<open>The receive has returned: the message is broadcast to everybody. A broadcast that does not get the
  lock ends at once, and \<open>unwrap_or(0)\<close> drops its error.\<close>

definition dispatch_received ::
    "('q, 'c, 'g) libs \<Rightarrow> dispatch_env \<Rightarrow> ('q, 'c) broker \<Rightarrow> ('q, 'c) broker" where
  "dispatch_received L e b =
     (case recv_with_timeout L (de_join_ok e) (bk_room b) of
        (Inr msg, room') \<Rightarrow>
          b\<lparr>bk_room := room',
            bk_task := (case broadcast (de_locked e) (bk_registry b) (one_to_many_deref msg) None of
                          Inr bc \<Rightarrow> Dp_Sending bc
                        | Inl _ \<Rightarrow> Dp_Top)\<rparr>
      | (Inl RcvE_Timeout, room') \<Rightarrow> b\<lparr>bk_room := room', bk_task := Dp_Top\<rparr>
      | (Inl RcvE_Disconnected, room') \<Rightarrow> b\<lparr>bk_room := room', bk_task := Dp_Stopped\<rparr>)"

definition dispatch_sending ::
    "('q, 'c, 'g) libs \<Rightarrow> dispatch_env \<Rightarrow> broadcasting \<Rightarrow> ('q, 'c) broker \<Rightarrow> ('q, 'c) broker" where
  "dispatch_sending L e bc b =
     (case broadcast_poll (lb_mp L) (de_pick e) (de_elapsed e) (bk_channels b) bc of
        (p, bc', chans') \<Rightarrow>
          b\<lparr>bk_channels := chans',
            bk_task := (case p of Ready sent \<Rightarrow> Dp_Top | Pending \<Rightarrow> Dp_Sending bc')\<rparr>)"

definition dispatcher_poll ::
    "('q, 'c, 'g) libs \<Rightarrow> dispatch_env \<Rightarrow> ('q, 'c) broker \<Rightarrow> ('q, 'c) broker" where
  "dispatcher_poll L e b =
     (case bk_task b of
        Dp_Top \<Rightarrow> b\<lparr>bk_task := (if bk_shutdown_flag b then Dp_Stopped else Dp_Receiving)\<rparr>
      | Dp_Receiving \<Rightarrow> dispatch_received L e b
      | Dp_Sending bc \<Rightarrow> dispatch_sending L e bc b
      | Dp_NotStarted \<Rightarrow> b
      | Dp_Stopped \<Rightarrow> b)"

fun dispatcher_loop ::
    "('q, 'c, 'g) libs \<Rightarrow> dispatch_env list \<Rightarrow> ('q, 'c) broker \<Rightarrow> ('q, 'c) broker" where
  "dispatcher_loop L [] b = b"
| "dispatcher_loop L (e # es) b = dispatcher_loop L es (dispatcher_poll L e b)"

definition start_dispatcher :: "('q, 'c) broker \<Rightarrow> ('q, 'c) broker" where
  "start_dispatcher b = b\<lparr>bk_dispatcher_handle := Some JoinHandle, bk_task := Dp_Top\<rparr>"

text \<open>\<open>shutdown\<close> up to its wait for the task, and when this wait is over.\<close>

definition shutdown :: "('q, 'c) broker \<Rightarrow> join_handle option \<times> ('q, 'c) broker" where
  "shutdown b =
     (bk_dispatcher_handle b, b\<lparr>bk_shutdown_flag := True, bk_dispatcher_handle := None\<rparr>)"

definition shutdown_returns :: "join_handle option \<Rightarrow> ('q, 'c) broker \<Rightarrow> bool" where
  "shutdown_returns handle b \<longleftrightarrow> handle = None \<or> bk_task b = Dp_Stopped"

text \<open>The channels of a user as a message queue, and the invariants of the broker. \<open>senders_ok\<close>:
  no channel is registered twice.\<close>

definition chan_send ::
    "('c, 'm) mpsc \<Rightarrow> 'c \<Rightarrow> 'm \<Rightarrow> nat \<Rightarrow> (send_outcome poll, unit) result \<times> 'c" where
  "chan_send mp c m t =
     (case send_timeout mp True c m of (r, c') \<Rightarrow> (if r = Ready Send_Ok then Inr () else Inl r, c'))"

definition chan_recv :: "('c, 'm) mpsc \<Rightarrow> 'c \<Rightarrow> nat \<Rightarrow> (unit, 'm) result \<times> 'c" where
  "chan_recv mp c t =
     (case mp_try_recv mp c of (r, c') \<Rightarrow> (case r of Some m \<Rightarrow> Inr m | None \<Rightarrow> Inl (), c'))"

definition chan_ok :: "('c, 'm) mpsc \<Rightarrow> 'c \<Rightarrow> bool" where
  "chan_ok mp c \<longleftrightarrow> \<not> mp_closed mp c \<and> length (mp_messages mp c) \<le> mp_capacity mp c"

definition senders_ok :: "user_registry \<Rightarrow> bool" where
  "senders_ok users \<longleftrightarrow> distinct (map (\<lambda>(k, u). u_tx u) users)"

definition registered :: "('q, 'c) broker \<Rightarrow> chan_id set" where
  "registered b = set (map (\<lambda>(k, u). u_tx u) (bk_registry b))"

definition queued :: "('q, 'c, 'g) libs \<Rightarrow> ('q, 'c) broker \<Rightarrow> byte list list" where
  "queued L b = room_messages (lb_cb L) (bk_room b)"

definition inbox :: "('q, 'c, 'g) libs \<Rightarrow> ('q, 'c) broker \<Rightarrow> chan_id \<Rightarrow> byte list list" where
  "inbox L b tx = mp_messages (lb_mp L) (bk_channels b tx)"

text \<open>The message that the dispatcher is sending, with those it still has to be sent to, and what of it
  is under way to one user.\<close>

definition current :: "('q, 'c) broker \<Rightarrow> (byte list \<times> chan_id set) option" where
  "current b =
     (case bk_task b of Dp_Sending bc \<Rightarrow> Some (bc_message bc, set (bc_senders bc)) | _ \<Rightarrow> None)"

definition pending_for :: "('q, 'c) broker \<Rightarrow> chan_id \<Rightarrow> byte list list" where
  "pending_for b tx = (case current b of Some (m, A) \<Rightarrow> if tx \<in> A then [m] else [] | None \<Rightarrow> [])"

definition task_ok :: "dispatcher \<Rightarrow> bool" where
  "task_ok t \<longleftrightarrow> (case t of Dp_Sending bc \<Rightarrow> distinct (bc_senders bc) | _ \<Rightarrow> True)"

definition broker_ok :: "('q, 'c, 'g) libs \<Rightarrow> ('q, 'c) broker \<Rightarrow> bool" where
  "broker_ok L b \<longleftrightarrow> room_ok (lb_cb L) (bk_room b) \<and> senders_ok (bk_registry b)
     \<and> registry_ok (lb_unicode L) (lb_sz L) (bk_registry b) \<and> task_ok (bk_task b)"

text \<open>The environment of a poll in which nothing goes wrong, and one in which moreover the time limit has
  passed.\<close>

definition env_ok :: "dispatch_env \<Rightarrow> bool" where
  "env_ok e \<longleftrightarrow> de_join_ok e \<and> de_locked e"

definition timed_env :: "dispatch_env \<Rightarrow> bool" where
  "timed_env e \<longleftrightarrow> de_join_ok e \<and> de_elapsed e"

text \<open>Bounds on the polls until the dispatcher has worked off the room, and until it stops once the flag
  is set.\<close>

definition work :: "('q, 'c, 'g) libs \<Rightarrow> ('q, 'c) broker \<Rightarrow> nat" where
  "work L b =
     (let n = length (queued L b) * (max 1 (length (bk_registry b)) + 2) in
      case bk_task b of
        Dp_Sending bc \<Rightarrow> n + max 1 (length (bc_senders bc))
      | Dp_Receiving \<Rightarrow> n - 1
      | _ \<Rightarrow> n)"

definition stop_work :: "('q, 'c) broker \<Rightarrow> nat" where
  "stop_work b =
     (case bk_task b of
        Dp_Top \<Rightarrow> 1
      | Dp_Receiving \<Rightarrow> length (bk_registry b) + 3
      | Dp_Sending bc \<Rightarrow> length (bc_senders bc) + 2
      | _ \<Rightarrow> 0)"

definition ref_libs ::
    "(one_to_many fifo, byte list mfifo, gcra) libs" where
  "ref_libs = \<lparr> lb_unicode = ascii_unicode, lb_sz = ref_sz, lb_cb = ref_crossbeam,
                lb_mp = ref_mpsc, lb_gov = ref_governor \<rparr>"

text \<open>A broker for concrete runs: two users on channels 0 and 1, one message in the room, and a dispatcher
  that waits for it.\<close>

definition example_broker :: "(one_to_many fifo, byte list mfifo) broker" where
  "example_broker =
     (snd (forward_to_room ref_libs
       (broker_new (room_new ref_crossbeam [] [] 8)
          [(NormalizedKey [0x61], user_new (Username [0x61]) 0),
           (NormalizedKey [0x62], user_new (Username [0x62]) 1)]
          (\<lambda>tx. mp_channel ref_mpsc 2)) [7]))\<lparr>bk_task := Dp_Receiving\<rparr>"

definition smooth :: dispatch_env where
  "smooth = \<lparr> de_join_ok = True, de_locked = True, de_pick = 0, de_elapsed = True \<rparr>"

subsection \<open>Laws of the crates, from the bundle\<close>

declare get_room_def [simp] get_registry_def [simp] get_broker_def [simp] broker_registry_def [simp]

lemma current_upd [simp]:
  "current (b\<lparr>bk_room := r\<rparr>) = current b" "current (b\<lparr>bk_registry := u\<rparr>) = current b"
  "current (b\<lparr>bk_channels := c\<rparr>) = current b" "current (b\<lparr>bk_shutdown_flag := f\<rparr>) = current b"
  "current (b\<lparr>bk_dispatcher_handle := h\<rparr>) = current b"
  by (simp_all add: current_def)

lemma libs_okD [simp]:
  "libs_ok L \<Longrightarrow> sz_ok (lb_sz L)" "libs_ok L \<Longrightarrow> crossbeam_ok (lb_cb L)"
  "libs_ok L \<Longrightarrow> mpsc_ok (lb_mp L)" "libs_ok L \<Longrightarrow> governor_ok (lb_gov L)"
  by (simp_all add: libs_ok_def)

lemma ref_libs_ok: "libs_ok ref_libs"
  by (simp add: libs_ok_def ref_libs_def ref_sz_ok ref_crossbeam_ok ref_mpsc_ok ref_governor_ok)

text \<open>A channel of a user meets the contract of a message queue.\<close>

interpretation user_queue: message_queue mpsc_ok chan_ok mp_messages mp_capacity chan_send chan_recv
proof (unfold_locales, goal_cases)
  case (1 L q)
  then show ?case by (simp add: chan_ok_def)
next
  case (2 L q m t)
  obtain r c where s: "send_timeout L True q m = (r, c)" by force
  from 2 show ?case using send_timeout_law [OF 2(1) s] s
    by (auto simp: chan_send_def chan_ok_def mp_accepts_def mp_same_def)
next
  case (3 L q m t)
  obtain r c where s: "send_timeout L True q m = (r, c)" by force
  from 3 show ?case using send_timeout_law [OF 3(1) s] s
    by (auto simp: chan_send_def chan_ok_def mp_accepts_def mp_same_def)
next
  case (4 L q m ms t)
  obtain r c where s: "mp_try_recv L q = (r, c)" by force
  from 4 show ?case using mpsc_try_recv [OF 4(1) s] s
    by (auto simp: chan_recv_def chan_ok_def mp_accepts_def mp_same_def)
next
  case (5 L q t)
  obtain r c where s: "mp_try_recv L q = (r, c)" by force
  from 5 show ?case using mpsc_try_recv [OF 5(1) s] s
    by (auto simp: chan_recv_def chan_ok_def mp_accepts_def mp_same_def)
qed

subsection \<open>The dispatcher\<close>

lemma forward_law:
  assumes "libs_ok L" "room_ok (lb_cb L) (bk_room b)" "forward_to_room L b bytes = (r, b')"
  shows "r = (if length (queued L b) < room_capacity (lb_cb L) (bk_room b) then Inr () else Inl RE_Timeout)"
    "queued L b' = queued L b
       @ (if length (queued L b) < room_capacity (lb_cb L) (bk_room b) then [bytes] else [])"
    "room_ok (lb_cb L) (bk_room b')"
    "room_capacity (lb_cb L) (bk_room b') = room_capacity (lb_cb L) (bk_room b)"
    "b' = b\<lparr>bk_room := bk_room b'\<rparr>"
proof -
  obtain room' where s: "room_send (lb_cb L) (bk_room b) bytes BACKBONE_DEFAULT_SEND_TIMEOUT = (r, room')"
    "b' = b\<lparr>bk_room := room'\<rparr>"
    using assms(3) by (auto simp: forward_to_room_def room_send_def split: prod.splits)
  note law = room_send_law [OF libs_okD(2) [OF assms(1)] assms(2) s(1)]
  show "r = (if length (queued L b) < room_capacity (lb_cb L) (bk_room b) then Inr () else Inl RE_Timeout)"
    "queued L b' = queued L b
       @ (if length (queued L b) < room_capacity (lb_cb L) (bk_room b) then [bytes] else [])"
    "room_ok (lb_cb L) (bk_room b')"
    "room_capacity (lb_cb L) (bk_room b') = room_capacity (lb_cb L) (bk_room b)"
    "b' = b\<lparr>bk_room := bk_room b'\<rparr>"
    using law by (simp_all add: s queued_def)
qed

lemma recv_law:
  assumes "libs_ok L" "room_ok (lb_cb L) (bk_room b)" "recv_with_timeout L True (bk_room b) = (r, room')"
  shows "map_sum id one_to_many_deref r = (case queued L b of m # ms \<Rightarrow> Inr m | [] \<Rightarrow> Inl RcvE_Timeout)"
    "room_messages (lb_cb L) room' = tl (queued L b)" "room_ok (lb_cb L) room'"
    "room_capacity (lb_cb L) room' = room_capacity (lb_cb L) (bk_room b)"
proof -
  have "room_recv (lb_cb L) (bk_room b) BACKBONE_DEFAULT_RECV_TIMEOUT = (map_sum id one_to_many_deref r, room')"
    using assms(3) by (cases r) (simp_all add: room_recv_def recv_with_timeout_def)
  from room_recv_law [OF libs_okD(2) [OF assms(1)] assms(2) this]
  show "map_sum id one_to_many_deref r = (case queued L b of m # ms \<Rightarrow> Inr m | [] \<Rightarrow> Inl RcvE_Timeout)"
    "room_messages (lb_cb L) room' = tl (queued L b)" "room_ok (lb_cb L) room'"
    "room_capacity (lb_cb L) room' = room_capacity (lb_cb L) (bk_room b)"
    by (simp_all add: queued_def)
qed

lemma senders_all: "broadcast_senders users None = map (\<lambda>(k, u). u_tx u) users"
  by (simp add: broadcast_senders_def) (auto simp: case_prod_beta)

text \<open>The receive: an empty room times out, and a message is taken off and its broadcast begins.\<close>

lemma received_cases:
  assumes "libs_ok L" "broker_ok L b" "de_join_ok e"
  obtains (empty) room' where "queued L b = []" "dispatch_received L e b = b\<lparr>bk_room := room', bk_task := Dp_Top\<rparr>"
      "room_messages (lb_cb L) room' = []" "room_ok (lb_cb L) room'"
      "room_capacity (lb_cb L) room' = room_capacity (lb_cb L) (bk_room b)"
    | (message) room' m ms where "queued L b = m # ms" "room_messages (lb_cb L) room' = ms" "room_ok (lb_cb L) room'"
      "room_capacity (lb_cb L) room' = room_capacity (lb_cb L) (bk_room b)"
      "dispatch_received L e b = b\<lparr>bk_room := room', bk_task := (if de_locked e
         then Dp_Sending \<lparr> bc_message = m, bc_senders = map (\<lambda>(k, u). u_tx u) (bk_registry b), bc_sent = 0 \<rparr> else Dp_Top)\<rparr>"
proof -
  obtain r room' where rv: "recv_with_timeout L True (bk_room b) = (r, room')" by force
  have "room_ok (lb_cb L) (bk_room b)" using assms(2) by (simp add: broker_ok_def)
  note law = recv_law [OF assms(1) this rv]
  show thesis
  proof (cases "queued L b")
    case Nil
    then have "r = Inl RcvE_Timeout" using law(1) by (cases r) simp_all
    with Nil that(1) [of room'] law(2-) rv assms(3) show thesis by (simp add: dispatch_received_def)
  next
    case (Cons m ms)
    then obtain x where "r = Inr x" "one_to_many_deref x = m" using law(1) by (cases r) auto
    with Cons that(2) [of m ms room'] law(2-) rv assms(3) show thesis
      by (simp add: dispatch_received_def broadcast_def senders_all)
  qed
qed

text \<open>What a poll of the dispatcher leaves alone.\<close>

lemma dispatcher_poll_keeps:
  assumes "libs_ok L" "broker_ok L b" "de_join_ok e"
  shows "broker_ok L (dispatcher_poll L e b)"
    "mp_same (lb_mp L) (bk_channels b tx) (bk_channels (dispatcher_poll L e b) tx)"
    "room_capacity (lb_cb L) (bk_room (dispatcher_poll L e b)) = room_capacity (lb_cb L) (bk_room b)"
    "bk_registry (dispatcher_poll L e b) = bk_registry b" "registered (dispatcher_poll L e b) = registered b"
    "bk_shutdown_flag (dispatcher_poll L e b) = bk_shutdown_flag b"
    "bk_dispatcher_handle (dispatcher_poll L e b) = bk_dispatcher_handle b"
proof -
  let ?b' = "dispatcher_poll L e b"
  have "broker_ok L ?b' \<and> mp_same (lb_mp L) (bk_channels b tx) (bk_channels ?b' tx)
    \<and> room_capacity (lb_cb L) (bk_room ?b') = room_capacity (lb_cb L) (bk_room b)
    \<and> ?b' = b\<lparr>bk_room := bk_room ?b', bk_channels := bk_channels ?b', bk_task := bk_task ?b'\<rparr>"
  proof (cases "bk_task b")
    case Dp_Receiving
    then have b': "?b' = dispatch_received L e b" by (simp add: dispatcher_poll_def)
    from assms(2) show ?thesis
      by (rule_tac received_cases [OF assms]) (simp_all add: b' broker_ok_def task_ok_def senders_ok_def)
  next
    case (Dp_Sending bc)
    obtain p bc' chans' where s: "broadcast_poll (lb_mp L) (de_pick e) (de_elapsed e) (bk_channels b) bc = (p, bc', chans')"
      by (metis prod_cases3)
    then have b': "?b' = b\<lparr>bk_channels := chans', bk_task := (case p of Ready sent \<Rightarrow> Dp_Top | Pending \<Rightarrow> Dp_Sending bc')\<rparr>"
      using Dp_Sending by (simp add: dispatcher_poll_def dispatch_sending_def)
    have d: "distinct (bc_senders bc)" using assms(2) Dp_Sending by (simp add: broker_ok_def task_ok_def)
    have "mp_same (lb_mp L) (bk_channels b tx) (chans' tx) \<and> distinct (bc_senders bc')"
      by (rule broadcast_poll_cases [OF libs_okD(3) [OF assms(1)] d s]) (simp_all add: d)
    with assms(2) show ?thesis by (simp add: b' broker_ok_def task_ok_def split: poll.split)
  qed (use assms(2) in \<open>simp_all add: dispatcher_poll_def broker_ok_def task_ok_def\<close>)
  note * = this
  from * show "broker_ok L ?b'" "mp_same (lb_mp L) (bk_channels b tx) (bk_channels ?b' tx)"
    "room_capacity (lb_cb L) (bk_room ?b') = room_capacity (lb_cb L) (bk_room b)" by blast+
  from * have eq: "?b' = b\<lparr>bk_room := bk_room ?b', bk_channels := bk_channels ?b', bk_task := bk_task ?b'\<rparr>" by blast
  show "bk_registry ?b' = bk_registry b" "registered ?b' = registered b"
    "bk_shutdown_flag ?b' = bk_shutdown_flag b" "bk_dispatcher_handle ?b' = bk_dispatcher_handle b"
    by (subst eq, simp add: registered_def)+
qed

lemma dispatcher_started:
  "bk_task b \<noteq> Dp_NotStarted \<Longrightarrow> bk_task (dispatcher_poll L e b) \<noteq> Dp_NotStarted"
  by (auto simp: dispatcher_poll_def dispatch_received_def dispatch_sending_def
      split: dispatcher.splits prod.splits sum.splits recv_error.splits poll.splits if_splits)

text \<open>What it does: nothing that can be seen; the end of a broadcast; a message taken off the room, for all
  registered users or, without the lock, for nobody; one send finished, successfully if the channel
  has space.\<close>

lemma dispatcher_poll_cases:
  assumes "libs_ok L" "broker_ok L b" "de_join_ok e"
  obtains (rest) "current (dispatcher_poll L e b) = current b" "queued L (dispatcher_poll L e b) = queued L b"
      "inbox L (dispatcher_poll L e b) = inbox L b"
    | (over) m where "current b = Some (m, {})" "current (dispatcher_poll L e b) = None"
      "queued L (dispatcher_poll L e b) = queued L b" "inbox L (dispatcher_poll L e b) = inbox L b"
    | (fetch) m ms where "bk_task b = Dp_Receiving" "current b = None" "queued L b = m # ms" "queued L (dispatcher_poll L e b) = ms"
      "inbox L (dispatcher_poll L e b) = inbox L b"
      "current (dispatcher_poll L e b) = (if de_locked e then Some (m, registered b) else None)"
    | (send) m A tx where "current b = Some (m, A)" "tx \<in> A" "queued L (dispatcher_poll L e b) = queued L b"
      "inbox L (dispatcher_poll L e b)
         = (\<lambda>t. inbox L b t @ (if t = tx \<and> mp_accepts (lb_mp L) (bk_channels b tx) then [m] else []))"
      "current (dispatcher_poll L e b) = (if A = {tx} then None else Some (m, A - {tx}))"
proof (cases "bk_task b")
  case Dp_Receiving
  then have b': "dispatcher_poll L e b = dispatch_received L e b" by (simp add: dispatcher_poll_def)
  show thesis
  proof (rule received_cases [OF assms], goal_cases)
    case (1 room')
    show thesis by (rule rest) (simp_all add: b' 1 Dp_Receiving current_def queued_def inbox_def [abs_def] flip: 1(1))
  next
    case (2 room' m ms)
    show thesis
      by (rule fetch [of m ms]) (simp_all add: b' 2 Dp_Receiving current_def queued_def inbox_def [abs_def] registered_def flip: 2(1))
  qed
next
  case (Dp_Sending bc)
  obtain p bc' chans' where s: "broadcast_poll (lb_mp L) (de_pick e) (de_elapsed e) (bk_channels b) bc = (p, bc', chans')"
    by (metis prod_cases3)
  then have b': "dispatcher_poll L e b = b\<lparr>bk_channels := chans', bk_task := (case p of Ready sent \<Rightarrow> Dp_Top | Pending \<Rightarrow> Dp_Sending bc')\<rparr>"
    using Dp_Sending by (simp add: dispatcher_poll_def dispatch_sending_def)
  have d: "distinct (bc_senders bc)" using assms(2) Dp_Sending by (simp add: broker_ok_def task_ok_def)
  show thesis
  proof (rule broadcast_poll_cases [OF libs_okD(3) [OF assms(1)] d s], goal_cases)
    case 1
    show thesis by (rule over [of "bc_message bc"]) (simp_all add: b' 1 Dp_Sending current_def queued_def inbox_def [abs_def])
  next
    case (2 tx)
    show thesis by (rule rest) (simp_all add: b' 2 Dp_Sending current_def queued_def inbox_def [abs_def])
  next
    case (3 tx)
    have "bc_senders bc' = [] \<longleftrightarrow> set (bc_senders bc) = {tx}" using 3(1,3) by (metis Diff_cancel insert_Diff set_empty)
    then show thesis
      by (intro send [of "bc_message bc" "set (bc_senders bc)" tx])
        (simp_all add: b' 3 Dp_Sending current_def queued_def inbox_def [abs_def] fun_eq_iff)
  qed
qed (rule rest; simp add: dispatcher_poll_def current_def queued_def inbox_def [abs_def])+

subsection \<open>Runs of the dispatcher\<close>

lemma loop_keeps:
  assumes "libs_ok L" "broker_ok L b" "list_all de_join_ok es"
  shows "broker_ok L (dispatcher_loop L es b) \<and> registered (dispatcher_loop L es b) = registered b
    \<and> bk_registry (dispatcher_loop L es b) = bk_registry b
    \<and> mp_same (lb_mp L) (bk_channels b tx) (bk_channels (dispatcher_loop L es b) tx)"
  using assms(2,3)
proof (induction es arbitrary: b)
  case (Cons e es)
  note k = dispatcher_poll_keeps [OF assms(1) Cons.prems(1), of e]
  from Cons.IH [of "dispatcher_poll L e b"] Cons.prems k(1,4,5) mp_same_trans [OF k(2)] show ?case by auto
qed simp

lemma loop_order:
  assumes "libs_ok L" "broker_ok L b" "list_all de_join_ok es"
  shows "\<exists>n ds. queued L (dispatcher_loop L es b) = drop n (queued L b)
    \<and> inbox L (dispatcher_loop L es b) tx = inbox L b tx @ ds
    \<and> subseq (ds @ pending_for (dispatcher_loop L es b) tx) (pending_for b tx @ take n (queued L b))
    \<and> (tx \<notin> registered b \<longrightarrow> pending_for b tx = [] \<longrightarrow> ds = [])"
  using assms(2,3)
proof (induction es arbitrary: b)
  case Nil
  show ?case by (intro exI [of _ 0] exI [of _ "[]"]) simp
next
  case (Cons e es)
  let ?b = "dispatcher_poll L e b"
  have j: "de_join_ok e" using Cons.prems(2) by simp
  note k = dispatcher_poll_keeps [OF assms(1) Cons.prems(1) j]
  from Cons.IH [OF k(1)] Cons.prems(2)
  obtain n ds where ih: "queued L (dispatcher_loop L es ?b) = drop n (queued L ?b)"
    "inbox L (dispatcher_loop L es ?b) tx = inbox L ?b tx @ ds"
    "subseq (ds @ pending_for (dispatcher_loop L es ?b) tx) (pending_for ?b tx @ take n (queued L ?b))"
    "tx \<notin> registered b \<Longrightarrow> pending_for ?b tx = [] \<Longrightarrow> ds = []"
    using k(5) by auto
  show ?case
  proof (rule dispatcher_poll_cases [OF assms(1) Cons.prems(1) j], goal_cases)
    case 1
    with ih show ?case by (intro exI [of _ n] exI [of _ ds]) (simp add: pending_for_def)
  next
    case (2 m)
    with ih show ?case by (intro exI [of _ n] exI [of _ ds]) (simp add: pending_for_def)
  next
    case (3 m ms)
    have "subseq (pending_for ?b tx @ take n ms) (m # take n ms)" using 3(6) by (auto simp: pending_for_def)
    from subseq_order.trans [OF ih(3) [unfolded 3(4)] this]
    have "subseq (ds @ pending_for (dispatcher_loop L es ?b) tx) (m # take n ms)" .
    moreover have "pending_for ?b tx = []" if "tx \<notin> registered b" using 3(6) that by (simp add: pending_for_def)
    ultimately show ?case using ih 3 by (intro exI [of _ "Suc n"] exI [of _ ds]) (simp add: pending_for_def)
  next
    case (4 m A t)
    let ?x = "if tx = t \<and> mp_accepts (lb_mp L) (bk_channels b t) then [m] else []"
    have p: "pending_for b tx = (if tx = t \<or> tx \<in> A - {t} then [m] else [])" "pending_for ?b tx = (if tx \<in> A - {t} then [m] else [])"
      using 4(1,2,5) by (auto simp: pending_for_def)
    have "subseq (?x @ pending_for ?b tx @ take n (queued L b)) (pending_for b tx @ take n (queued L b))"
      using p by auto
    from subseq_order.trans [OF subseq_append' [THEN iffD2, OF ih(3) [unfolded 4(3)], of ?x] this]
    have "subseq ((?x @ ds) @ pending_for (dispatcher_loop L es ?b) tx) (pending_for b tx @ take n (queued L b))"
      by simp
    with ih 4(3,4) p show ?case by (intro exI [of _ n] exI [of _ "?x @ ds"]) auto
  qed
qed

text \<open>With the lock obtained and enough space, nothing on the way to a user is lost, duplicated or
  reordered.\<close>

lemma loop_conserves:
  assumes "libs_ok L" "broker_ok L b" "list_all env_ok es" "tx \<in> registered b"
    and "\<not> mp_closed (lb_mp L) (bk_channels b tx)"
    and "length (inbox L b tx @ pending_for b tx @ queued L b) \<le> mp_capacity (lb_mp L) (bk_channels b tx)"
  shows "inbox L (dispatcher_loop L es b) tx @ pending_for (dispatcher_loop L es b) tx @ queued L (dispatcher_loop L es b)
    = inbox L b tx @ pending_for b tx @ queued L b"
  using assms(2-)
proof (induction es arbitrary: b)
  case (Cons e es)
  let ?b = "dispatcher_poll L e b"
  have j: "de_join_ok e" "de_locked e" using Cons.prems(2) by (simp_all add: env_ok_def)
  note k = dispatcher_poll_keeps [OF assms(1) Cons.prems(1) j(1)]
  have eq: "inbox L ?b tx @ pending_for ?b tx @ queued L ?b = inbox L b tx @ pending_for b tx @ queued L b"
  proof (rule dispatcher_poll_cases [OF assms(1) Cons.prems(1) j(1)], goal_cases)
    case (3 m ms)
    with j(2) Cons.prems(3) show ?case by (simp add: pending_for_def)
  next
    case (4 m A t)
    have "mp_accepts (lb_mp L) (bk_channels b tx)" if "t = tx"
      using Cons.prems(4,5) 4(1,2) that by (simp add: mp_accepts_def inbox_def pending_for_def)
    with 4 show ?case by (auto simp: pending_for_def)
  qed (simp_all add: pending_for_def)
  have "mp_capacity (lb_mp L) (bk_channels ?b tx) = mp_capacity (lb_mp L) (bk_channels b tx)"
    "mp_closed (lb_mp L) (bk_channels ?b tx) = mp_closed (lb_mp L) (bk_channels b tx)"
    using k(2) [of tx] by (simp_all add: mp_same_def)
  with Cons.IH [OF k(1)] Cons.prems k(5) eq show ?case by simp
qed simp

text \<open>One send of a broadcast whose time limit has passed.\<close>

lemma sending_progress:
  assumes "libs_ok L" "broker_ok L b" "de_elapsed e" "bk_task b = Dp_Sending bc"
  obtains "bk_task (dispatcher_poll L e b) = Dp_Top"
    | bc' where "bk_task (dispatcher_poll L e b) = Dp_Sending bc'" "bc_senders bc' \<noteq> []"
      "length (bc_senders bc) = Suc (length (bc_senders bc'))"
proof -
  obtain p bc' chans' where s: "broadcast_poll (lb_mp L) (de_pick e) True (bk_channels b) bc = (p, bc', chans')"
    by (metis prod_cases3)
  then have t: "bk_task (dispatcher_poll L e b) = (case p of Ready sent \<Rightarrow> Dp_Top | Pending \<Rightarrow> Dp_Sending bc')"
    using assms(3,4) by (simp add: dispatcher_poll_def dispatch_sending_def)
  have d: "distinct (bc_senders bc)" using assms(2,4) by (simp add: broker_ok_def task_ok_def)
  show thesis
  proof (rule broadcast_poll_cases [OF libs_okD(3) [OF assms(1)] d s], goal_cases)
    case (3 tx)
    with that t show thesis by (cases "bc_senders bc' = []") simp_all
  qed (use that t in simp_all)
qed

lemma sending_queued: "bk_task b = Dp_Sending bc \<Longrightarrow> queued L (dispatcher_poll L e b) = queued L b"
  by (simp add: dispatcher_poll_def dispatch_sending_def queued_def split: prod.split)

lemma poll_progress:
  assumes "libs_ok L" "broker_ok L b" "timed_env e" "\<not> bk_shutdown_flag b" "bk_task b \<noteq> Dp_NotStarted" "bk_task b \<noteq> Dp_Stopped"
  shows "bk_task (dispatcher_poll L e b) \<noteq> Dp_NotStarted \<and> bk_task (dispatcher_poll L e b) \<noteq> Dp_Stopped
    \<and> (work L (dispatcher_poll L e b) < work L b
       \<or> queued L b = [] \<and> current b = None
         \<and> queued L (dispatcher_poll L e b) = [] \<and> current (dispatcher_poll L e b) = None)"
proof (cases "bk_task b")
  case Dp_Receiving
  then have b': "dispatcher_poll L e b = dispatch_received L e b" by (simp add: dispatcher_poll_def)
  have j: "de_join_ok e" using assms(3) by (simp add: timed_env_def)
  show ?thesis
    by (rule received_cases [OF assms(1,2) j]) (simp_all add: b' Dp_Receiving queued_def current_def work_def Let_def)
next
  case (Dp_Sending bc)
  have e: "de_join_ok e" "de_elapsed e" using assms(3) by (simp_all add: timed_env_def)
  note k = dispatcher_poll_keeps(4) [OF assms(1,2) e(1)]
  show ?thesis
    by (rule sending_progress [OF assms(1,2) e(2) Dp_Sending])
      (auto simp: work_def Let_def k Dp_Sending sending_queued [OF Dp_Sending])
qed (use assms(4-6) in \<open>auto simp: dispatcher_poll_def work_def queued_def current_def Let_def\<close>)

lemma loop_works_off:
  assumes "libs_ok L" "broker_ok L b" "list_all timed_env es" "\<not> bk_shutdown_flag b"
    and "bk_task b \<noteq> Dp_NotStarted" "bk_task b \<noteq> Dp_Stopped"
    and "work L b \<le> length es \<or> queued L b = [] \<and> current b = None"
  shows "queued L (dispatcher_loop L es b) = [] \<and> current (dispatcher_loop L es b) = None"
  using assms(2-)
proof (induction es arbitrary: b)
  case Nil
  then show ?case by (cases "queued L b") (auto simp: work_def current_def Let_def split: dispatcher.splits)
next
  case (Cons e es)
  let ?b = "dispatcher_poll L e b"
  have e: "timed_env e" "list_all timed_env es" using Cons.prems(2) by simp_all
  then have j: "de_join_ok e" by (simp add: timed_env_def)
  note k = dispatcher_poll_keeps [OF assms(1) Cons.prems(1) j]
  note p = poll_progress [OF assms(1) Cons.prems(1) e(1) Cons.prems(3-5)]
  have "work L ?b \<le> length es \<or> queued L ?b = [] \<and> current ?b = None"
    using p Cons.prems(6)
    by (elim disjE conjE) (use dispatcher_poll_cases [OF assms(1) Cons.prems(1) j] in force)+
  with Cons.IH [OF k(1) e(2)] k(6) p Cons.prems(3) show ?case by simp
qed

lemma loop_delivers:
  assumes "libs_ok L" "broker_ok L b" "\<not> bk_shutdown_flag b" "bk_task b \<noteq> Dp_NotStarted" "bk_task b \<noteq> Dp_Stopped"
    and "list_all env_ok es" "list_all de_elapsed es" "work L b \<le> length es"
    and "tx \<in> registered b" "\<not> mp_closed (lb_mp L) (bk_channels b tx)"
    and "length (inbox L b tx @ pending_for b tx @ queued L b) \<le> mp_capacity (lb_mp L) (bk_channels b tx)"
  shows "queued L (dispatcher_loop L es b) = []
    \<and> inbox L (dispatcher_loop L es b) tx = inbox L b tx @ pending_for b tx @ queued L b"
proof -
  have es: "list_all timed_env es" using assms(6,7) by (auto simp: list_all_iff env_ok_def timed_env_def)
  have "queued L (dispatcher_loop L es b) = [] \<and> current (dispatcher_loop L es b) = None"
    by (rule loop_works_off [OF assms(1,2) es assms(3-5)]) (use assms(8) in simp)
  with loop_conserves [OF assms(1,2,6,9-11)] show ?thesis by (simp add: pending_for_def)
qed

lemma stop_progress:
  assumes "libs_ok L" "broker_ok L b" "timed_env e" "bk_shutdown_flag b"
  shows "(stop_work (dispatcher_poll L e b) < stop_work b \<or> stop_work b = 0)
    \<and> (bk_task b \<noteq> Dp_NotStarted \<longrightarrow> bk_task (dispatcher_poll L e b) \<noteq> Dp_NotStarted)
    \<and> bk_task (dispatcher_poll L e b) \<noteq> Dp_Receiving
    \<and> queued L (dispatcher_poll L e b) = (if bk_task b = Dp_Receiving then tl (queued L b) else queued L b)"
proof -
  have e: "de_join_ok e" "de_elapsed e" using assms(3) by (simp_all add: timed_env_def)
  note k = dispatcher_poll_keeps(4) [OF assms(1,2) e(1)]
  show ?thesis
  proof (cases "bk_task b")
    case Dp_Receiving
    then have b': "dispatcher_poll L e b = dispatch_received L e b" by (simp add: dispatcher_poll_def)
    show ?thesis
      by (rule received_cases [OF assms(1,2) e(1)]) (simp_all add: b' Dp_Receiving queued_def stop_work_def)
  next
    case (Dp_Sending bc)
    show ?thesis
      by (rule sending_progress [OF assms(1,2) e(2) Dp_Sending])
        (simp_all add: stop_work_def k Dp_Sending sending_queued [OF Dp_Sending])
  qed (use assms(4) in \<open>simp_all add: dispatcher_poll_def stop_work_def queued_def\<close>)
qed

lemma loop_stops:
  assumes "libs_ok L" "broker_ok L b" "list_all timed_env es" "bk_shutdown_flag b" "bk_task b \<noteq> Dp_NotStarted"
    and "stop_work b \<le> length es"
  shows "bk_task (dispatcher_loop L es b) = Dp_Stopped
    \<and> queued L (dispatcher_loop L es b) = (if bk_task b = Dp_Receiving then tl (queued L b) else queued L b)"
  using assms(2-)
proof (induction es arbitrary: b)
  case Nil
  then show ?case by (auto simp: stop_work_def split: dispatcher.splits)
next
  case (Cons e es)
  have e: "timed_env e" "list_all timed_env es" using Cons.prems(2) by simp_all
  then have j: "de_join_ok e" by (simp add: timed_env_def)
  note k = dispatcher_poll_keeps [OF assms(1) Cons.prems(1) j]
  note p = stop_progress [OF assms(1) Cons.prems(1) e(1) Cons.prems(3)]
  have "stop_work (dispatcher_poll L e b) \<le> length es"
    using conjunct1 [OF p] Cons.prems(5) by (auto simp: stop_work_def dispatcher_poll_def split: dispatcher.splits if_splits)
  with Cons.IH [OF k(1) e(2)] k(6) p Cons.prems(3,4) show ?case by simp
qed

subsection \<open>Properties of the broker\<close>

lemma example_broker_eq:
  "example_broker = (broker_new
     \<lparr> rm_id = [], rm_created_at = [], rm_sender = rwlock_new (Some ()),
       rm_chan = \<lparr> fifo_buf = [OneToMany [7]], fifo_cap = 8, fifo_disc = False \<rparr> \<rparr>
     [(NormalizedKey [0x61], user_new (Username [0x61]) 0),
      (NormalizedKey [0x62], user_new (Username [0x62]) 1)]
     (\<lambda>tx. mp_channel ref_mpsc 2))\<lparr>bk_task := Dp_Receiving\<rparr>"
  by (simp add: example_broker_def forward_to_room_def queue_send_timeout_def room_send_timeout_def
      with_sender_def broker_new_def room_new_def ref_libs_def ref_crossbeam_def
      one_to_one_from_def one_to_many_from_def)

lemmas ascii_name_simps = lit_def is_scalar_def valid_name_def MAX_USERNAME_LEN_def
  is_valid_username_char_def is_alphanumeric_def is_ascii_char_def is_ascii_alphabetic_def
  is_ascii_uppercase_def is_ascii_lowercase_def ref_sz_fold to_ascii_lowercase_def
  trim_id is_whitespace_def valid_username_def

lemma example_registry_ok:
  "registry_ok ascii_unicode ref_sz
     [(NormalizedKey [0x61], user_new (Username [0x61]) 0), (NormalizedKey [0x62], user_new (Username [0x62]) 1)]"
proof -
  have "valid_username ascii_unicode (Username [0x61])" "valid_username ascii_unicode (Username [0x62])"
    by (simp_all add: ascii_name_simps)
  then show ?thesis using from_username_eq [OF ref_sz_ok, of ascii_unicode]
    by (simp add: registry_ok_def user_new_def ascii_name_simps)
qed

lemma example_broker_facts:
  "broker_ok ref_libs example_broker" "queued ref_libs example_broker = [[7]]"
  "inbox ref_libs example_broker tx = []" "registered example_broker = {0, 1}"
  "\<not> bk_shutdown_flag example_broker" "bk_task example_broker = Dp_Receiving" "current example_broker = None"
  "mp_capacity (lb_mp ref_libs) (bk_channels example_broker tx) = 2"
  "\<not> mp_closed (lb_mp ref_libs) (bk_channels example_broker tx)" "length (bk_registry example_broker) = 2"
  using example_registry_ok
  by (auto simp: example_broker_eq broker_new_def broker_ok_def room_ok_def senders_ok_def queued_def
      inbox_def registered_def room_messages_def ref_libs_def ref_crossbeam_def ref_mpsc_def
      one_to_many_deref_def user_new_def task_ok_def current_def)

lemma smooth_facts [simp]: "env_ok smooth" "timed_env smooth" "de_join_ok smooth"
  by (simp_all add: smooth_def env_ok_def timed_env_def)

text \<open>Property C15: the dispatcher is a total-order broadcast. Over any number of polls, with any outcome
  of the registry lock, any fill of the channels, and the sends of a broadcast finishing in any order,
  it takes the messages off the room in order and appends to each channel of a registered user a
  subsequence of them, after the one it was sending; so no user sees two messages in another order
  than the room has them and none twice. A channel that is not registered, and for which nothing is
  under way, receives nothing.\<close>

theorem dispatcher_total_order:
  assumes "libs_ok L" "broker_ok L b" "list_all de_join_ok es" "b' = dispatcher_loop L es b"
  shows "\<exists>n ds. queued L b' = drop n (queued L b) \<and> inbox L b' tx = inbox L b tx @ ds
    \<and> subseq (ds @ pending_for b' tx) (pending_for b tx @ take n (queued L b))
    \<and> (tx \<notin> registered b \<longrightarrow> pending_for b tx = [] \<longrightarrow> ds = [])"
  unfolding assms(4) by (rule loop_order [OF assms(1-3)])

lemma dispatcher_total_order_witness:
  "\<exists>ds. inbox ref_libs (dispatcher_loop ref_libs [smooth, smooth] example_broker) 1 = ds \<and> subseq ds [[7]]"
proof -
  obtain n ds where "inbox ref_libs (dispatcher_loop ref_libs [smooth, smooth] example_broker) 1 = ds"
    "subseq (ds @ pending_for (dispatcher_loop ref_libs [smooth, smooth] example_broker) 1) (take n [[7]])"
    using dispatcher_total_order [OF ref_libs_ok example_broker_facts(1), of "[smooth, smooth]" _ 1]
    by (auto simp: example_broker_facts pending_for_def simp del: dispatcher_loop.simps)
  moreover have "subseq (take n [[7 :: byte]]) [[7]]" by (cases n) simp_all
  moreover have "subseq ds (ds @ pending_for (dispatcher_loop ref_libs [smooth, smooth] example_broker) 1)"
    by (simp add: subseq_rev_drop_many)
  ultimately show ?thesis by (meson subseq_order.trans)
qed

text \<open>Property C16: every message is delivered. When the lock of the registry is obtained in time and the
  channel of a user is open with space for them, the dispatcher, polled \<open>work L b\<close> times or more, has
  worked off the room and put all messages into the channel of that user, in the order of the room;
  users whose channel is full only cost it the time limit of their sends.\<close>

theorem dispatcher_delivers_all:
  assumes "libs_ok L" "broker_ok L b" "\<not> bk_shutdown_flag b" "bk_task b \<noteq> Dp_NotStarted" "bk_task b \<noteq> Dp_Stopped"
    and "list_all env_ok es" "list_all de_elapsed es" "work L b \<le> length es"
    and "tx \<in> registered b" "\<not> mp_closed (lb_mp L) (bk_channels b tx)"
    and "length (inbox L b tx @ pending_for b tx @ queued L b) \<le> mp_capacity (lb_mp L) (bk_channels b tx)"
  shows "queued L (dispatcher_loop L es b) = []
    \<and> inbox L (dispatcher_loop L es b) tx = inbox L b tx @ pending_for b tx @ queued L b"
  by (rule loop_delivers [OF assms])

lemma dispatcher_delivers_all_witness:
  "inbox ref_libs (dispatcher_loop ref_libs (replicate 3 smooth) example_broker) 1 = [[7]]"
proof -
  have "work ref_libs example_broker = 3" by (simp add: work_def example_broker_facts)
  moreover have "list_all env_ok (replicate 3 smooth)" "list_all de_elapsed (replicate 3 smooth)"
    by (simp_all add: list_all_iff) (simp add: smooth_def)
  ultimately show ?thesis
    using dispatcher_delivers_all [OF ref_libs_ok example_broker_facts(1,5), of "replicate 3 smooth" 1]
    by (simp add: example_broker_facts pending_for_def del: dispatcher_loop.simps replicate.simps replicate_Suc)
qed

text \<open>Property C30: \<open>shutdown\<close> returns: once the flag is set the dispatcher, polled \<open>stop_work\<close> times or more, has
  stopped, whatever the channels do, and at most the receive that was under way takes one more message
  off the room.\<close>

theorem shutdown_stops:
  assumes "libs_ok L" "broker_ok L b" "bk_task b \<noteq> Dp_NotStarted" "shutdown b = (handle, b1)"
    and "list_all timed_env es" "stop_work b1 \<le> length es"
  shows "bk_shutdown_flag b1 \<and> bk_dispatcher_handle b1 = None \<and> shutdown_returns handle (dispatcher_loop L es b1)
    \<and> queued L (dispatcher_loop L es b1) = (if bk_task b = Dp_Receiving then tl (queued L b) else queued L b)"
proof -
  have b1: "b1 = b\<lparr>bk_shutdown_flag := True, bk_dispatcher_handle := None\<rparr>" using assms(4) by (simp add: shutdown_def)
  have ok1: "broker_ok L b1" "bk_task b1 = bk_task b" "bk_shutdown_flag b1" "queued L b1 = queued L b"
    using assms(2) by (simp_all add: b1 broker_ok_def queued_def)
  with loop_stops [OF assms(1) ok1(1) assms(5) ok1(3) _ assms(6)] assms(3) show ?thesis
    by (simp add: shutdown_returns_def b1)
qed

lemma shutdown_stops_witness:
  "queued ref_libs (dispatcher_loop ref_libs (replicate 5 smooth) (snd (shutdown example_broker))) = []"
proof -
  have "stop_work (snd (shutdown example_broker)) = 5"
    by (simp add: stop_work_def shutdown_def example_broker_facts)
  moreover have "list_all timed_env (replicate 5 smooth)" by (simp add: list_all_iff)
  ultimately show ?thesis
    using shutdown_stops [OF ref_libs_ok example_broker_facts(1) _ prod.collapse [symmetric], of "replicate 5 smooth"]
    by (simp add: example_broker_facts del: dispatcher_loop.simps replicate.simps replicate_Suc)
qed

text \<open>Property C32: when the lock of the registry is not obtained within its time limit, the
  message that was taken off the room reaches nobody: it is lost, and the loop goes on.\<close>

theorem lock_timeout_loses_message:
  assumes "libs_ok L" "broker_ok L b" "bk_task b = Dp_Receiving" "de_join_ok e" "\<not> de_locked e"
    and "queued L b = m # ms" "b' = dispatcher_poll L e b"
  shows "queued L b' = ms \<and> inbox L b' = inbox L b \<and> current b' = None \<and> bk_task b' = Dp_Top"
proof -
  have "b' = dispatch_received L e b" using assms(3,7) by (simp add: dispatcher_poll_def)
  then show ?thesis
    by (rule_tac received_cases [OF assms(1,2,4)])
      (use assms(5,6) in \<open>simp_all add: queued_def inbox_def [abs_def] current_def\<close>)
qed

lemma lock_timeout_loses_message_witness:
  "let b' = dispatcher_poll ref_libs (smooth\<lparr>de_locked := False\<rparr>) example_broker
   in queued ref_libs b' = [] \<and> inbox ref_libs b' 0 = [] \<and> inbox ref_libs b' 1 = []"
  using lock_timeout_loses_message [OF ref_libs_ok example_broker_facts(1,6) _ _ example_broker_facts(2),
      of "smooth\<lparr>de_locked := False\<rparr>"]
  by (simp add: example_broker_facts smooth_def)

end
