(* ===== verification/Tcp_Message.thy ===== *)
theory Tcp_Message
  imports Consts External_Libs "HOL-Library.Code_Target_Nat"
begin

text \<open>
  The wire protocol, \<open>src/common/src/tcp_message.rs\<close>: messages of the server and of the
  client, their pipe-delimited encoding and its decoder, with every error branch.

  The locale \<open>wire_codec\<close> is the contract of the traits \<open>WireEncode\<close> and \<open>WireDecode\<close>: which
  messages survive a round trip, and that the decoder returns only such messages. It is
  interpreted by both message types; the clients of the protocol use its consequences
  (a decoded message re-encodes to itself, the encoder is injective, a terminating newline
  does not matter).
\<close>

definition FIELD_SEPARATOR :: rstr where
  "FIELD_SEPARATOR = lit ''|''"

datatype server_message =
    SM_Ok
  | SM_Err (sm_reason: rstr)
  | SM_UserJoined (sm_joined: rstr)
  | SM_UserLeft (sm_left: rstr)
  | SM_Broadcast (sm_username: rstr) (sm_message: rstr)

datatype server_parse_error =
    SPE_Empty
  | SPE_InvalidUtf8
  | SPE_UnknownEventType rstr
  | SPE_MissingField rstr

definition server_parse_error_to_string :: "server_parse_error \<Rightarrow> rstr" where
  "server_parse_error_to_string e =
     (case e of
        SPE_Empty \<Rightarrow> lit ''empty message''
      | SPE_InvalidUtf8 \<Rightarrow> lit ''invalid utf-8''
      | SPE_UnknownEventType t \<Rightarrow> lit ''unknown event type: '' @ t
      | SPE_MissingField f \<Rightarrow> lit ''missing field: '' @ f)"

definition encode_server :: "server_message \<Rightarrow> byte list" where
  "encode_server m =
     utf8 (case m of
             SM_Ok \<Rightarrow> SERVER_EVENT_OK
           | SM_Err reason \<Rightarrow> join FIELD_SEPARATOR [SERVER_EVENT_ERR, reason]
           | SM_UserJoined username \<Rightarrow> join FIELD_SEPARATOR [SERVER_EVENT_USER_JOINED, username]
           | SM_UserLeft username \<Rightarrow> join FIELD_SEPARATOR [SERVER_EVENT_USER_LEFT, username]
           | SM_Broadcast username message \<Rightarrow>
               join FIELD_SEPARATOR [SERVER_EVENT_BROADCAST, username, message])"

text \<open>The first field and the text after the first separator; \<open>err\<close> is the error of the
  (never taken) branch in which the separator is not at a character boundary.\<close>

definition split_first :: "sz_lib \<Rightarrow> 'e \<Rightarrow> rstr \<Rightarrow> ('e, rstr \<times> rstr option) result" where
  "split_first sz err s =
     (case sz_find sz (utf8 s) (utf8 FIELD_SEPARATOR) of
        Some idx \<Rightarrow>
          (case str_get_to s idx of
             None \<Rightarrow> Inl err
           | Some f \<Rightarrow> Inr (f, str_get_from s (saturating_add idx 1)))
      | None \<Rightarrow> Inr (s, None))"

definition decode_broadcast :: "sz_lib \<Rightarrow> rstr \<Rightarrow> (server_parse_error, server_message) result" where
  "decode_broadcast sz rest =
     (case split_first sz (SPE_MissingField (lit ''username'')) rest of
        Inl e \<Rightarrow> Inl e
      | Inr (username, after) \<Rightarrow>
          Inr (SM_Broadcast username (case after of None \<Rightarrow> [] | Some message \<Rightarrow> message)))"

definition match_event ::
    "unicode \<Rightarrow> sz_lib \<Rightarrow> rstr \<Rightarrow> rstr option \<Rightarrow> (server_parse_error, server_message) result" where
  "match_event U sz event_type rest =
     (let up = str_to_uppercase U event_type in
      if up = SERVER_EVENT_OK then Inr SM_Ok
      else if up = SERVER_EVENT_ERR then
        (case rest of None \<Rightarrow> Inl (SPE_MissingField (lit ''reason''))
                    | Some reason \<Rightarrow> Inr (SM_Err reason))
      else if up = SERVER_EVENT_USER_JOINED then
        (case rest of None \<Rightarrow> Inl (SPE_MissingField (lit ''username''))
                    | Some username \<Rightarrow> Inr (SM_UserJoined username))
      else if up = SERVER_EVENT_USER_LEFT then
        (case rest of None \<Rightarrow> Inl (SPE_MissingField (lit ''username''))
                    | Some username \<Rightarrow> Inr (SM_UserLeft username))
      else if up = SERVER_EVENT_BROADCAST then
        (case rest of None \<Rightarrow> Inl (SPE_MissingField (lit ''username''))
                    | Some rest' \<Rightarrow> decode_broadcast sz rest')
      else Inl (SPE_UnknownEventType event_type))"

definition decode_server ::
    "unicode \<Rightarrow> sz_lib \<Rightarrow> byte list \<Rightarrow> (server_parse_error, server_message) result" where
  "decode_server U sz bytes =
     (case from_utf8 bytes of
        None \<Rightarrow> Inl SPE_InvalidUtf8
      | Some s \<Rightarrow>
        (let trimmed = trim s in
         if trimmed = [] then Inl SPE_Empty
         else case split_first sz SPE_Empty trimmed of
           Inl e \<Rightarrow> Inl e
         | Inr (event_type, rest) \<Rightarrow> match_event U sz event_type rest))"

text \<open>\<open>Display\<close>.\<close>

definition server_message_to_string :: "server_message \<Rightarrow> rstr" where
  "server_message_to_string m = from_utf8_lossy (encode_server m)"

datatype client_message =
    CM_Join (cm_username: rstr)
  | CM_Send (cm_message: rstr)
  | CM_Leave

datatype client_parse_error =
    CPE_Empty
  | CPE_InvalidUtf8
  | CPE_UnknownCommand rstr
  | CPE_MissingField rstr

definition client_parse_error_to_string :: "client_parse_error \<Rightarrow> rstr" where
  "client_parse_error_to_string e =
     (case e of
        CPE_Empty \<Rightarrow> lit ''empty message''
      | CPE_InvalidUtf8 \<Rightarrow> lit ''invalid utf-8''
      | CPE_UnknownCommand c \<Rightarrow> lit ''unknown command: '' @ c
      | CPE_MissingField f \<Rightarrow> lit ''missing field: '' @ f)"

definition encode_client :: "client_message \<Rightarrow> byte list" where
  "encode_client m =
     utf8 (case m of
             CM_Join username \<Rightarrow> join FIELD_SEPARATOR [CLIENT_JOIN_CMD, username]
           | CM_Send message \<Rightarrow> join FIELD_SEPARATOR [CLIENT_SEND_CMD, message]
           | CM_Leave \<Rightarrow> CLIENT_LEAVE_CMD)"

definition client_message_to_string :: "client_message \<Rightarrow> rstr" where
  "client_message_to_string m = from_utf8_lossy (encode_client m)"

definition match_command ::
    "unicode \<Rightarrow> rstr \<Rightarrow> rstr option \<Rightarrow> (client_parse_error, client_message) result" where
  "match_command U command rest =
     (let up = str_to_uppercase U command in
      if up = CLIENT_JOIN_CMD then
        (case rest of
           None \<Rightarrow> Inl (CPE_MissingField (lit ''username''))
         | Some username \<Rightarrow>
             if username = [] then Inl (CPE_MissingField (lit ''username''))
             else Inr (CM_Join username))
      else if up = CLIENT_SEND_CMD then
        (case rest of
           None \<Rightarrow> Inl (CPE_MissingField (lit ''message''))
         | Some message \<Rightarrow>
             if message = [] then Inl (CPE_MissingField (lit ''message''))
             else Inr (CM_Send message))
      else if up = CLIENT_LEAVE_CMD then Inr CM_Leave
      else Inl (CPE_UnknownCommand command))"

definition decode_client ::
    "unicode \<Rightarrow> sz_lib \<Rightarrow> byte list \<Rightarrow> (client_parse_error, client_message) result" where
  "decode_client U sz bytes =
     (case from_utf8 bytes of
        None \<Rightarrow> Inl CPE_InvalidUtf8
      | Some s \<Rightarrow>
        (let trimmed = trim s in
         if trimmed = [] then Inl CPE_Empty
         else case split_first sz CPE_Empty trimmed of
           Inl e \<Rightarrow> Inl e
         | Inr (command, rest) \<Rightarrow> match_command U command rest))"

subsection \<open>Vocabulary of the specification\<close>

text \<open>The separator as a character; the text before the first separator and after it; a
  text that trimming leaves alone at its end; the messages that survive a round trip.\<close>

definition bar :: rchar where "bar = 0x7C"
definition first_field :: "rstr \<Rightarrow> rstr" where
  "first_field s = takeWhile (\<lambda>c. c \<noteq> bar) s"
definition after_field :: "rstr \<Rightarrow> rstr option" where
  "after_field s = (case dropWhile (\<lambda>c. c \<noteq> bar) s of [] \<Rightarrow> None | _ # t \<Rightarrow> Some t)"
definition trimmed_end :: "rstr \<Rightarrow> bool" where
  "trimmed_end s \<longleftrightarrow> s = [] \<or> \<not> is_whitespace (last s)"

definition canonical_server :: "server_message \<Rightarrow> bool" where
  "canonical_server m \<longleftrightarrow>
     (case m of
        SM_Ok \<Rightarrow> True
      | SM_Err r \<Rightarrow> wf_str r \<and> trimmed_end r
      | SM_UserJoined u \<Rightarrow> wf_str u \<and> trimmed_end u
      | SM_UserLeft u \<Rightarrow> wf_str u \<and> trimmed_end u
      | SM_Broadcast u t \<Rightarrow> wf_str u \<and> bar \<notin> set u \<and> wf_str t \<and> trimmed_end t)"

definition canonical_client :: "client_message \<Rightarrow> bool" where
  "canonical_client m \<longleftrightarrow>
     (case m of
        CM_Join u \<Rightarrow> wf_str u \<and> u \<noteq> [] \<and> trimmed_end u
      | CM_Send t \<Rightarrow> wf_str t \<and> t \<noteq> [] \<and> trimmed_end t
      | CM_Leave \<Rightarrow> True)"

definition wire_word :: "rstr \<Rightarrow> bool" where
  "wire_word w \<longleftrightarrow> w \<noteq> [] \<and> is_ascii w \<and> bar \<notin> set w \<and> list_all (\<lambda>c. \<not> is_whitespace c) w"

definition newline :: byte where
  "newline = byte_of 0x0A"

inductive client_line :: "unicode \<Rightarrow> rstr \<Rightarrow> client_message \<Rightarrow> bool" for U where
  join_line: "bar \<notin> set cmd \<Longrightarrow> str_to_uppercase U cmd = CLIENT_JOIN_CMD \<Longrightarrow> u \<noteq> [] \<Longrightarrow>
    client_line U (cmd @ bar # u) (CM_Join u)"
| send_line: "bar \<notin> set cmd \<Longrightarrow> str_to_uppercase U cmd = CLIENT_SEND_CMD \<Longrightarrow> t \<noteq> [] \<Longrightarrow>
    client_line U (cmd @ bar # t) (CM_Send t)"
| leave_line: "bar \<notin> set cmd \<Longrightarrow> str_to_uppercase U cmd = CLIENT_LEAVE_CMD \<Longrightarrow>
    client_line U cmd CM_Leave"
| leave_rest: "bar \<notin> set cmd \<Longrightarrow> str_to_uppercase U cmd = CLIENT_LEAVE_CMD \<Longrightarrow>
    client_line U (cmd @ bar # r) CM_Leave"

inductive server_line :: "unicode \<Rightarrow> rstr \<Rightarrow> server_message \<Rightarrow> bool" for U where
  ok_line: "bar \<notin> set ev \<Longrightarrow> str_to_uppercase U ev = SERVER_EVENT_OK \<Longrightarrow> server_line U ev SM_Ok"
| ok_rest: "bar \<notin> set ev \<Longrightarrow> str_to_uppercase U ev = SERVER_EVENT_OK \<Longrightarrow>
    server_line U (ev @ bar # r) SM_Ok"
| err_line: "bar \<notin> set ev \<Longrightarrow> str_to_uppercase U ev = SERVER_EVENT_ERR \<Longrightarrow>
    server_line U (ev @ bar # r) (SM_Err r)"
| joined_line: "bar \<notin> set ev \<Longrightarrow> str_to_uppercase U ev = SERVER_EVENT_USER_JOINED \<Longrightarrow>
    server_line U (ev @ bar # u) (SM_UserJoined u)"
| left_line: "bar \<notin> set ev \<Longrightarrow> str_to_uppercase U ev = SERVER_EVENT_USER_LEFT \<Longrightarrow>
    server_line U (ev @ bar # u) (SM_UserLeft u)"
| broadcast_line: "bar \<notin> set ev \<Longrightarrow> str_to_uppercase U ev = SERVER_EVENT_BROADCAST \<Longrightarrow>
    bar \<notin> set u \<Longrightarrow> server_line U (ev @ bar # u @ bar # t) (SM_Broadcast u t)"
| broadcast_bare: "bar \<notin> set ev \<Longrightarrow> str_to_uppercase U ev = SERVER_EVENT_BROADCAST \<Longrightarrow>
    bar \<notin> set u \<Longrightarrow> server_line U (ev @ bar # u) (SM_Broadcast u [])"

inductive_cases client_lineE: "client_line U s m"
inductive_cases server_lineE: "server_line U s m"

subsection \<open>Searching and slicing\<close>

lemma FIELD_SEPARATOR_bar: "FIELD_SEPARATOR = [bar]"
  by (simp add: FIELD_SEPARATOR_def lit_def bar_def)

lemma utf8_bar [simp]: "utf8_char bar = [byte_of bar]"
  by (simp add: utf8_char_def bar_def)

lemma bar_scalar [simp]: "is_scalar bar" "\<not> is_whitespace bar"
  by (simp_all add: bar_def is_scalar_def is_whitespace_def)

lemma find_index_skip: "(\<forall>x \<in> set xs. \<not> P x) \<Longrightarrow> P y \<Longrightarrow> find_index P (xs @ y # ys) = Some (length xs)"
  by (induction xs) auto

lemma bar_bytes: "wf_str s \<Longrightarrow> byte_of bar \<in> set (utf8 s) \<longleftrightarrow> bar \<in> set s"
  by (simp add: ascii_byte_in_utf8 bar_def)

lemma split_first_at:
  assumes "sz_ok sz" "wf_str s" "bar \<notin> set s" "length (utf8 s) < usize_max"
  shows "split_first sz e (s @ bar # t) = Inr (s, Some t)"
proof -
  have "byte_of bar \<notin> set (utf8 s)" using assms by (simp add: bar_bytes)
  then have "sz_find sz (utf8 (s @ bar # t)) (utf8 FIELD_SEPARATOR) = Some (length (utf8 s))"
    using assms(1) by (auto simp: FIELD_SEPARATOR_bar lib_laws intro!: find_index_skip)
  moreover have "saturating_add (length (utf8 s)) 1 = length (utf8 (s @ [bar]))"
    using assms(4) by (simp add: saturating_add_def)
  moreover have "str_get_from ((s @ [bar]) @ t) (length (utf8 (s @ [bar]))) = Some t"
    by (rule str_get_from_utf8)
  ultimately show ?thesis by (simp add: split_first_def)
qed

lemma split_first_none:
  assumes "sz_ok sz" "wf_str s" "bar \<notin> set s"
  shows "split_first sz e s = Inr (s, None)"
proof -
  have "byte_of bar \<notin> set (utf8 s)" using assms by (simp add: bar_bytes)
  then have "find_index ((=) (byte_of bar)) (utf8 s) = None"
    by (auto simp: find_index_None)
  then show ?thesis using assms(1) by (simp add: split_first_def FIELD_SEPARATOR_bar lib_laws)
qed

lemma fields_at [simp]: "bar \<notin> set s \<Longrightarrow> first_field (s @ bar # t) = s"
  "bar \<notin> set s \<Longrightarrow> after_field (s @ bar # t) = Some t"
  by (simp_all add: first_field_def after_field_def takeWhile_append dropWhile_append)

lemma fields_none [simp]:
  assumes "bar \<notin> set s"
  shows "first_field s = s" "after_field s = None"
proof -
  have all: "\<forall>c \<in> set s. c \<noteq> bar" using assms by auto
  then have "takeWhile (\<lambda>c. c \<noteq> bar) s = s" "dropWhile (\<lambda>c. c \<noteq> bar) s = []"
    by (simp_all add: takeWhile_eq_all_conv dropWhile_eq_Nil_conv)
  then show "first_field s = s" "after_field s = None"
    by (simp_all only: first_field_def after_field_def list.case)
qed

lemma split_first_spec:
  assumes "sz_ok sz" "wf_str s" "str_len s \<le> usize_max"
  shows "split_first sz e s = Inr (first_field s, after_field s)"
proof (cases "bar \<in> set s")
  case True
  then obtain u t where s: "s = u @ bar # t" "bar \<notin> set u" by (meson split_list_first)
  with assms split_first_at [of sz u e t] show ?thesis by (simp add: str_len_def)
next
  case False
  with assms split_first_none [of sz s e] show ?thesis by simp
qed

lemma upper_words [simp]:
  "str_to_uppercase U SERVER_EVENT_OK = SERVER_EVENT_OK"
  "str_to_uppercase U SERVER_EVENT_ERR = SERVER_EVENT_ERR"
  "str_to_uppercase U SERVER_EVENT_USER_JOINED = SERVER_EVENT_USER_JOINED"
  "str_to_uppercase U SERVER_EVENT_USER_LEFT = SERVER_EVENT_USER_LEFT"
  "str_to_uppercase U SERVER_EVENT_BROADCAST = SERVER_EVENT_BROADCAST"
  "str_to_uppercase U CLIENT_JOIN_CMD = CLIENT_JOIN_CMD"
  "str_to_uppercase U CLIENT_SEND_CMD = CLIENT_SEND_CMD"
  "str_to_uppercase U CLIENT_LEAVE_CMD = CLIENT_LEAVE_CMD"
  by (simp_all add: wire_simps str_to_uppercase_def char_to_uppercase_def is_ascii_char_def
      to_ascii_uppercase_def is_ascii_lowercase_def)


lemma wf_fields:
  assumes "wf_str s"
  shows "wf_str (first_field s)" "after_field s = Some t \<Longrightarrow> wf_str t"
    "bar \<notin> set (first_field s)" "after_field s = Some t \<Longrightarrow> s = first_field s @ bar # t"
proof -
  have s: "s = first_field s @ dropWhile (\<lambda>c. c \<noteq> bar) s" by (simp add: first_field_def)
  then have *: "wf_str (first_field s)" "wf_str (dropWhile (\<lambda>c. c \<noteq> bar) s)"
    using assms by (metis wf_str_simps(3))+
  show "wf_str (first_field s)" by (fact *)
  show "bar \<notin> set (first_field s)" by (auto simp: first_field_def dest: set_takeWhileD)
  assume a: "after_field s = Some t"
  then have d: "dropWhile (\<lambda>c. c \<noteq> bar) s = bar # t"
    using hd_dropWhile [of "\<lambda>c. c \<noteq> bar" s]
    by (cases "dropWhile (\<lambda>c. c \<noteq> bar) s") (simp_all add: after_field_def del: dropWhile_eq_Nil_conv)
  with * show "wf_str t" by simp
  show "s = first_field s @ bar # t" using s d by simp
qed

lemma str_len_trim: "str_len (trim s) \<le> length (utf8 s)"
proof -
  obtain u w where "s = u @ trim s @ w" using trim_decomp by blast
  then have "utf8 s = utf8 u @ utf8 (trim s) @ utf8 w" by (metis utf8_simps(3))
  then show ?thesis by (simp add: str_len_def)
qed

text \<open>The decoders, stated on texts.\<close>

lemma decode_text:
  assumes "sz_ok sz" "length bs \<le> usize_max" "from_utf8 bs = Some s" "trim s \<noteq> []"
  shows "split_first sz e (trim s) = Inr (first_field (trim s), after_field (trim s))"
    "wf_str (trim s)" "str_len (trim s) \<le> usize_max"
proof -
  have s: "wf_str s" "utf8 s = bs" using assms(3) from_utf8_sound by blast+
  then show "wf_str (trim s)" by simp
  moreover show "str_len (trim s) \<le> usize_max"
    using str_len_trim [of s] s(2) assms(2) by simp
  ultimately show "split_first sz e (trim s) = Inr (first_field (trim s), after_field (trim s))"
    using assms(1) by (simp add: split_first_spec)
qed

lemma decode_client_text:
  assumes "sz_ok sz" "length bs \<le> usize_max" "from_utf8 bs = Some s" "trim s \<noteq> []"
  shows "decode_client U sz bs = match_command U (first_field (trim s)) (after_field (trim s))"
  using assms(3,4) by (simp add: decode_client_def decode_text(1) [OF assms] Let_def)

lemma decode_server_text:
  assumes "sz_ok sz" "length bs \<le> usize_max" "from_utf8 bs = Some s" "trim s \<noteq> []"
  shows "decode_server U sz bs = match_event U sz (first_field (trim s)) (after_field (trim s))"
  using assms(3,4) by (simp add: decode_server_def decode_text(1) [OF assms] Let_def)

lemma trimmed_end_rest:
  assumes "wf_str s" "after_field s = Some t" "\<not> is_whitespace (last s)"
  shows "trimmed_end t"
  using arg_cong [where f = last, OF wf_fields(4) [OF assms(1,2)]] assms(3)
  by (auto simp: trimmed_end_def)


lemma words_distinct [simp]:
  "CLIENT_SEND_CMD \<noteq> CLIENT_JOIN_CMD" "CLIENT_LEAVE_CMD \<noteq> CLIENT_JOIN_CMD"
  "CLIENT_LEAVE_CMD \<noteq> CLIENT_SEND_CMD"
  "SERVER_EVENT_ERR \<noteq> SERVER_EVENT_OK" "SERVER_EVENT_USER_JOINED \<noteq> SERVER_EVENT_OK"
  "SERVER_EVENT_USER_LEFT \<noteq> SERVER_EVENT_OK" "SERVER_EVENT_BROADCAST \<noteq> SERVER_EVENT_OK"
  "SERVER_EVENT_USER_JOINED \<noteq> SERVER_EVENT_ERR" "SERVER_EVENT_USER_LEFT \<noteq> SERVER_EVENT_ERR"
  "SERVER_EVENT_BROADCAST \<noteq> SERVER_EVENT_ERR"
  "SERVER_EVENT_USER_LEFT \<noteq> SERVER_EVENT_USER_JOINED"
  "SERVER_EVENT_BROADCAST \<noteq> SERVER_EVENT_USER_JOINED"
  "SERVER_EVENT_BROADCAST \<noteq> SERVER_EVENT_USER_LEFT"
  by (simp_all add: wire_simps)

lemma wire_words_ok [simp]:
  "wire_word SERVER_EVENT_OK" "wire_word SERVER_EVENT_ERR" "wire_word SERVER_EVENT_USER_JOINED"
  "wire_word SERVER_EVENT_USER_LEFT" "wire_word SERVER_EVENT_BROADCAST"
  "wire_word CLIENT_JOIN_CMD" "wire_word CLIENT_SEND_CMD" "wire_word CLIENT_LEAVE_CMD"
  by (simp_all add: wire_word_def wire_simps is_ascii_def is_ascii_char_def bar_def is_whitespace_def)

lemma trim_word [simp]: "wire_word w \<Longrightarrow> trim w = w"
  by (rule trim_id) (auto simp: wire_word_def list_all_iff)

lemma trim_word_field:
  assumes "wire_word w" "trimmed_end r"
  shows "trim (w @ bar # r) = w @ bar # r"
proof (rule trim_id)
  show "\<not> is_whitespace (hd (w @ bar # r))" using assms(1) by (auto simp: wire_word_def list_all_iff)
  show "\<not> is_whitespace (last (w @ bar # r))" using assms(2) by (auto simp: trimmed_end_def)
qed simp

lemma wire_word_facts:
  "wire_word w \<Longrightarrow> bar \<notin> set w" "wire_word w \<Longrightarrow> wf_str w" "wire_word w \<Longrightarrow> w \<noteq> []"
  by (auto simp: wire_word_def wf_str_ascii)

text \<open>What the first steps of a decoder see of \<open>WORD|field\<close> and of a bare word.\<close>

lemma framed_field:
  assumes "sz_ok sz" "wire_word w" "wf_str r" "trimmed_end r" "length (utf8 w) < usize_max"
  shows "from_utf8 (utf8 (w @ bar # r)) = Some (w @ bar # r)"
    "trim (w @ bar # r) = w @ bar # r"
    "split_first sz e (w @ bar # r) = Inr (w, Some r)"
  using assms wire_word_facts [OF assms(2)]
  by (simp_all add: trim_word_field split_first_at del: utf8_simps)

lemma word_short [simp]:
  "length (utf8 SERVER_EVENT_OK) < usize_max" "length (utf8 SERVER_EVENT_ERR) < usize_max"
  "length (utf8 SERVER_EVENT_USER_JOINED) < usize_max"
  "length (utf8 SERVER_EVENT_USER_LEFT) < usize_max" "length (utf8 SERVER_EVENT_BROADCAST) < usize_max"
  "length (utf8 CLIENT_JOIN_CMD) < usize_max" "length (utf8 CLIENT_SEND_CMD) < usize_max"
  "length (utf8 CLIENT_LEAVE_CMD) < usize_max"
  by (simp_all add: wire_simps usize_max_def utf8_char_def)

lemma decode_encode_client:
  assumes "sz_ok sz" "canonical_client m"
  shows "decode_client U sz (encode_client m) = Inr m"
  using assms
  by (cases m)
    (simp_all add: canonical_client_def decode_client_def encode_client_def FIELD_SEPARATOR_bar
      framed_field wire_word_facts split_first_none match_command_def del: utf8_simps)

lemma decode_encode_server:
  assumes "sz_ok sz" "canonical_server m" "length (encode_server m) \<le> usize_max"
  shows "decode_server U sz (encode_server m) = Inr m"
proof (cases m)
  case (SM_Broadcast u t)
  with assms have b: "wf_str u" "bar \<notin> set u" "wf_str t" "trimmed_end t"
    "length (utf8 u) < usize_max"
    by (simp_all add: canonical_server_def encode_server_def FIELD_SEPARATOR_bar)
  then have "trimmed_end (u @ bar # t)" by (auto simp: trimmed_end_def)
  with b assms(1) SM_Broadcast show ?thesis
    by (simp add: decode_server_def encode_server_def FIELD_SEPARATOR_bar framed_field
        decode_broadcast_def split_first_at match_event_def del: utf8_simps)
qed (use assms in \<open>simp_all add: canonical_server_def decode_server_def encode_server_def
      FIELD_SEPARATOR_bar framed_field wire_word_facts split_first_none match_event_def
      del: utf8_simps\<close>)

lemma decode_broadcast_spec:
  assumes "sz_ok sz" "wf_str r" "str_len r \<le> usize_max"
  shows "decode_broadcast sz r =
    Inr (SM_Broadcast (first_field r) (case after_field r of None \<Rightarrow> [] | Some t \<Rightarrow> t))"
  by (simp add: decode_broadcast_def split_first_spec [OF assms])

lemma str_len_rest:
  assumes "wf_str s" "after_field s = Some r"
  shows "str_len r \<le> str_len s"
  using arg_cong [where f = utf8, OF wf_fields(4) [OF assms]] by (simp add: str_len_def)

lemma match_command_canonical:
  assumes "wf_str s" "\<not> is_whitespace (last s)"
    and "match_command U (first_field s) (after_field s) = Inr m"
  shows "canonical_client m"
  using assms wf_fields [OF assms(1)] trimmed_end_rest [OF assms(1)]
  by (auto simp: match_command_def Let_def canonical_client_def split: option.splits if_splits)

lemma match_event_canonical:
  assumes "sz_ok sz" "wf_str s" "str_len s \<le> usize_max" "\<not> is_whitespace (last s)"
    and "match_event U sz (first_field s) (after_field s) = Inr m"
  shows "canonical_server m"
proof (cases "after_field s")
  case None
  with assms(5) show ?thesis
    by (auto simp: match_event_def Let_def canonical_server_def split: if_splits)
next
  case (Some r)
  have r: "wf_str r" "trimmed_end r" "str_len r \<le> usize_max"
    using Some assms wf_fields(2) trimmed_end_rest str_len_rest [of s r] by auto
  have "trimmed_end t" if "after_field r = Some t" for t
    using trimmed_end_rest [OF r(1) that] r(2) that by (auto simp: trimmed_end_def after_field_def)
  then have "canonical_server m" if "decode_broadcast sz r = Inr m" for m
    using that wf_fields [OF r(1)]
    by (auto simp: decode_broadcast_spec [OF assms(1) r(1,3)] canonical_server_def trimmed_end_def
        split: option.splits)
  with assms(5) Some r show ?thesis
    by (auto simp: match_event_def Let_def canonical_server_def split: if_splits)
qed

lemma decode_client_canonical:
  assumes "sz_ok sz" "length bs \<le> usize_max" "decode_client U sz bs = Inr m"
  shows "canonical_client m"
proof -
  from assms(3) obtain s where s: "from_utf8 bs = Some s" "trim s \<noteq> []"
    by (auto simp: decode_client_def Let_def split: option.splits if_splits)
  note t = decode_text [OF assms(1,2) s]
  show ?thesis using assms(3) trim_last [OF s(2)]
    by (auto simp: decode_client_text [OF assms(1,2) s] intro: match_command_canonical [OF t(2)])
qed

lemma decode_server_canonical:
  assumes "sz_ok sz" "length bs \<le> usize_max" "decode_server U sz bs = Inr m"
  shows "canonical_server m"
proof -
  from assms(3) obtain s where s: "from_utf8 bs = Some s" "trim s \<noteq> []"
    by (auto simp: decode_server_def Let_def split: option.splits if_splits)
  note t = decode_text [OF assms(1,2) s]
  show ?thesis using assms(3) trim_last [OF s(2)]
    by (auto simp: decode_server_text [OF assms(1,2) s]
        intro: match_event_canonical [OF assms(1) t(2,3)])
qed

lemma trim_newline: "trim (s @ [0x0A]) = trim s"
  by (rule trim_append_ws) (simp add: is_whitespace_def)

lemma decode_newline:
  "decode_client U sz (bs @ [newline]) = decode_client U sz bs"
  "decode_server U sz (bs @ [newline]) = decode_server U sz bs"
  by (cases "from_utf8 bs"; simp add: decode_client_def decode_server_def newline_def
      from_utf8_snoc_ascii trim_newline)+

locale wire_codec =
  fixes lib_ok :: "'l \<Rightarrow> bool"
    and enc :: "'m \<Rightarrow> byte list"
    and dec :: "'l \<Rightarrow> byte list \<Rightarrow> ('e, 'm) result"
    and canonical :: "'m \<Rightarrow> bool"
  assumes dec_enc: "lib_ok L \<Longrightarrow> canonical m \<Longrightarrow> length (enc m) \<le> usize_max \<Longrightarrow> dec L (enc m) = Inr m"
    and dec_canonical: "lib_ok L \<Longrightarrow> length bs \<le> usize_max \<Longrightarrow> dec L bs = Inr m \<Longrightarrow> canonical m"
    and dec_newline: "dec L (bs @ [newline]) = dec L bs"
begin

lemma roundtrip_iff:
  "lib_ok L \<Longrightarrow> length (enc m) \<le> usize_max \<Longrightarrow> dec L (enc m) = Inr m \<longleftrightarrow> canonical m"
  using dec_enc dec_canonical by blast

lemma reencode:
  "lib_ok L \<Longrightarrow> length bs \<le> usize_max \<Longrightarrow> dec L bs = Inr m \<Longrightarrow> length (enc m) \<le> usize_max \<Longrightarrow>
   dec L (enc m) = Inr m"
  using dec_enc dec_canonical by blast

lemma enc_inject:
  assumes "lib_ok L" "canonical m" "canonical m'" "length (enc m) \<le> usize_max"
  shows "enc m = enc m' \<longleftrightarrow> m = m'"
  using assms by (metis dec_enc sum.inject(2))

lemma framed_line:
  "lib_ok L \<Longrightarrow> canonical m \<Longrightarrow> length (enc m) \<le> usize_max \<Longrightarrow> dec L (enc m @ [newline]) = Inr m"
  by (simp add: dec_newline dec_enc)

end

interpretation client_codec: wire_codec
  "\<lambda>(U, sz). sz_ok sz" encode_client "\<lambda>(U, sz). decode_client U sz" canonical_client
proof (unfold_locales, goal_cases)
  case (1 L m)
  then show ?case by (simp add: case_prod_beta decode_encode_client)
next
  case (2 L bs m)
  then show ?case
    by (intro decode_client_canonical [of "snd L" bs "fst L"]) (simp_all add: case_prod_beta)
next
  case (3 L bs)
  then show ?case by (simp add: case_prod_beta decode_newline)
qed

interpretation server_codec: wire_codec
  "\<lambda>(U, sz). sz_ok sz" encode_server "\<lambda>(U, sz). decode_server U sz" canonical_server
proof (unfold_locales, goal_cases)
  case (1 L m)
  then show ?case by (simp add: case_prod_beta decode_encode_server)
next
  case (2 L bs m)
  then show ?case
    by (intro decode_server_canonical [of "snd L" bs "fst L"]) (simp_all add: case_prod_beta)
next
  case (3 L bs)
  then show ?case by (simp add: case_prod_beta decode_newline)
qed

lemma str_to_uppercase_Nil [simp]: "str_to_uppercase U [] = []"
  by (simp add: str_to_uppercase_def)

lemma fieldsE:
  obtains (none) "bar \<notin> set s" "first_field s = s" "after_field s = None"
  | (some) u t where "s = u @ bar # t" "bar \<notin> set u" "first_field s = u" "after_field s = Some t"
proof (cases "bar \<in> set s")
  case True
  then obtain u t where "s = u @ bar # t" "bar \<notin> set u" by (meson split_list_first)
  then show thesis using some by simp
qed (use none in simp)

lemma match_command_line:
  "match_command U (first_field s) (after_field s) = Inr m \<longleftrightarrow> client_line U s m"
proof
  assume "match_command U (first_field s) (after_field s) = Inr m"
  then show "client_line U s m"
    by (cases rule: fieldsE [of s])
      (auto simp: match_command_def Let_def intro: client_line.intros split: if_splits)
next
  assume "client_line U s m"
  then show "match_command U (first_field s) (after_field s) = Inr m"
    by (cases rule: client_line.cases) (simp_all add: match_command_def)
qed

lemma match_event_line:
  assumes "sz_ok sz" "wf_str s" "str_len s \<le> usize_max"
  shows "match_event U sz (first_field s) (after_field s) = Inr m \<longleftrightarrow> server_line U s m"
proof
  assume m: "match_event U sz (first_field s) (after_field s) = Inr m"
  show "server_line U s m"
  proof (cases rule: fieldsE [of s])
    case none
    with m show ?thesis by (auto simp: match_event_def Let_def intro: server_line.intros split: if_splits)
  next
    case (some ev r)
    then have r: "wf_str r" "str_len r \<le> usize_max"
      using assms(2,3) str_len_rest [OF assms(2), of r] by auto
    show ?thesis using m some decode_broadcast_spec [OF assms(1) r]
      by (cases rule: fieldsE [of r])
        (auto simp: match_event_def Let_def intro: server_line.intros split: if_splits)
  qed
next
  assume l: "server_line U s m"
  have db: "decode_broadcast sz r = Inr (SM_Broadcast (first_field r)
      (case after_field r of None \<Rightarrow> [] | Some t \<Rightarrow> t))" if "after_field s = Some r" for r
    using that assms wf_fields(2) str_len_rest [OF assms(2), of r]
    by (intro decode_broadcast_spec) auto
  show "match_event U sz (first_field s) (after_field s) = Inr m"
    using l db by (cases rule: server_line.cases) (simp_all add: match_event_def)
qed

lemma line_not_empty: "\<not> client_line U [] m" "\<not> server_line U [] m'"
  by (auto elim: client_lineE server_lineE simp: wire_simps)

lemma decode_client_line:
  assumes "sz_ok sz" "length bs \<le> usize_max"
  shows "decode_client U sz bs = Inr m \<longleftrightarrow> (\<exists>s. from_utf8 bs = Some s \<and> client_line U (trim s) m)"
proof (cases "\<exists>s. from_utf8 bs = Some s \<and> trim s \<noteq> []")
  case True
  then obtain s where s: "from_utf8 bs = Some s" "trim s \<noteq> []" by blast
  show ?thesis using s(1) by (simp add: decode_client_text [OF assms s] match_command_line)
next
  case False
  then show ?thesis by (auto simp: decode_client_def line_not_empty split: option.splits)
qed

lemma decode_server_line:
  assumes "sz_ok sz" "length bs \<le> usize_max"
  shows "decode_server U sz bs = Inr m \<longleftrightarrow> (\<exists>s. from_utf8 bs = Some s \<and> server_line U (trim s) m)"
proof (cases "\<exists>s. from_utf8 bs = Some s \<and> trim s \<noteq> []")
  case True
  then obtain s where s: "from_utf8 bs = Some s" "trim s \<noteq> []" by blast
  note t = decode_text [OF assms s]
  show ?thesis using s(1) by (simp add: decode_server_text [OF assms s] match_event_line [OF assms(1) t(2,3)])
next
  case False
  then show ?thesis by (auto simp: decode_server_def line_not_empty split: option.splits)
qed

subsection \<open>Properties of the protocol\<close>

text \<open>Property C33: a client command survives encoding and decoding exactly when it is
  canonical: a username or message that is non-empty and does not end in white space.\<close>

theorem client_roundtrip:
  assumes "sz_ok sz" "length (encode_client m) \<le> usize_max"
  shows "decode_client U sz (encode_client m) = Inr m \<longleftrightarrow> canonical_client m"
  using client_codec.roundtrip_iff [of "(U, sz)" m] assms by simp

lemma client_roundtrip_witness:
  "decode_client ascii_unicode ref_sz (encode_client (CM_Send (lit ''ola;''))) = Inr (CM_Send (lit ''ola;''))"
proof -
  have "canonical_client (CM_Send (lit ''ola;''))" by code_simp+
  moreover have "length (encode_client (CM_Send (lit ''ola;''))) \<le> usize_max"
    by (simp_all add: encode_client_def encode_server_def wire_simps FIELD_SEPARATOR_def utf8_char_def usize_max_def)
  ultimately show ?thesis using client_roundtrip [OF ref_sz_ok] by blast
qed

text \<open>Property C34: a server message survives encoding and decoding exactly when it is
  canonical: no text field ends in white space, and the user name of a broadcast contains no
  separator. The message of a broadcast may contain separators.\<close>

theorem server_roundtrip:
  assumes "sz_ok sz" "length (encode_server m) \<le> usize_max"
  shows "decode_server U sz (encode_server m) = Inr m \<longleftrightarrow> canonical_server m"
  using server_codec.roundtrip_iff [of "(U, sz)" m] assms by simp

lemma server_roundtrip_witness:
  "decode_server ascii_unicode ref_sz (encode_server (SM_Broadcast (lit ''alex'') (lit ''hello|world'')))
     = Inr (SM_Broadcast (lit ''alex'') (lit ''hello|world''))"
proof -
  have "canonical_server (SM_Broadcast (lit ''alex'') (lit ''hello|world''))" by code_simp+
  moreover have "length (encode_server (SM_Broadcast (lit ''alex'') (lit ''hello|world''))) \<le> usize_max"
    by (simp_all add: encode_client_def encode_server_def wire_simps FIELD_SEPARATOR_def utf8_char_def usize_max_def)
  ultimately show ?thesis using server_roundtrip [OF ref_sz_ok] by blast
qed

text \<open>Property C35: the decoder of client commands accepts exactly the lines of the grammar
  \<open>client_line\<close> (after trimming, on valid UTF-8), and returns the message the grammar gives.\<close>

theorem decode_client_grammar:
  assumes "sz_ok sz" "length bs \<le> usize_max"
  shows "decode_client U sz bs = Inr m \<longleftrightarrow> (\<exists>s. from_utf8 bs = Some s \<and> client_line U (trim s) m)"
  using assms by (rule decode_client_line)

lemma decode_client_grammar_witness:
  "client_line ascii_unicode (trim (lit ''  join|alice '')) (CM_Join (lit ''alice''))"
proof -
  have "decode_client ascii_unicode ref_sz (utf8 (lit ''  join|alice '')) = Inr (CM_Join (lit ''alice''))" "from_utf8 (utf8 (lit ''  join|alice '')) = Some (lit ''  join|alice '')"
    by code_simp+
  moreover have "length (utf8 (lit ''  join|alice '')) \<le> usize_max"
    by (simp_all add: encode_client_def encode_server_def wire_simps FIELD_SEPARATOR_def utf8_char_def usize_max_def)
  ultimately show ?thesis using decode_client_grammar [OF ref_sz_ok] by fastforce
qed

text \<open>The decoder of server messages accepts exactly the lines of the grammar
  \<open>server_line\<close>; in a broadcast everything after the second separator is the message.\<close>

lemma decode_server_grammar:
  assumes "sz_ok sz" "length bs \<le> usize_max"
  shows "decode_server U sz bs = Inr m \<longleftrightarrow> (\<exists>s. from_utf8 bs = Some s \<and> server_line U (trim s) m)"
  using assms by (rule decode_server_line)

lemma decode_server_grammar_witness:
  "server_line ascii_unicode (lit ''joined|bob'') (SM_UserJoined (lit ''bob''))"
proof -
  have "decode_server ascii_unicode ref_sz (utf8 (lit ''joined|bob'')) = Inr (SM_UserJoined (lit ''bob''))" "from_utf8 (utf8 (lit ''joined|bob'')) = Some (lit ''joined|bob'')"
    "trim (lit ''joined|bob'') = lit ''joined|bob''"
    by code_simp+
  moreover have "length (utf8 (lit ''joined|bob'')) \<le> usize_max"
    by (simp_all add: encode_client_def encode_server_def wire_simps FIELD_SEPARATOR_def utf8_char_def usize_max_def)
  ultimately show ?thesis using decode_server_grammar [OF ref_sz_ok] by fastforce
qed

text \<open>Each error of the command decoder is returned for exactly one reason:
  bytes that are not UTF-8, nothing but white space, or a first field that no command word
  matches; and slicing at the separator never fails, so \<open>Empty\<close> has no other cause.\<close>

lemma decode_client_errors:
  assumes "sz_ok sz" "length bs \<le> usize_max"
  shows "(decode_client U sz bs = Inl CPE_InvalidUtf8 \<longleftrightarrow> from_utf8 bs = None)
    \<and> (decode_client U sz bs = Inl CPE_Empty \<longleftrightarrow> (\<exists>s. from_utf8 bs = Some s \<and> trim s = []))
    \<and> (decode_client U sz bs = Inl (CPE_UnknownCommand c) \<longleftrightarrow>
         (\<exists>s. from_utf8 bs = Some s \<and> trim s \<noteq> [] \<and> c = first_field (trim s)
            \<and> str_to_uppercase U c \<notin> {CLIENT_JOIN_CMD, CLIENT_SEND_CMD, CLIENT_LEAVE_CMD}))"
proof (cases "\<exists>s. from_utf8 bs = Some s \<and> trim s \<noteq> []")
  case True
  then obtain s where s: "from_utf8 bs = Some s" "trim s \<noteq> []" by blast
  show ?thesis unfolding decode_client_text [OF assms s]
    by (auto simp: s match_command_def Let_def split: option.splits if_splits)
next
  case False
  then show ?thesis by (auto simp: decode_client_def split: option.splits)
qed

lemma decode_client_errors_witness:
  "decode_client ascii_unicode ref_sz [0xFF] = Inl CPE_InvalidUtf8
   \<and> decode_client ascii_unicode ref_sz (utf8 (lit ''  '')) = Inl CPE_Empty
   \<and> decode_client ascii_unicode ref_sz (utf8 (lit ''shout|x'')) = Inl (CPE_UnknownCommand (lit ''shout''))"
proof -
  have "from_utf8 [0xFF] = None" "from_utf8 (utf8 (lit ''  '')) = Some (lit ''  '')" "trim (lit ''  '') = []"
    "from_utf8 (utf8 (lit ''shout|x'')) = Some (lit ''shout|x'')" "trim (lit ''shout|x'') = lit ''shout|x''" "lit ''shout|x'' \<noteq> []"
    "first_field (lit ''shout|x'') = lit ''shout''"
    "str_to_uppercase ascii_unicode (lit ''shout'') \<notin> {CLIENT_JOIN_CMD, CLIENT_SEND_CMD, CLIENT_LEAVE_CMD}"
    by code_simp+
  moreover have "length [0xFF :: byte] \<le> usize_max" "length (utf8 (lit ''  '')) \<le> usize_max" "length (utf8 (lit ''shout|x'')) \<le> usize_max"
    by (simp_all add: encode_client_def encode_server_def wire_simps FIELD_SEPARATOR_def utf8_char_def usize_max_def)
  ultimately show ?thesis
    using decode_client_errors [OF ref_sz_ok, of "[0xFF]"] decode_client_errors [OF ref_sz_ok, of "utf8 (lit ''  '')"]
      decode_client_errors [OF ref_sz_ok, of "utf8 (lit ''shout|x'')" ascii_unicode "lit ''shout''"]
    by metis
qed

end
