(* ===== verification/Tokio_Io.thy ===== *)
theory Tokio_Io
  imports Tcp_Message
begin

text \<open>
  The two halves of a TCP stream as the sources use them: \<open>write_all\<close> and \<open>flush\<close> on the write
  half, \<open>take(limit).read_until\<close> on the buffered read half, and the line written by the three
  statements \<open>write_all(msg)\<close>, \<open>write_all(b"\n")\<close>, \<open>flush\<close> that the server and the client
  repeat.

  A reader holds the bytes received and not yet consumed, and whether the stream is open, at
  its end or broken; a read is a poll that may be pending, in which case the bytes read so
  far are already in the caller's buffer. A writer records what the socket has accepted;
  \<open>wr_budget\<close> is the number of bytes it will still accept before it breaks (\<open>None\<close>: it
  does not break). Errors of the operating system are their texts.
\<close>

type_synonym io_error = rstr

datatype input_status = In_Open | In_Eof | In_Err io_error

record reader =
  rd_data :: "byte list"
  rd_status :: input_status

record writer =
  wr_out :: "byte list"
  wr_budget :: "nat option"
  wr_error :: io_error

text \<open>Bytes and a change of status arriving from the network.\<close>

definition arrive :: "byte list \<Rightarrow> input_status \<Rightarrow> reader \<Rightarrow> reader" where
  "arrive bytes status r =
     (if rd_status r = In_Open then \<lparr> rd_data = rd_data r @ bytes, rd_status = status \<rparr> else r)"

definition write_all :: "byte list \<Rightarrow> writer \<Rightarrow> (io_error, unit) result \<times> writer" where
  "write_all bs w =
     (case wr_budget w of
        None \<Rightarrow> (Inr (), w\<lparr>wr_out := wr_out w @ bs\<rparr>)
      | Some k \<Rightarrow>
          if length bs \<le> k then (Inr (), w\<lparr>wr_out := wr_out w @ bs, wr_budget := Some (k - length bs)\<rparr>)
          else (Inl (wr_error w), w\<lparr>wr_out := wr_out w @ take k bs, wr_budget := Some 0\<rparr>))"

text \<open>Flushing a TCP stream does nothing.\<close>

definition flush :: "writer \<Rightarrow> (io_error, unit) result \<times> writer" where
  "flush w = (Inr (), w)"

definition write_line :: "byte list \<Rightarrow> writer \<Rightarrow> (io_error, unit) result \<times> writer" where
  "write_line bs w =
     try_bind (write_all bs w) (\<lambda>_ w. try_bind (write_all [newline] w) (\<lambda>_ w. flush w))"

text \<open>One poll of \<open>reader.take(limit).read_until(b'\n', buf)\<close>, with \<open>buf\<close> empty when the read
  began: the bytes of \<open>buf\<close> count against the limit and in the number of bytes returned.\<close>

definition read_until ::
    "nat \<Rightarrow> byte list \<Rightarrow> reader \<Rightarrow> (io_error, nat) result poll \<times> byte list \<times> reader" where
  "read_until limit buf r =
     (let avail = take (limit - length buf) (rd_data r) in
      case find_index (\<lambda>b. b = newline) avail of
        Some i \<Rightarrow>
          (let buf' = buf @ take (Suc i) avail
           in (Ready (Inr (length buf')), buf', r\<lparr>rd_data := drop (Suc i) (rd_data r)\<rparr>))
      | None \<Rightarrow>
          (let buf' = buf @ avail; r' = r\<lparr>rd_data := drop (length avail) (rd_data r)\<rparr> in
           if limit \<le> length buf' then (Ready (Inr (length buf')), buf', r')
           else (case rd_status r of
                   In_Open \<Rightarrow> (Pending, buf', r')
                 | In_Eof \<Rightarrow> (Ready (Inr (length buf')), buf', r')
                 | In_Err e \<Rightarrow> (Ready (Inl e), buf', r'))))"

text \<open>\<open>buf.last() == Some(&b'\n')\<close>.\<close>

definition ends_line :: "byte list \<Rightarrow> bool" where
  "ends_line buf \<longleftrightarrow> buf \<noteq> [] \<and> last buf = newline"

text \<open>What a writer with no failure so far has sent, as lines.\<close>

definition lines :: "byte list list \<Rightarrow> byte list" where
  "lines ms = concat (map (\<lambda>m. m @ [newline]) ms)"

subsection \<open>Writing\<close>

lemma write_all_cases:
  "write_all bs w = (r, w') \<Longrightarrow>
     r = Inr () \<and> wr_out w' = wr_out w @ bs
     \<or> (\<exists>k < length bs. r = Inl (wr_error w) \<and> wr_out w' = wr_out w @ take k bs)"
  by (auto simp: write_all_def not_le split: option.splits if_splits)

lemma write_line_law:
  assumes "write_line bs w = (r, w')"
  shows "r = Inr () \<and> wr_out w' = wr_out w @ bs @ [newline]
    \<or> r = Inl (wr_error w) \<and> (\<exists>k \<le> length bs. wr_out w' = wr_out w @ take k bs)"
proof -
  have err: "write_all bs w = (r1, w1) \<Longrightarrow> wr_error w1 = wr_error w" for r1 w1
    by (auto simp: write_all_def split: option.splits if_splits)
  obtain r1 w1 where w1: "write_all bs w = (r1, w1)" by force
  show ?thesis
  proof (cases r1)
    case (Inl e)
    with write_all_cases [OF w1] assms w1 show ?thesis
      by (auto simp: write_line_def intro: less_imp_le)
  next
    case (Inr u)
    obtain r2 w2 where w2: "write_all [newline] w1 = (r2, w2)" by force
    have "r2 = Inr () \<and> wr_out w2 = wr_out w1 @ [newline] \<or> r2 = Inl (wr_error w1) \<and> wr_out w2 = wr_out w1"
      using write_all_cases [OF w2] by auto
    with Inr write_all_cases [OF w1] err [OF w1] assms w1 w2 show ?thesis
      by (auto simp: write_line_def flush_def)
  qed
qed

lemma write_line_ok: "wr_budget w = None \<Longrightarrow> write_line bs w = (Inr (), w\<lparr>wr_out := wr_out w @ bs @ [newline]\<rparr>)"
  by (simp add: write_line_def write_all_def flush_def)

subsection \<open>Reading a line\<close>

lemma take_find_index:
  assumes "find_index P xs = Some i"
  shows "take (Suc i) xs = take i xs @ [xs ! i]" "P (xs ! i)" "\<forall>x \<in> set (take i xs). \<not> P x" "i < length xs"
  using assms by (auto simp: find_index_Some take_Suc_conv_app_nth in_set_conv_nth)

text \<open>A read loses no byte: the buffer and what is left are what was there.\<close>

lemma read_until_bytes:
  "read_until limit buf r = (p, buf', r') \<Longrightarrow> buf' @ rd_data r' = buf @ rd_data r \<and> rd_status r' = rd_status r"
  by (auto simp: read_until_def Let_def min_def split: option.splits if_splits input_status.splits
      dest!: take_find_index(4))

lemma read_until_shrinks:
  assumes "read_until limit buf r = (Ready (Inr n), buf', r')" "0 < n"
  shows "length (rd_data r') < length buf + length (rd_data r)"
proof -
  have "n = length buf'"
    using assms(1) by (auto simp: read_until_def Let_def split: option.splits if_splits input_status.splits)
  moreover have "length (buf' @ rd_data r') = length (buf @ rd_data r)"
    using read_until_bytes [OF assms(1)] by simp
  ultimately show ?thesis using assms(2) by (cases buf') simp_all
qed

text \<open>A complete read: at most \<open>limit\<close> bytes, the newline only at the end, and if there is none,
  the limit was reached or the stream ended.\<close>

lemma read_until_Ready:
  assumes "read_until limit buf r = (Ready (Inr n), buf', r')" "length buf \<le> limit" "newline \<notin> set buf"
  shows "n = length buf'" "n \<le> limit"
    "(\<exists>xs. buf' = xs @ [newline] \<and> newline \<notin> set xs) \<or> newline \<notin> set buf' \<and> (n = limit \<or> rd_status r = In_Eof)"
proof -
  let ?avail = "take (limit - length buf) (rd_data r)"
  have *: "n = length buf' \<and> n \<le> limit
    \<and> ((\<exists>xs. buf' = xs @ [newline] \<and> newline \<notin> set xs) \<or> newline \<notin> set buf' \<and> (n = limit \<or> rd_status r = In_Eof))"
  proof (cases "find_index (\<lambda>b. b = newline) ?avail")
    case None
    then have "newline \<notin> set ?avail" by (auto simp: find_index_None)
    with None assms show ?thesis
      by (auto simp: read_until_def Let_def split: if_splits input_status.splits)
  next
    case (Some i)
    note f = take_find_index [OF Some]
    have b: "buf' = buf @ take (Suc i) ?avail" "n = length buf'"
      using assms(1) Some by (auto simp: read_until_def Let_def)
    from b(1) f(1,2) have "buf' = (buf @ take i ?avail) @ [newline]" by simp
    moreover note b(2)
    moreover have "newline \<notin> set (buf @ take i ?avail)" using f(3) assms(3) by auto
    moreover have "length buf' \<le> limit" using calculation(1) f(4) assms(2) by auto
    ultimately show ?thesis by blast
  qed
  then show "n = length buf'" "n \<le> limit"
    "(\<exists>xs. buf' = xs @ [newline] \<and> newline \<notin> set xs) \<or> newline \<notin> set buf' \<and> (n = limit \<or> rd_status r = In_Eof)"
    by blast+
qed

lemma read_until_Pending:
  assumes "read_until limit buf r = (Pending, buf', r')" "newline \<notin> set buf"
  shows "newline \<notin> set buf'" "length buf' < limit" "rd_status r = In_Open" "rd_data r' = []"
  using assms
  by (auto simp: read_until_def Let_def find_index_None min_def split: option.splits if_splits input_status.splits)

lemma ends_line_iff: "(\<exists>xs. buf = xs @ [newline] \<and> newline \<notin> set xs) \<or> newline \<notin> set buf \<Longrightarrow>
  ends_line buf \<longleftrightarrow> newline \<in> set buf"
  unfolding ends_line_def by (metis append_is_Nil_conv last_in_set last_snoc list.distinct(1) in_set_conv_decomp)

lemma lines_simps [simp]: "lines [] = []" "lines (m # ms) = m @ newline # lines ms"
  "lines (ms @ ns) = lines ms @ lines ns"
  by (simp_all add: lines_def)

end
