(* ===== verification/Connection.thy ===== *)
theory Connection
  imports Broker Tokio_Io
begin

text \<open>
  The connection state machine, \<open>src/server/src/chat/connection.rs\<close>. A connection is an
  asynchronous task; \<open>poll_connection\<close> is one poll of it, up to the end of one iteration of
  \<open>run_state_machine\<close> or until the task has to wait. What the outside world does meanwhile is
  the argument \<open>tick_env\<close>: bytes and end of the input, a change of the shutdown channel, the
  expiry of the read timeout, whether the lock of the registry is obtained in time, and the
  clock. \<open>sk_await\<close> is the point at which the task waits: at the top of the loop, in
  \<open>wait_for_input\<close>, in the loop that discards the rest of an overlong line, or in the rate
  limiter with the line that it has read still in the buffer.

  The handlers thread the broker (shared by all connections) and the socket of the connection;
  a \<open>?\<close> is \<open>try_bind\<close>. The tokio channel of a connection has the number of the connection, and
  \<open>tx\<close>, \<open>rx\<close> are its two ends. A joined user keeps a sender of its own channel, so the
  channel always has a sender. Log output is not modelled.
\<close>

definition USER_CHANNEL_BUFFER_SIZE :: nat where
  "USER_CHANNEL_BUFFER_SIZE = 256"

datatype connection_error = CE_Io io_error | CE_Timeout | CE_MessageTooLong

definition connection_error_to_string :: "connection_error \<Rightarrow> rstr" where
  "connection_error_to_string e =
     (case e of
        CE_Io err \<Rightarrow> lit ''IO error: '' @ err
      | CE_Timeout \<Rightarrow> lit ''read timeout''
      | CE_MessageTooLong \<Rightarrow> lit ''message too long (max '' @ show_nat MAX_CLIENT_BUFFER_SIZE @ lit '' bytes)'')"

record unauthenticated =
  ua_addr :: rstr
  ua_tx :: chan_id
  ua_rx :: chan_id

record 'g joined =
  jn_user :: user
  jn_addr :: rstr
  jn_rx :: chan_id
  jn_rate_limiter :: "'g rate_limiter"

datatype 'g connection_state = Unauthenticated unauthenticated | Joined "'g joined" | Disconnected

text \<open>The broker and the socket of one connection.\<close>

datatype await = Aw_Top | Aw_Input | Aw_Discard | Aw_Limit

record sock =
  sk_reader :: reader
  sk_writer :: writer
  sk_buf :: "byte list"
  sk_await :: await

record ('q, 'c) io =
  io_broker :: "('q, 'c) broker"
  io_sock :: sock

definition upd_sock :: "(sock \<Rightarrow> sock) \<Rightarrow> ('q, 'c) io \<Rightarrow> ('q, 'c) io" where
  "upd_sock f io = io\<lparr>io_sock := f (io_sock io)\<rparr>"

definition buf_clear :: "('q, 'c) io \<Rightarrow> ('q, 'c) io" where
  "buf_clear = upd_sock (\<lambda>s. s\<lparr>sk_buf := []\<rparr>)"

definition set_await :: "await \<Rightarrow> ('q, 'c) io \<Rightarrow> ('q, 'c) io" where
  "set_await a = upd_sock (\<lambda>s. s\<lparr>sk_await := a\<rparr>)"

text \<open>A writer operation followed by \<open>?\<close>, which wraps its error in \<open>ConnectionError::Io\<close>.\<close>

definition on_writer ::
    "(writer \<Rightarrow> (io_error, 'a) result \<times> writer) \<Rightarrow> ('q, 'c) io \<Rightarrow> (connection_error, 'a) result \<times> ('q, 'c) io" where
  "on_writer f io =
     (case f (sk_writer (io_sock io)) of
        (r, w) \<Rightarrow> (map_err CE_Io r, upd_sock (\<lambda>s. s\<lparr>sk_writer := w\<rparr>) io))"

definition unauthenticated_new ::
    "('q, 'c, 'g) libs \<Rightarrow> chan_id \<Rightarrow> rstr \<Rightarrow> ('q, 'c) broker \<Rightarrow> unauthenticated \<times> ('q, 'c) broker" where
  "unauthenticated_new L cid addr b =
     (\<lparr> ua_addr = addr, ua_tx = cid, ua_rx = cid \<rparr>,
      b\<lparr>bk_channels := (bk_channels b)(cid := mp_channel (lb_mp L) USER_CHANNEL_BUFFER_SIZE)\<rparr>)"

definition unauthenticated_join ::
    "('q, 'c, 'g) libs \<Rightarrow> bool \<Rightarrow> unauthenticated \<Rightarrow> rstr \<Rightarrow> ('q, 'c) broker
     \<Rightarrow> (unauthenticated \<times> rstr, 'g joined) result \<times> ('q, 'c) broker" where
  "unauthenticated_join L locked self raw_username b =
     (case username_new (lb_unicode L) (lb_sz L) raw_username of
        Inl e \<Rightarrow> (Inl (self, user_error_to_string e), b)
      | Inr username \<Rightarrow>
          (case register (lb_unicode L) (lb_sz L) locked (broker_registry b) username (ua_tx self) of
             (Inr registered_user, users') \<Rightarrow>
               (Inr \<lparr> jn_user = registered_user, jn_addr = ua_addr self, jn_rx = ua_rx self,
                      jn_rate_limiter = rate_limiter_new (lb_gov L) \<rparr>,
                b\<lparr>bk_registry := users'\<rparr>)
           | (Inl e, users') \<Rightarrow> (Inl (self, user_error_to_string e), b\<lparr>bk_registry := users'\<rparr>)))"

text \<open>The loop \<open>while let Ok(msg) = self.rx.try_recv()\<close>. The fuel is the number of messages in the
  channel plus one; \<open>drain_loop_enough\<close> shows that more fuel changes nothing.\<close>

fun drain_loop ::
    "('q, 'c, 'g) libs \<Rightarrow> chan_id \<Rightarrow> nat \<Rightarrow> ('q, 'c) io \<Rightarrow> (connection_error, unit) result \<times> ('q, 'c) io" where
  "drain_loop L rx 0 io = (Inr (), io)"
| "drain_loop L rx (Suc n) io =
     (let b = io_broker io in
      case mp_try_recv (lb_mp L) (bk_channels b rx) of
        (None, c') \<Rightarrow> (Inr (), io\<lparr>io_broker := b\<lparr>bk_channels := (bk_channels b)(rx := c')\<rparr>\<rparr>)
      | (Some msg, c') \<Rightarrow>
          try_bind (on_writer (write_line msg)
                      (io\<lparr>io_broker := b\<lparr>bk_channels := (bk_channels b)(rx := c')\<rparr>\<rparr>))
            (\<lambda>_ io. drain_loop L rx n io))"

definition drain_broadcasts ::
    "('q, 'c, 'g) libs \<Rightarrow> 'g joined \<Rightarrow> ('q, 'c) io \<Rightarrow> (connection_error, unit) result \<times> ('q, 'c) io" where
  "drain_broadcasts L self io =
     drain_loop L (jn_rx self) (Suc (length (inbox L (io_broker io) (jn_rx self)))) io"

definition leave ::
    "('q, 'c, 'g) libs \<Rightarrow> bool \<Rightarrow> 'g joined \<Rightarrow> ('q, 'c) io \<Rightarrow> (user_error, bool) result \<times> ('q, 'c) io" where
  "leave L locked self io =
     (case unregister (lb_unicode L) (lb_sz L) locked (broker_registry (io_broker io)) (jn_user self) of
        (r, users') \<Rightarrow> (r, io\<lparr>io_broker := (io_broker io)\<lparr>bk_registry := users'\<rparr>\<rparr>))"

definition send_message_to_client ::
    "server_message \<Rightarrow> ('q, 'c) io \<Rightarrow> (connection_error, unit) result \<times> ('q, 'c) io" where
  "send_message_to_client msg io = on_writer (write_line (utf8 (server_message_to_string msg))) io"

text \<open>\<open>if let Err(e) = get_broker().forward_to_room(..) { send_message_to_client(Err e)?; }\<close>.\<close>

definition forward_or_report ::
    "('q, 'c, 'g) libs \<Rightarrow> byte list \<Rightarrow> ('q, 'c) io \<Rightarrow> (connection_error, unit) result \<times> ('q, 'c) io" where
  "forward_or_report L encoded io =
     (case forward_to_room L (io_broker io) encoded of
        (r, b') \<Rightarrow>
          (let io' = io\<lparr>io_broker := b'\<rparr> in
           case r of
             Inr _ \<Rightarrow> (Inr (), io')
           | Inl e \<Rightarrow> send_message_to_client (SM_Err (room_error_to_string e)) io'))"

text \<open>The result of a computation that does not have to wait, as the result of a poll.\<close>

definition ready :: "'a \<times> 's \<Rightarrow> 'a poll \<times> 's" where
  "ready m = (case m of (r, s) \<Rightarrow> (Ready r, s))"

datatype input_event =
    IE_Data nat
  | IE_Broadcast "byte list"
  | IE_Shutdown
  | IE_Timeout
  | IE_Continue

text \<open>\<open>te_shutdown\<close>: \<open>Some v\<close> when the shutdown channel has changed and holds \<open>v\<close>.\<close>

record tick_env =
  te_shutdown :: "bool option"
  te_bytes :: "byte list"
  te_input :: input_status
  te_elapsed :: bool
  te_locked :: bool
  te_now :: nat

text \<open>The third branch of the \<open>select!\<close>: reading a line under the read timeout.\<close>

definition read_branch ::
    "tick_env \<Rightarrow> ('q, 'c) io \<Rightarrow> (connection_error, input_event) result poll \<times> ('q, 'c) io" where
  "read_branch env io =
     (case read_until (MAX_CLIENT_BUFFER_SIZE + 1) (sk_buf (io_sock io)) (sk_reader (io_sock io)) of
        (p, buf', r') \<Rightarrow>
          (let io' = upd_sock (\<lambda>s. s\<lparr>sk_buf := buf', sk_reader := r'\<rparr>) io in
           case p of
             Ready (Inr n) \<Rightarrow>
               (if n > MAX_CLIENT_BUFFER_SIZE then (Ready (Inl CE_MessageTooLong), io')
                else (Ready (Inr (IE_Data n)), io'))
           | Ready (Inl e) \<Rightarrow> (Ready (Inl (CE_Io e)), io')
           | Pending \<Rightarrow>
               (if te_elapsed env then (Ready (Inr IE_Timeout), io') else (Pending, io'))))"

definition wait_for_input ::
    "('q, 'c, 'g) libs \<Rightarrow> tick_env \<Rightarrow> chan_id option \<Rightarrow> ('q, 'c) io
     \<Rightarrow> (connection_error, input_event) result poll \<times> ('q, 'c) io" where
  "wait_for_input L env rx io =
     (case te_shutdown env of
        Some v \<Rightarrow> (Ready (Inr (if v then IE_Shutdown else IE_Continue)), io)
      | None \<Rightarrow>
        (let b = io_broker io;
             (maybe_msg, b') =
               (case rx of
                  None \<Rightarrow> (Pending, b)
                | Some r \<Rightarrow>
                    (case mp_recv (lb_mp L) (bk_channels b r) of
                       (p, c') \<Rightarrow> (p, b\<lparr>bk_channels := (bk_channels b)(r := c')\<rparr>)));
             io' = io\<lparr>io_broker := b'\<rparr>
         in case maybe_msg of
              Ready None \<Rightarrow> (Ready (Inr IE_Continue), io')
            | Ready (Some msg) \<Rightarrow> (Ready (Inr (IE_Broadcast msg)), io')
            | Pending \<Rightarrow> read_branch env io'))"

definition unauthenticated_event ::
    "('q, 'c, 'g) libs \<Rightarrow> tick_env \<Rightarrow> unauthenticated \<Rightarrow> input_event \<Rightarrow> ('q, 'c) io
     \<Rightarrow> (connection_error, 'g connection_state) result \<times> ('q, 'c) io" where
  "unauthenticated_event L env state event io =
     (case event of
        IE_Broadcast _ \<Rightarrow> (Inr (Unauthenticated state), io)
      | IE_Shutdown \<Rightarrow> (Inr Disconnected, io)
      | IE_Continue \<Rightarrow> (Inr (Unauthenticated state), io)
      | IE_Timeout \<Rightarrow> (Inl CE_Timeout, io)
      | IE_Data n \<Rightarrow>
        if n = 0 then (Inr Disconnected, io)
        else (case decode_client (lb_unicode L) (lb_sz L) (sk_buf (io_sock io)) of
          Inr (CM_Join username) \<Rightarrow>
            (case unauthenticated_join L (te_locked env) state username (io_broker io) of
               (Inr joined, b') \<Rightarrow>
                 try_bind (forward_or_report L (encode_server (SM_UserJoined username)) (io\<lparr>io_broker := b'\<rparr>))
                   (\<lambda>_ io. try_bind (send_message_to_client SM_Ok io) (\<lambda>_ io. (Inr (Joined joined), io)))
             | (Inl (returned_state, reason), b') \<Rightarrow>
                 try_bind (send_message_to_client (SM_Err reason) (io\<lparr>io_broker := b'\<rparr>))
                   (\<lambda>_ io. (Inr (Unauthenticated returned_state), io)))
        | Inr _ \<Rightarrow>
            try_bind (send_message_to_client (SM_Err (lit ''must join first'')) io)
              (\<lambda>_ io. (Inr (Unauthenticated state), io))
        | Inl e \<Rightarrow>
            try_bind (send_message_to_client (SM_Err (client_parse_error_to_string e)) io)
              (\<lambda>_ io. (Inr (Unauthenticated state), io))))"

definition tick_unauthenticated ::
    "('q, 'c, 'g) libs \<Rightarrow> tick_env \<Rightarrow> unauthenticated \<Rightarrow> ('q, 'c) io
     \<Rightarrow> (connection_error, 'g connection_state) result poll \<times> ('q, 'c) io" where
  "tick_unauthenticated L env state io =
     (case wait_for_input L env (Some (ua_rx state)) io of
        (Pending, io') \<Rightarrow> (Pending, io')
      | (Ready (Inl e), io') \<Rightarrow> (Ready (Inl e), io')
      | (Ready (Inr event), io') \<Rightarrow>
          ready (unauthenticated_event L env state event io'))"

text \<open>The loop that discards the rest of an overlong line, one poll of it; \<open>buf\<close> holds what the
  current \<open>read_until\<close> has read.\<close>

function discard_line ::
    "byte list \<Rightarrow> reader \<Rightarrow> (io_error, unit) result poll \<times> byte list \<times> reader" where
  "discard_line buf r =
     (case read_until MAX_CLIENT_MESSAGE_LENGTH buf r of
        (Pending, buf', r') \<Rightarrow> (Pending, buf', r')
      | (Ready (Inl e), buf', r') \<Rightarrow> (Ready (Inl e), buf', r')
      | (Ready (Inr n), buf', r') \<Rightarrow>
          if n = 0 \<or> ends_line buf' then (Ready (Inr ()), buf', r') else discard_line [] r')"
  by pat_completeness auto
termination
  by (relation "measure (\<lambda>(buf, r). length buf + length (rd_data r))") (auto dest: read_until_shrinks [OF sym])

definition finish_too_long ::
    "'g joined \<Rightarrow> ('q, 'c) io \<Rightarrow> (connection_error, 'g connection_state) result \<times> ('q, 'c) io" where
  "finish_too_long joined io =
     try_bind (send_message_to_client (SM_Err (connection_error_to_string CE_MessageTooLong)) (buf_clear io))
       (\<lambda>_ io. (Inr (Joined joined), io))"

definition poll_discard ::
    "'g joined \<Rightarrow> ('q, 'c) io \<Rightarrow> (connection_error, 'g connection_state) result poll \<times> ('q, 'c) io" where
  "poll_discard joined io =
     (case discard_line (sk_buf (io_sock io)) (sk_reader (io_sock io)) of
        (p, buf', r') \<Rightarrow>
          (let io' = upd_sock (\<lambda>s. s\<lparr>sk_buf := buf', sk_reader := r', sk_await := Aw_Discard\<rparr>) io in
           case p of
             Pending \<Rightarrow> (Pending, io')
           | Ready (Inl e) \<Rightarrow> (Ready (Inl (CE_Io e)), io')
           | Ready (Inr _) \<Rightarrow> ready (finish_too_long joined io')))"

text \<open>One poll. A message to be sent waits for the rate limiter; the task is then polled again with
  the same line in the buffer.\<close>

definition handle_joined_message ::
    "('q, 'c, 'g) libs \<Rightarrow> tick_env \<Rightarrow> 'g joined \<Rightarrow> ('q, 'c) io
     \<Rightarrow> (connection_error, bool \<times> 'g joined) result poll \<times> ('q, 'c) io" where
  "handle_joined_message L env joined io =
     (case decode_client (lb_unicode L) (lb_sz L) (sk_buf (io_sock io)) of
        Inr (CM_Send message) \<Rightarrow>
          (case acquire (lb_gov L) (jn_rate_limiter joined) (te_now env) of
             Pending \<Rightarrow> (Pending, set_await Aw_Limit io)
           | Ready rl' \<Rightarrow>
               ready (try_bind
                 (forward_or_report L
                    (encode_server (SM_Broadcast (username_to_string (get_username (jn_user joined))) message)) io)
                 (\<lambda>_ io. (Inr (False, joined\<lparr>jn_rate_limiter := rl'\<rparr>), io))))
      | Inr CM_Leave \<Rightarrow> ready (Inr (True, joined), io)
      | Inr (CM_Join _) \<Rightarrow>
          ready (try_bind (send_message_to_client (SM_Err (lit ''invlaid command for `Joined state`'')) io)
            (\<lambda>_ io. (Inr (False, joined), io)))
      | Inl e \<Rightarrow>
          ready (try_bind (send_message_to_client (SM_Err (client_parse_error_to_string e)) io)
            (\<lambda>_ io. (Inr (False, joined), io))))"

text \<open>The arm of \<open>tick_joined\<close> for a line that has been read.\<close>

definition joined_line ::
    "('q, 'c, 'g) libs \<Rightarrow> tick_env \<Rightarrow> 'g joined \<Rightarrow> ('q, 'c) io
     \<Rightarrow> (connection_error, 'g connection_state) result poll \<times> ('q, 'c) io" where
  "joined_line L env joined io =
     (case handle_joined_message L env joined io of
        (Pending, io') \<Rightarrow> (Pending, io')
      | (Ready r, io') \<Rightarrow>
          ready (try_bind (r, io')
            (\<lambda>(should_disconnect, joined') io.
               if should_disconnect then
                 try_bind (drain_broadcasts L joined' io)
                   (\<lambda>_ io. (Inr Disconnected, snd (leave L (te_locked env) joined' io)))
               else (Inr (Joined joined'), io))))"

definition joined_event ::
    "('q, 'c, 'g) libs \<Rightarrow> tick_env \<Rightarrow> 'g joined \<Rightarrow> input_event \<Rightarrow> ('q, 'c) io
     \<Rightarrow> (connection_error, 'g connection_state) result poll \<times> ('q, 'c) io" where
  "joined_event L env joined event io =
     (case event of
        IE_Broadcast msg \<Rightarrow>
          ready (try_bind (on_writer (write_line msg) io) (\<lambda>_ io. (Inr (Joined joined), io)))
      | IE_Shutdown \<Rightarrow>
          ready (try_bind (drain_broadcasts L joined io)
            (\<lambda>_ io. (Inr Disconnected, snd (leave L (te_locked env) joined io))))
      | IE_Timeout \<Rightarrow> ready (Inr (Joined joined), io)
      | IE_Continue \<Rightarrow> ready (Inr (Joined joined), io)
      | IE_Data n \<Rightarrow>
        if n = 0 then
          ready (try_bind (drain_broadcasts L joined io)
            (\<lambda>_ io.
               try_bind
                 (forward_or_report L
                    (encode_server (SM_UserLeft (username_to_string (get_username (jn_user joined)))))
                    (snd (leave L (te_locked env) joined io)))
                 (\<lambda>_ io. (Inr Disconnected, io))))
        else joined_line L env joined io)"

definition tick_joined ::
    "('q, 'c, 'g) libs \<Rightarrow> tick_env \<Rightarrow> 'g joined \<Rightarrow> ('q, 'c) io
     \<Rightarrow> (connection_error, 'g connection_state) result poll \<times> ('q, 'c) io" where
  "tick_joined L env joined io =
     (if sk_await (io_sock io) = Aw_Discard then poll_discard joined io
      else if sk_await (io_sock io) = Aw_Limit then joined_line L env joined io
      else (case wait_for_input L env (Some (jn_rx joined)) io of
        (Pending, io') \<Rightarrow> (Pending, io')
      | (Ready (Inl CE_MessageTooLong), io') \<Rightarrow>
          (if \<not> ends_line (sk_buf (io_sock io')) then poll_discard joined (buf_clear io')
           else ready (finish_too_long joined io'))
      | (Ready (Inl e), io') \<Rightarrow> (Ready (Inl e), io')
      | (Ready (Inr event), io') \<Rightarrow> joined_event L env joined event io'))"

text \<open>A connection: \<open>cn_result\<close> is the result of \<open>run_state_machine\<close> once it has returned.\<close>

record 'g connection =
  cn_state :: "'g connection_state"
  cn_sock :: sock
  cn_result :: "(connection_error, unit) result option"

definition handle_connection ::
    "('q, 'c, 'g) libs \<Rightarrow> chan_id \<Rightarrow> rstr \<Rightarrow> reader \<Rightarrow> writer \<Rightarrow> ('q, 'c) broker
     \<Rightarrow> 'g connection \<times> ('q, 'c) broker" where
  "handle_connection L cid addr reader writer b =
     (case unauthenticated_new L cid addr b of
        (unauth, b') \<Rightarrow>
          (\<lparr> cn_state = Unauthenticated unauth,
             cn_sock = \<lparr> sk_reader = reader, sk_writer = writer, sk_buf = [], sk_await = Aw_Top \<rparr>,
             cn_result = None \<rparr>, b'))"

text \<open>The head of an iteration: pending broadcasts are written, the buffer is cleared.\<close>

definition begin_tick ::
    "('q, 'c, 'g) libs \<Rightarrow> 'g connection_state \<Rightarrow> ('q, 'c) io \<Rightarrow> (connection_error, unit) result \<times> ('q, 'c) io" where
  "begin_tick L state io =
     (if sk_await (io_sock io) \<noteq> Aw_Top then (Inr (), io)
      else (case state of
        Unauthenticated _ \<Rightarrow> (Inr (), set_await Aw_Input (buf_clear io))
      | Joined joined \<Rightarrow>
          try_bind (drain_broadcasts L joined io) (\<lambda>_ io. (Inr (), set_await Aw_Input (buf_clear io)))
      | Disconnected \<Rightarrow> (Inr (), io)))"

definition tick ::
    "('q, 'c, 'g) libs \<Rightarrow> tick_env \<Rightarrow> 'g connection_state \<Rightarrow> ('q, 'c) io
     \<Rightarrow> (connection_error, 'g connection_state) result poll \<times> ('q, 'c) io" where
  "tick L env state io =
     (case state of
        Unauthenticated unauth \<Rightarrow> tick_unauthenticated L env unauth io
      | Joined joined \<Rightarrow> tick_joined L env joined io
      | Disconnected \<Rightarrow> (Ready (Inr Disconnected), io))"

text \<open>\<open>run_state_machine\<close> returns; its receiver is dropped.\<close>

definition finish ::
    "('q, 'c, 'g) libs \<Rightarrow> chan_id \<Rightarrow> (connection_error, unit) result \<Rightarrow> ('q, 'c) io
     \<Rightarrow> 'g connection \<times> ('q, 'c) broker" where
  "finish L cid r io =
     (let b = io_broker io in
      (\<lparr> cn_state = Disconnected, cn_sock = io_sock io, cn_result = Some r \<rparr>,
       b\<lparr>bk_channels := (bk_channels b)(cid := mp_drop_receiver (lb_mp L) (bk_channels b cid))\<rparr>))"

definition poll_connection ::
    "('q, 'c, 'g) libs \<Rightarrow> tick_env \<Rightarrow> chan_id \<Rightarrow> 'g connection \<Rightarrow> ('q, 'c) broker
     \<Rightarrow> 'g connection \<times> ('q, 'c) broker" where
  "poll_connection L env cid cn b =
     (if cn_result cn \<noteq> None then (cn, b)
      else
        (let s = cn_sock cn;
             io = \<lparr> io_broker = b,
                    io_sock = s\<lparr>sk_reader := arrive (te_bytes env) (te_input env) (sk_reader s)\<rparr> \<rparr>
         in case begin_tick L (cn_state cn) io of
              (Inl e, io') \<Rightarrow> finish L cid (Inl e) io'
            | (Inr _, io') \<Rightarrow>
                (case tick L env (cn_state cn) io' of
                   (Pending, io'') \<Rightarrow> (cn\<lparr>cn_sock := io_sock io''\<rparr>, io_broker io'')
                 | (Ready (Inl e), io'') \<Rightarrow> finish L cid (Inl e) io''
                 | (Ready (Inr Disconnected), io'') \<Rightarrow> finish L cid (Inr ()) io''
                 | (Ready (Inr state'), io'') \<Rightarrow>
                     (cn\<lparr>cn_state := state', cn_sock := io_sock (set_await Aw_Top io'')\<rparr>, io_broker io''))))"

fun run_state_machine ::
    "('q, 'c, 'g) libs \<Rightarrow> chan_id \<Rightarrow> tick_env list \<Rightarrow> 'g connection \<Rightarrow> ('q, 'c) broker
     \<Rightarrow> 'g connection \<times> ('q, 'c) broker" where
  "run_state_machine L cid [] cn b = (cn, b)"
| "run_state_machine L cid (env # envs) cn b =
     (case poll_connection L env cid cn b of (cn', b') \<Rightarrow> run_state_machine L cid envs cn' b')"

declare discard_line.simps [simp del]

end
