(* ===== verification/Connection_Invariant.thy ===== *)
theory Connection_Invariant
  imports Connection
begin

text \<open>
  What every poll of a connection preserves, whatever the environment does.

  \<^item> Framing: all messages under way, in the room and in the channels, are encodings of server
    messages with no line feed inside, and the socket has been sent a sequence of such
    messages, one per line; only a failed write can leave the last one cut short.
  \<^item> Framing of the state: a connection changes no channel but its own, from which it only
    takes messages, and only appends to the room (\<open>frame\<close>).
  \<^item> The registry: a poll leaves it alone, or registers the connection under a free valid
    name (\<open>joins\<close>), or removes the user of the connection and ends it (\<open>leaves\<close>).

  \<open>keeps\<close> states the first two for a computation of a connection and has one rule per building
  block (\<open>keeps_bind\<close> for \<open>?\<close>), so that the proof for a handler follows its text.
\<close>

definition clean :: "rstr \<Rightarrow> bool" where
  "clean s \<longleftrightarrow> wf_str s \<and> 0x0A \<notin> set s"

definition clean_server :: "server_message \<Rightarrow> bool" where
  "clean_server m \<longleftrightarrow>
     (case m of
        SM_Ok \<Rightarrow> True
      | SM_Err r \<Rightarrow> clean r
      | SM_UserJoined u \<Rightarrow> clean u
      | SM_UserLeft u \<Rightarrow> clean u
      | SM_Broadcast u t \<Rightarrow> clean u \<and> clean t)"

definition server_text :: "byte list \<Rightarrow> bool" where
  "server_text m \<longleftrightarrow> (\<exists>sm. clean_server sm \<and> m = encode_server sm)"

definition line_buf :: "byte list \<Rightarrow> bool" where
  "line_buf buf \<longleftrightarrow> length buf \<le> MAX_CLIENT_BUFFER_SIZE
     \<and> (newline \<notin> set buf \<or> (\<exists>xs. buf = xs @ [newline] \<and> newline \<notin> set xs))"

text \<open>All messages under way, in the room and in the channels, are single-line encodings of
  server messages.\<close>

definition traffic_ok :: "('q, 'c, 'g) libs \<Rightarrow> ('q, 'c) broker \<Rightarrow> bool" where
  "traffic_ok L b \<longleftrightarrow> room_ok (lb_cb L) (bk_room b) \<and> list_all server_text (queued L b)
     \<and> (\<forall>tx. list_all server_text (inbox L b tx))"

definition whole_lines :: "writer \<Rightarrow> bool" where
  "whole_lines w \<longleftrightarrow> (\<exists>ms. wr_out w = lines ms \<and> list_all server_text ms)"

definition cut_lines :: "writer \<Rightarrow> bool" where
  "cut_lines w \<longleftrightarrow> (\<exists>ms m k. wr_out w = lines ms @ take k m \<and> list_all server_text ms \<and> server_text m)"

text \<open>What connection \<open>cid\<close> leaves alone in the broker: the channels of the others, the flags and
  the task of the dispatcher, and the messages already in the room. From its own channel it only takes
  messages. \<open>frame\<close> is the stronger relation that holds until the connection ends.\<close>

definition outer_frame :: "('q, 'c, 'g) libs \<Rightarrow> chan_id \<Rightarrow> ('q, 'c) broker \<Rightarrow> ('q, 'c) broker \<Rightarrow> bool" where
  "outer_frame L cid b b' \<longleftrightarrow>
     (\<forall>tx. tx \<noteq> cid \<longrightarrow> bk_channels b' tx = bk_channels b tx)
     \<and> suffix (inbox L b' cid) (inbox L b cid)
     \<and> bk_shutdown_flag b' = bk_shutdown_flag b \<and> bk_dispatcher_handle b' = bk_dispatcher_handle b
     \<and> bk_task b' = bk_task b
     \<and> prefix (queued L b) (queued L b')
     \<and> room_capacity (lb_cb L) (bk_room b') = room_capacity (lb_cb L) (bk_room b)"

definition frame :: "('q, 'c, 'g) libs \<Rightarrow> chan_id \<Rightarrow> ('q, 'c) broker \<Rightarrow> ('q, 'c) broker \<Rightarrow> bool" where
  "frame L cid b b' \<longleftrightarrow>
     outer_frame L cid b b' \<and> mp_same (lb_mp L) (bk_channels b cid) (bk_channels b' cid)"

text \<open>A computation of connection \<open>cid\<close> that was well-behaved up to its end: the rest of the
  broker is framed, the traffic is well-formed, and the socket has been sent whole lines, the
  last of them possibly cut short if the computation failed.\<close>

definition good :: "('q, 'c, 'g) libs \<Rightarrow> ('q, 'c) io \<Rightarrow> bool" where
  "good L io \<longleftrightarrow> libs_ok L \<and> traffic_ok L (io_broker io) \<and> whole_lines (sk_writer (io_sock io))"

definition keeps ::
    "('q, 'c, 'g) libs \<Rightarrow> chan_id \<Rightarrow> ('q, 'c) io \<Rightarrow> (connection_error, 'a) result \<times> ('q, 'c) io \<Rightarrow> bool" where
  "keeps L cid io res \<longleftrightarrow>
     frame L cid (io_broker io) (io_broker (snd res)) \<and> traffic_ok L (io_broker (snd res))
     \<and> (case fst res of Inr _ \<Rightarrow> whole_lines (sk_writer (io_sock (snd res)))
                      | Inl _ \<Rightarrow> cut_lines (sk_writer (io_sock (snd res))))"

definition state_ok :: "('q, 'c, 'g) libs \<Rightarrow> chan_id \<Rightarrow> 'g connection_state \<Rightarrow> bool" where
  "state_ok L cid st \<longleftrightarrow>
     (case st of
        Unauthenticated u \<Rightarrow> ua_tx u = cid \<and> ua_rx u = cid
      | Joined j \<Rightarrow> jn_rx j = cid \<and> u_tx (jn_user j) = cid
                    \<and> valid_username (lb_unicode L) (u_username (jn_user j))
      | Disconnected \<Rightarrow> True)"

text \<open>The buffer of a read under way holds no line feed and has not reached the limit.\<close>

definition open_buf :: "nat \<Rightarrow> byte list \<Rightarrow> bool" where
  "open_buf limit buf \<longleftrightarrow> newline \<notin> set buf \<and> length buf < limit"

definition res_ok :: "('a \<Rightarrow> bool) \<Rightarrow> ('e, 'a) result \<times> 's \<Rightarrow> bool" where
  "res_ok P res \<longleftrightarrow> (case fst res of Inr x \<Rightarrow> P x | Inl _ \<Rightarrow> True)"

text \<open>What \<open>wait_for_input\<close> guarantees when it returns or keeps waiting.\<close>

definition input_ok :: "(connection_error, input_event) result poll \<Rightarrow> ('q, 'c) io \<Rightarrow> bool" where
  "input_ok p io \<longleftrightarrow>
     (case p of
        Pending \<Rightarrow> open_buf (Suc MAX_CLIENT_BUFFER_SIZE) (sk_buf (io_sock io))
      | Ready (Inr (IE_Data n)) \<Rightarrow> line_buf (sk_buf (io_sock io)) \<and> n = length (sk_buf (io_sock io))
      | Ready (Inr (IE_Broadcast m)) \<Rightarrow> server_text m
      | _ \<Rightarrow> True)"

definition sock_ok :: "'g connection_state \<Rightarrow> sock \<Rightarrow> bool" where
  "sock_ok st s \<longleftrightarrow>
     (case sk_await s of
        Aw_Top \<Rightarrow> True
      | Aw_Input \<Rightarrow> open_buf (Suc MAX_CLIENT_BUFFER_SIZE) (sk_buf s)
      | Aw_Discard \<Rightarrow> open_buf MAX_CLIENT_MESSAGE_LENGTH (sk_buf s) \<and> (\<exists>j. st = Joined j)
      | Aw_Limit \<Rightarrow> line_buf (sk_buf s) \<and> (\<exists>j. st = Joined j))"

definition conn_ok :: "('q, 'c, 'g) libs \<Rightarrow> chan_id \<Rightarrow> 'g connection \<Rightarrow> bool" where
  "conn_ok L cid cn \<longleftrightarrow>
     (case cn_result cn of
        None \<Rightarrow> state_ok L cid (cn_state cn) \<and> cn_state cn \<noteq> Disconnected \<and> sock_ok (cn_state cn) (cn_sock cn)
                \<and> whole_lines (sk_writer (cn_sock cn))
      | Some _ \<Rightarrow> cn_state cn = Disconnected \<and> cut_lines (sk_writer (cn_sock cn)))"

text \<open>A poll of \<open>tick\<close>: either it completes well-behaved, or it waits with the socket in order.\<close>

definition poll_keeps ::
    "('q, 'c, 'g) libs \<Rightarrow> chan_id \<Rightarrow> 'g connection_state \<Rightarrow> ('q, 'c) io
     \<Rightarrow> (connection_error, 'g connection_state) result poll \<times> ('q, 'c) io \<Rightarrow> bool" where
  "poll_keeps L cid st io res \<longleftrightarrow>
     (case fst res of
        Pending \<Rightarrow> frame L cid (io_broker io) (io_broker (snd res)) \<and> good L (snd res)
                   \<and> sock_ok st (io_sock (snd res))
      | Ready r \<Rightarrow> keeps L cid io (r, snd res) \<and> res_ok (state_ok L cid) (r, snd res))"

text \<open>The users that a computation finds.\<close>

definition users_of :: "('q, 'c) io \<Rightarrow> user_registry" where
  "users_of io = bk_registry (io_broker io)"

text \<open>Joining: the only way a user enters the registry.\<close>

definition joins ::
    "('q, 'c, 'g) libs \<Rightarrow> chan_id \<Rightarrow> user_registry \<Rightarrow> user_registry \<Rightarrow> user \<Rightarrow> bool" where
  "joins L cid users users' u \<longleftrightarrow>
     (\<exists>n. valid_username (lb_unicode L) n \<and> u = user_new n cid
          \<and> map_of users (from_username (lb_unicode L) (lb_sz L) n) = None
          \<and> users' = (from_username (lb_unicode L) (lb_sz L) n, u) # users)"

definition same_user :: "'g connection_state \<Rightarrow> 'g connection_state \<Rightarrow> bool" where
  "same_user st st' \<longleftrightarrow>
     (case (st, st') of
        (Unauthenticated _, Unauthenticated _) \<Rightarrow> True
      | (Joined j, Joined j') \<Rightarrow> jn_user j' = jn_user j
      | _ \<Rightarrow> False)"

definition leaves :: "('q, 'c, 'g) libs \<Rightarrow> user_registry \<Rightarrow> user_registry \<Rightarrow> user \<Rightarrow> bool" where
  "leaves L users users' u \<longleftrightarrow>
     (\<exists>locked. users' = snd (unregister (lb_unicode L) (lb_sz L) locked users u))"

subsection \<open>Texts without a line feed\<close>

lemma newline_in_utf8 [simp]: "wf_str s \<Longrightarrow> newline \<in> set (utf8 s) \<longleftrightarrow> 0x0A \<in> set s"
  by (simp add: newline_def ascii_byte_in_utf8)

lemma clean_simps [simp]:
  "clean []" "clean (s @ t) \<longleftrightarrow> clean s \<and> clean t"
  "clean (c # s) \<longleftrightarrow> is_scalar c \<and> c \<noteq> 0x0A \<and> clean s"
  by (auto simp: clean_def)

lemma clean_subset: "clean s \<Longrightarrow> wf_str t \<Longrightarrow> set t \<subseteq> set s \<Longrightarrow> clean t"
  by (auto simp: clean_def)

lemma clean_trim: "clean s \<Longrightarrow> clean (trim s)"
  using set_trim_subset by (auto simp: clean_def)

lemma clean_words [simp]:
  "clean SERVER_EVENT_OK" "clean SERVER_EVENT_ERR" "clean SERVER_EVENT_USER_JOINED"
  "clean SERVER_EVENT_USER_LEFT" "clean SERVER_EVENT_BROADCAST" "clean FIELD_SEPARATOR"
  by (simp_all add: wire_simps FIELD_SEPARATOR_def is_scalar_def)

lemma encode_clean_text:
  assumes "clean_server m"
  obtains s where "encode_server m = utf8 s" "clean s"
  using assms by (cases m) (auto simp: encode_server_def clean_server_def simp del: utf8_simps)

lemma server_text_no_newline:
  assumes "server_text m"
  shows "newline \<notin> set m"
proof -
  from assms obtain sm where "clean_server sm" "m = encode_server sm" by (auto simp: server_text_def)
  then show ?thesis by (metis encode_clean_text clean_def newline_in_utf8)
qed

lemma encode_clean:
  assumes "clean_server m"
  shows "server_text (encode_server m)" "utf8 (server_message_to_string m) = encode_server m"
proof -
  show "server_text (encode_server m)" using assms by (auto simp: server_text_def)
  obtain s where "encode_server m = utf8 s" "clean s" using assms encode_clean_text by blast
  then show "utf8 (server_message_to_string m) = encode_server m"
    by (simp add: server_message_to_string_def from_utf8_lossy_valid clean_def)
qed

lemma clean_ascii: "list_all (\<lambda>c. c < 0x80 \<and> c \<noteq> 0x0A) s \<Longrightarrow> clean s"
  by (induction s) (auto simp: is_scalar_def)

lemma clean_errors [simp]:
  "clean (room_error_to_string e)" "clean (connection_error_to_string CE_MessageTooLong)"
  "clean (lit ''must join first'')" "clean (lit ''invlaid command for `Joined state`'')"
proof -
  show "clean (room_error_to_string e)"
    by (rule clean_ascii) (cases e; simp add: room_error_to_string_def lit_def)
  show "clean (connection_error_to_string CE_MessageTooLong)"
    by (rule clean_ascii) (simp add: connection_error_to_string_def lit_def MAX_CLIENT_BUFFER_SIZE_def
        show_nat.simps)
  show "clean (lit ''must join first'')" "clean (lit ''invlaid command for `Joined state`'')"
    by (rule clean_ascii, simp add: lit_def)+
qed

lemma clean_user_error:
  assumes "\<And>n. e = UE_UsernameTaken n \<Longrightarrow> clean n"
  shows "clean (user_error_to_string e)"
  using assms
  by (cases e) (simp_all add: user_error_to_string_def clean_ascii lit_def is_scalar_def)

lemma valid_name_clean:
  assumes "valid_username U n"
  shows "clean (username_to_string n)"
proof -
  have "\<not> is_valid_username_char U 0x0A"
    by (simp add: is_valid_username_char_def is_alphanumeric_def is_ascii_char_def is_ascii_digit_def
        is_ascii_alphabetic_def is_ascii_uppercase_def is_ascii_lowercase_def)
  then show ?thesis using assms
    by (auto simp: valid_username_def valid_name_def clean_def list_all_iff)
qed

text \<open>A client line carries no line feed in its fields, and neither do the complaints about it.\<close>

lemma line_text:
  assumes "line_buf buf" "from_utf8 buf = Some s"
  shows "clean (trim s)" "length buf \<le> usize_max"
proof -
  show "length buf \<le> usize_max"
    using assms(1) by (auto simp: line_buf_def MAX_CLIENT_BUFFER_SIZE_def usize_max_def)
  have s: "wf_str s" "utf8 s = buf" using from_utf8_sound [OF assms(2)] by blast+
  show "clean (trim s)"
  proof (cases "newline \<in> set buf")
    case False
    with s show ?thesis by (intro clean_trim) (auto simp: clean_def)
  next
    case True
    with assms(1) obtain xs where xs: "buf = xs @ [newline]" "newline \<notin> set xs"
      by (auto simp: line_buf_def)
    then obtain t where t: "s = t @ [0x0A]" "utf8 t = xs"
      using utf8_snoc_ascii [OF s(1), of xs "0x0A"] s(2) by (auto simp: newline_def)
    then have "clean t" using s(1) xs(2) newline_in_utf8 [of t] by (simp add: clean_def)
    then show ?thesis by (simp add: t trim_newline clean_trim)
  qed
qed

lemma clean_fields:
  assumes "clean s"
  shows "clean (first_field s)" "after_field s = Some t \<Longrightarrow> clean t"
  using wf_fields(1) [of s] wf_fields(2,4) [of s t] set_takeWhileD [of _ _ s] assms
  by (auto simp: clean_def first_field_def) (metis Un_iff list.set_intros(2) set_append)+

lemma decode_line_clean:
  assumes "sz_ok sz" "line_buf buf"
  shows "decode_client U sz buf = Inr (CM_Join u) \<Longrightarrow> clean u"
    "decode_client U sz buf = Inr (CM_Send t) \<Longrightarrow> clean t"
    "decode_client U sz buf = Inl e \<Longrightarrow> clean (client_parse_error_to_string e)"
proof -
  have a: "clean (lit ''empty message'')" "clean (lit ''invalid utf-8'')" "clean (lit ''unknown command: '')"
    "clean (lit ''missing field: '')" "clean (lit ''username'')" "clean (lit ''message'')"
    by (rule clean_ascii, simp add: lit_def)+
  have "case decode_client U sz buf of
      Inr (CM_Join u) \<Rightarrow> clean u | Inr (CM_Send t) \<Rightarrow> clean t | Inr CM_Leave \<Rightarrow> True
    | Inl e \<Rightarrow> clean (client_parse_error_to_string e)"
  proof (cases "\<exists>s. from_utf8 buf = Some s \<and> trim s \<noteq> []")
    case True
    then obtain s where s: "from_utf8 buf = Some s" "trim s \<noteq> []" by blast
    note lt = line_text [OF assms(2) s(1)]
    from decode_client_text [OF assms(1) lt(2) s, of U] clean_fields [OF lt(1)] a show ?thesis
      by (auto simp: match_command_def Let_def client_parse_error_to_string_def split: option.splits)
  next
    case False
    with a show ?thesis
      by (auto simp: decode_client_def client_parse_error_to_string_def split: option.splits)
  qed
  then show "decode_client U sz buf = Inr (CM_Join u) \<Longrightarrow> clean u"
    "decode_client U sz buf = Inr (CM_Send t) \<Longrightarrow> clean t"
    "decode_client U sz buf = Inl e \<Longrightarrow> clean (client_parse_error_to_string e)"
    by auto
qed

subsection \<open>Well-behaved computations\<close>

lemma frame_refl [simp]: "frame L cid b b"
  by (simp add: frame_def outer_frame_def outer_frame_def)

lemma frame_trans:
  assumes "frame L cid a b" "frame L cid b c"
  shows "frame L cid a c"
  using assms unfolding frame_def outer_frame_def
  by (auto intro: mp_same_trans suffix_order.order_trans prefix_order.order_trans)

lemma whole_cut: "whole_lines w \<Longrightarrow> cut_lines w"
proof -
  assume "whole_lines w"
  then obtain ms where "wr_out w = lines ms" "list_all server_text ms" by (auto simp: whole_lines_def)
  moreover have "server_text (encode_server SM_Ok)" by (simp add: encode_clean clean_server_def)
  ultimately show ?thesis unfolding cut_lines_def by (metis append_Nil2 take_0)
qed

lemma keeps_InrD: "keeps L cid io (Inr x, io') \<Longrightarrow> good L io \<Longrightarrow> good L io'"
  by (simp add: keeps_def good_def)

lemma keeps_pure [simp]: "good L io \<Longrightarrow> keeps L cid io (Inr x, io)"
  by (simp add: keeps_def good_def)

lemma keeps_fail [simp]: "good L io \<Longrightarrow> keeps L cid io (Inl e, io)"
  by (simp add: keeps_def good_def whole_cut)

lemma keeps_bind:
  assumes "keeps L cid io m" "good L io"
    and "\<And>x io1. m = (Inr x, io1) \<Longrightarrow> good L io1 \<Longrightarrow> keeps L cid io1 (f x io1)"
  shows "keeps L cid io (try_bind m f)"
proof (cases m)
  case (Pair r io1)
  show ?thesis
  proof (cases r)
    case (Inl e)
    with Pair assms(1) show ?thesis by (simp add: keeps_def)
  next
    case (Inr x)
    then have k: "keeps L cid io (Inr x, io1)" using assms(1) Pair by simp
    have "keeps L cid io1 (f x io1)" using Pair Inr assms(3) keeps_InrD [OF k assms(2)] by simp
    with k Pair Inr show ?thesis by (auto simp: keeps_def intro: frame_trans)
  qed
qed

text \<open>A step that changes the broker only, within the frame, before a computation.\<close>

lemma keeps_from:
  assumes "frame L cid (io_broker io) (io_broker io1)" "keeps L cid io1 res"
  shows "keeps L cid io res"
  using assms by (auto simp: keeps_def intro: frame_trans)

lemma on_writer_fields [simp]:
  "io_broker (snd (on_writer f io)) = io_broker io"
  "sk_reader (io_sock (snd (on_writer f io))) = sk_reader (io_sock io)"
  "sk_buf (io_sock (snd (on_writer f io))) = sk_buf (io_sock io)"
  "sk_await (io_sock (snd (on_writer f io))) = sk_await (io_sock io)"
  by (simp_all add: on_writer_def upd_sock_def case_prod_beta)

lemma keeps_write_line:
  assumes "good L io" "server_text m"
  shows "keeps L cid io (on_writer (write_line m) io)"
proof -
  obtain r w where w: "write_line m (sk_writer (io_sock io)) = (r, w)" by force
  obtain ms where ms: "wr_out (sk_writer (io_sock io)) = lines ms" "list_all server_text ms"
    using assms(1) by (auto simp: good_def whole_lines_def)
  have res: "on_writer (write_line m) io = (map_err CE_Io r, upd_sock (\<lambda>s. s\<lparr>sk_writer := w\<rparr>) io)"
    using w by (simp add: on_writer_def)
  have "case map_err CE_Io r of Inr _ \<Rightarrow> whole_lines w | Inl _ \<Rightarrow> cut_lines w"
  proof (cases r)
    case (Inr u)
    then have "wr_out w = lines (ms @ [m])" using write_line_law [OF w] ms by simp
    then show ?thesis using ms assms(2) Inr by (auto simp: whole_lines_def simp del: lines_simps)
  next
    case (Inl e)
    then obtain k where "wr_out w = lines ms @ take k m" using write_line_law [OF w] ms by auto
    then show ?thesis using ms assms(2) Inl by (auto simp: cut_lines_def)
  qed
  then show ?thesis using assms(1) by (cases r) (simp_all add: res keeps_def good_def upd_sock_def)
qed

lemma keeps_send:
  assumes "good L io" "clean_server m"
  shows "keeps L cid io (send_message_to_client m io)"
  unfolding send_message_to_client_def encode_clean(2) [OF assms(2)]
  by (intro keeps_write_line assms encode_clean(1))

lemma forward_keeps:
  assumes "good L io" "server_text m" "forward_to_room L (io_broker io) m = (r, b')"
  shows "frame L cid (io_broker io) b'" "good L (io\<lparr>io_broker := b'\<rparr>)"
proof -
  have l: "libs_ok L" "room_ok (lb_cb L) (bk_room (io_broker io))"
    using assms(1) by (simp_all add: good_def traffic_ok_def)
  note law = forward_law [OF l assms(3)]
  have ch: "bk_channels b' = bk_channels (io_broker io)" "bk_shutdown_flag b' = bk_shutdown_flag (io_broker io)"
    "bk_dispatcher_handle b' = bk_dispatcher_handle (io_broker io)" "bk_task b' = bk_task (io_broker io)"
    by (subst law(5), simp)+
  show "frame L cid (io_broker io) b'" using law(2,3,4) ch by (simp add: frame_def outer_frame_def inbox_def)
  show "good L (io\<lparr>io_broker := b'\<rparr>)" using law(2,3) ch assms(1,2)
    by (simp add: good_def traffic_ok_def inbox_def)
qed

lemma keeps_forward:
  assumes "good L io" "server_text m"
  shows "keeps L cid io (forward_or_report L m io)"
proof -
  obtain r b' where f: "forward_to_room L (io_broker io) m = (r, b')" by force
  note fk = forward_keeps(1) [OF assms f, of cid] forward_keeps(2) [OF assms f]
  have "keeps L cid (io\<lparr>io_broker := b'\<rparr>) (forward_or_report L m io)"
    using fk(2) by (cases r) (simp_all add: forward_or_report_def f keeps_send clean_server_def)
  then show ?thesis by (rule keeps_from [rotated]) (simp add: fk(1))
qed

text \<open>Taking the oldest message off the own channel.\<close>

lemma pop_keeps:
  assumes "good L io" "mp_same (lb_mp L) (bk_channels (io_broker io) cid) c'"
    and "mp_messages (lb_mp L) c' = tl (inbox L (io_broker io) cid)"
    and "io' = io\<lparr>io_broker := (io_broker io)\<lparr>bk_channels := (bk_channels (io_broker io))(cid := c')\<rparr>\<rparr>"
  shows "frame L cid (io_broker io) (io_broker io')" "good L io'"
    "inbox L (io_broker io') cid = tl (inbox L (io_broker io) cid)"
proof -
  have ib: "inbox L (io_broker io') tx = (if tx = cid then tl (inbox L (io_broker io) cid) else inbox L (io_broker io) tx)" for tx
    using assms(3,4) by (simp add: inbox_def)
  show "inbox L (io_broker io') cid = tl (inbox L (io_broker io) cid)" by (simp add: ib)
  show "frame L cid (io_broker io) (io_broker io')"
    using assms(2,4) ib by (simp add: frame_def outer_frame_def queued_def suffix_tl)
  have "list_all server_text (tl xs)" if "list_all server_text xs" for xs
    using that by (cases xs) auto
  then show "good L io'" using assms(1,4) ib by (auto simp: good_def traffic_ok_def queued_def)
qed

lemma keeps_drain_loop:
  "good L io \<Longrightarrow> keeps L cid io (drain_loop L cid n io)"
proof (induction n arbitrary: io)
  case (Suc n)
  let ?b = "io_broker io"
  obtain r c' where t: "mp_try_recv (lb_mp L) (bk_channels ?b cid) = (r, c')" by force
  have "mpsc_ok (lb_mp L)" using Suc.prems by (simp add: good_def)
  note law = mpsc_try_recv [OF this t]
  define io1 where "io1 = io\<lparr>io_broker := ?b\<lparr>bk_channels := (bk_channels ?b)(cid := c')\<rparr>\<rparr>"
  note pop = pop_keeps [OF Suc.prems law(3) law(2) [folded inbox_def] io1_def]
  have "keeps L cid io1 (drain_loop L cid (Suc n) io)"
  proof (cases r)
    case None
    with t pop(2) show ?thesis by (simp add: io1_def [symmetric] Let_def)
  next
    case (Some m)
    then have "m \<in> set (inbox L ?b cid)" using law(1) by (auto simp: inbox_def split: list.splits)
    then have "server_text m" using Suc.prems by (auto simp: good_def traffic_ok_def list_all_iff)
    then have "keeps L cid io1 (try_bind (on_writer (write_line m) io1) (\<lambda>_ io. drain_loop L cid n io))"
      using pop(2) by (intro keeps_bind keeps_write_line Suc.IH)
    with Some t show ?thesis by (simp add: io1_def [symmetric] Let_def)
  qed
  then show ?case by (rule keeps_from [OF pop(1)])
qed simp

lemma keeps_drain:
  "good L io \<Longrightarrow> jn_rx j = cid \<Longrightarrow> keeps L cid io (drain_broadcasts L j io)"
  by (simp add: drain_broadcasts_def keeps_drain_loop del: drain_loop.simps)

lemma res_ok_simps [simp]: "res_ok P (Inl e, s)" "res_ok P (Inr x, s) \<longleftrightarrow> P x"
  by (simp_all add: res_ok_def)

lemma res_ok_bind:
  "(\<And>x s. m = (Inr x, s) \<Longrightarrow> res_ok P (f x s)) \<Longrightarrow> res_ok P (try_bind m f)"
  by (cases m; cases "fst m") auto

subsection \<open>Waiting for input\<close>

lemma read_branch_effect:
  assumes "open_buf (Suc MAX_CLIENT_BUFFER_SIZE) (sk_buf (io_sock io))" "read_branch env io = (p, io')"
  shows "io_broker io' = io_broker io" "sk_await (io_sock io') = sk_await (io_sock io)"
    "sk_writer (io_sock io') = sk_writer (io_sock io)" "input_ok p io'" "p \<noteq> Ready (Inr (IE_Broadcast m))"
proof -
  obtain q buf' r' where rd: "read_until (Suc MAX_CLIENT_BUFFER_SIZE) (sk_buf (io_sock io)) (sk_reader (io_sock io)) = (q, buf', r')"
    by (metis prod_cases3)
  have io': "io' = upd_sock (\<lambda>s. s\<lparr>sk_buf := buf', sk_reader := r'\<rparr>) io" and p: "p = (case q of
       Ready (Inr n) \<Rightarrow> Ready (if n > MAX_CLIENT_BUFFER_SIZE then Inl CE_MessageTooLong else Inr (IE_Data n))
     | Ready (Inl e) \<Rightarrow> Ready (Inl (CE_Io e))
     | Pending \<Rightarrow> if te_elapsed env then Ready (Inr IE_Timeout) else Pending)"
    using assms(2) rd by (auto simp: read_branch_def Let_def split: poll.splits sum.splits if_splits)
  show "io_broker io' = io_broker io" "sk_await (io_sock io') = sk_await (io_sock io)"
    "sk_writer (io_sock io') = sk_writer (io_sock io)"
    by (simp_all add: io' upd_sock_def)
  show "p \<noteq> Ready (Inr (IE_Broadcast m))" by (auto simp: p split: poll.splits sum.splits if_splits)
  have buf: "newline \<notin> set (sk_buf (io_sock io))" "length (sk_buf (io_sock io)) \<le> Suc MAX_CLIENT_BUFFER_SIZE"
    using assms(1) by (simp_all add: open_buf_def)
  have b': "sk_buf (io_sock io') = buf'" by (simp add: io' upd_sock_def)
  show "input_ok p io'"
  proof (cases q)
    case Pending
    with read_until_Pending [OF rd [unfolded Pending] buf(1)] p b' show ?thesis
      by (simp add: input_ok_def open_buf_def)
  next
    case (Ready x)
    then show ?thesis using read_until_Ready [of "Suc MAX_CLIENT_BUFFER_SIZE" _ _ _ buf' r', OF _ buf(2,1)] rd p b'
      by (cases x) (auto simp: input_ok_def line_buf_def)
  qed
qed

lemma wait_for_input_effect:
  assumes "good L io" "open_buf (Suc MAX_CLIENT_BUFFER_SIZE) (sk_buf (io_sock io))"
    and "wait_for_input L env (Some cid) io = (p, io')"
  shows "frame L cid (io_broker io) (io_broker io')" "good L io'"
    "bk_registry (io_broker io') = bk_registry (io_broker io)"
    "sk_await (io_sock io') = sk_await (io_sock io)" "sk_writer (io_sock io') = sk_writer (io_sock io)"
    "input_ok p io'"
    "p = Ready (Inr (IE_Broadcast m)) \<Longrightarrow> inbox L (io_broker io) cid = m # inbox L (io_broker io') cid"
proof -
  let ?b = "io_broker io"
  obtain r c' where rc: "mp_recv (lb_mp L) (bk_channels ?b cid) = (r, c')" by force
  have "mpsc_ok (lb_mp L)" using assms(1) by (simp add: good_def)
  note law = mpsc_recv [OF this rc]
  define io1 where "io1 = io\<lparr>io_broker := ?b\<lparr>bk_channels := (bk_channels ?b)(cid := c')\<rparr>\<rparr>"
  note pop = pop_keeps [OF assms(1) law(3) law(2) [folded inbox_def] io1_def]
  have same: "io_sock io1 = io_sock io" "bk_registry (io_broker io1) = bk_registry ?b"
    by (simp_all add: io1_def)
  have ib: "inbox L ?b cid = m # inbox L (io_broker io1) cid \<and> server_text m" if "r = Ready (Some m)" for m
  proof -
    have "inbox L ?b cid = m # tl (inbox L ?b cid)"
      using law(1) that by (auto simp: inbox_def split: list.splits if_splits)
    then show ?thesis using pop(3) assms(1) by (metis good_def list.pred_inject(2) traffic_ok_def)
  qed
  consider (shut) "io' = io" "\<exists>v. p = Ready (Inr (if v then IE_Shutdown else IE_Continue))"
    | (cont) "io' = io1" "p = Ready (Inr IE_Continue)"
    | (msg) m where "io' = io1" "p = Ready (Inr (IE_Broadcast m))" "r = Ready (Some m)"
    | (read) "read_branch env io1 = (p, io')"
    using assms(3) rc
    by (fastforce simp: wait_for_input_def Let_def io1_def split: option.splits poll.splits)
  then have "frame L cid ?b (io_broker io') \<and> good L io' \<and> bk_registry (io_broker io') = bk_registry ?b
    \<and> sk_await (io_sock io') = sk_await (io_sock io) \<and> sk_writer (io_sock io') = sk_writer (io_sock io)
    \<and> input_ok p io'
    \<and> (\<forall>m. p = Ready (Inr (IE_Broadcast m)) \<longrightarrow> inbox L ?b cid = m # inbox L (io_broker io') cid)"
  proof cases
    case read
    have ob: "open_buf (Suc MAX_CLIENT_BUFFER_SIZE) (sk_buf (io_sock io1))" using assms(2) same by simp
    note re = read_branch_effect [OF ob read]
    have "good L io'" using pop(2) re(1,3) by (simp add: good_def)
    with re same pop(1) show ?thesis by simp
  qed (use assms(1) pop same ib in \<open>auto simp: input_ok_def split: if_splits\<close>)
  then show "frame L cid ?b (io_broker io')" "good L io'"
    "bk_registry (io_broker io') = bk_registry ?b"
    "sk_await (io_sock io') = sk_await (io_sock io)" "sk_writer (io_sock io') = sk_writer (io_sock io)"
    "input_ok p io'"
    "p = Ready (Inr (IE_Broadcast m)) \<Longrightarrow> inbox L ?b cid = m # inbox L (io_broker io') cid"
    by blast+
qed

lemma ready_simps [simp]:
  "ready (r, s) = (Ready r, s)" "fst (ready m) = Ready (fst m)" "snd (ready m) = snd m"
  by (simp_all add: ready_def case_prod_beta)

lemma ready_eq [simp]: "ready m = (p, s) \<longleftrightarrow> (\<exists>r. p = Ready r \<and> m = (r, s))"
  "(p, s) = ready m \<longleftrightarrow> (\<exists>r. p = Ready r \<and> m = (r, s))"
  by (auto simp: ready_def split: prod.splits)

lemma poll_keeps_ready [simp]:
  "poll_keeps L cid st io (ready m) \<longleftrightarrow> keeps L cid io m \<and> res_ok (state_ok L cid) m"
  by (simp add: poll_keeps_def)

lemma good_upd [simp]:
  "good L (buf_clear io) \<longleftrightarrow> good L io" "good L (set_await a io) \<longleftrightarrow> good L io"
  "good L (upd_sock (\<lambda>s. s\<lparr>sk_buf := x, sk_reader := y, sk_await := a\<rparr>) io) \<longleftrightarrow> good L io"
  by (simp_all add: good_def buf_clear_def set_await_def upd_sock_def)

lemma upd_fields [simp]:
  "io_broker (buf_clear io) = io_broker io" "io_broker (set_await a io) = io_broker io"
  "io_broker (upd_sock f io) = io_broker io"
  "io_sock (upd_sock f io) = f (io_sock io)"
  "sk_buf (io_sock (buf_clear io)) = []" "sk_await (io_sock (buf_clear io)) = sk_await (io_sock io)"
  "sk_writer (io_sock (buf_clear io)) = sk_writer (io_sock io)"
  "sk_reader (io_sock (buf_clear io)) = sk_reader (io_sock io)"
  "sk_await (io_sock (set_await a io)) = a" "sk_buf (io_sock (set_await a io)) = sk_buf (io_sock io)"
  "sk_writer (io_sock (set_await a io)) = sk_writer (io_sock io)"
  by (simp_all add: buf_clear_def set_await_def upd_sock_def)

subsection \<open>Handlers\<close>

lemma join_keeps:
  assumes "libs_ok L" "state_ok L cid (Unauthenticated u :: 'g connection_state)" "clean raw"
    and "unauthenticated_join L locked u raw b = (r, b')"
  shows "b' = b\<lparr>bk_registry := bk_registry b'\<rparr>"
    "r = Inr j \<Longrightarrow> state_ok L cid (Joined j :: 'g connection_state)"
    "r = Inl (u', reason) \<Longrightarrow> u' = u \<and> clean reason"
proof -
  have sz: "sz_ok (lb_sz L)" and raw: "wf_str raw" using assms(1,3) by (simp_all add: clean_def)
  have tr: "clean (trim raw)" using assms(3) by (rule clean_trim)
  show "b' = b\<lparr>bk_registry := bk_registry b'\<rparr>"
    using assms(4) by (auto simp: unauthenticated_join_def split: sum.splits prod.splits)
  show "state_ok L cid (Joined j :: 'g connection_state)" if "r = Inr j"
    using assms(2,4) that username_new_valid [OF sz raw]
    by (auto simp: unauthenticated_join_def state_ok_def register_cases user_new_def split: sum.splits if_splits)
  show "u' = u \<and> clean reason" if "r = Inl (u', reason)"
  proof -
    have "clean (user_error_to_string e)" if "username_new (lb_unicode L) (lb_sz L) raw = Inl e" for e
      using that username_new_errors [OF sz] by (intro clean_user_error) auto
    moreover have "clean (user_error_to_string e)"
      if "username_new (lb_unicode L) (lb_sz L) raw = Inr n"
        "register (lb_unicode L) (lb_sz L) locked (bk_registry b) n tx = (Inl e, users)" for e n tx users
      using that tr username_new_iff [OF sz, of "lb_unicode L" raw n]
      by (intro clean_user_error) (auto simp: register_cases split: if_splits)
    ultimately show ?thesis using assms(4) \<open>r = Inl (u', reason)\<close>
      by (auto simp: unauthenticated_join_def split: sum.splits prod.splits)
  qed
qed

lemma registry_only_keeps:
  assumes "good L io" "b' = (io_broker io)\<lparr>bk_registry := users\<rparr>"
  shows "frame L cid (io_broker io) b'" "good L (io\<lparr>io_broker := b'\<rparr>)"
  using assms by (simp_all add: frame_def outer_frame_def good_def traffic_ok_def inbox_def queued_def)

lemma unauthenticated_event_keeps:
  assumes "good L io" "state_ok L cid (Unauthenticated u :: 'g connection_state)"
    and "input_ok (Ready (Inr event)) io"
  shows "keeps L cid io (unauthenticated_event L env u event io)
    \<and> res_ok (state_ok L cid :: 'g connection_state \<Rightarrow> bool) (unauthenticated_event L env u event io)"
proof (cases "\<exists>n. event = IE_Data n \<and> n \<noteq> 0")
  case False
  with assms show ?thesis
    by (cases event) (auto simp: unauthenticated_event_def state_ok_def)
next
  case True
  then obtain n where ev: "event = IE_Data n" "n \<noteq> 0" by blast
  have sz: "sz_ok (lb_sz L)" and L: "libs_ok L" using assms(1) by (simp_all add: good_def)
  have lb: "line_buf (sk_buf (io_sock io))" using assms(3) ev by (simp add: input_ok_def)
  note dc = decode_line_clean [OF sz lb, of "lb_unicode L"]
  let ?d = "decode_client (lb_unicode L) (lb_sz L) (sk_buf (io_sock io))"
  show ?thesis
  proof (cases "\<exists>name. ?d = Inr (CM_Join name)")
    case False
    with ev assms(1,2) dc(3) show ?thesis
      by (auto simp: unauthenticated_event_def state_ok_def clean_server_def split: sum.split client_message.split
          intro!: keeps_bind keeps_send res_ok_bind)
  next
    case True
    then obtain name where d: "?d = Inr (CM_Join name)" by blast
    obtain r b' where j: "unauthenticated_join L (te_locked env) u name (io_broker io) = (r, b')" by force
    note jk = join_keeps(1) [OF L assms(2) dc(1) [OF d] j] join_keeps(2,3) [OF L assms(2) dc(1) [OF d] j]
    note ro = registry_only_keeps [OF assms(1) jk(1)]
    have st: "server_text (encode_server (SM_UserJoined name))"
      by (rule encode_clean(1)) (simp add: clean_server_def dc(1) [OF d])
    have k: "keeps L cid (io\<lparr>io_broker := b'\<rparr>) (unauthenticated_event L env u event io)"
      using ro(2) jk(3) ev d j st
      by (auto simp: unauthenticated_event_def clean_server_def split: sum.split
          intro!: keeps_bind keeps_send keeps_forward)
    have "res_ok (state_ok L cid :: 'g connection_state \<Rightarrow> bool) (unauthenticated_event L env u event io)"
      using jk(2,3) ev d j assms(2)
      by (auto simp: unauthenticated_event_def split: sum.split intro!: res_ok_bind)
    moreover have "frame L cid (io_broker io) (io_broker (io\<lparr>io_broker := b'\<rparr>))" using ro(1) by simp
    ultimately show ?thesis using keeps_from [OF _ k] by blast
  qed
qed

lemma leave_keeps:
  assumes "good L io"
  shows "frame L cid (io_broker io) (io_broker (snd (leave L locked j io)))" "good L (snd (leave L locked j io))"
  using registry_only_keeps [OF assms, of _ "snd (unregister (lb_unicode L) (lb_sz L) locked (bk_registry (io_broker io)) (jn_user j))"]
  by (simp_all add: leave_def case_prod_beta)

lemma keeps_leave: "good L io \<Longrightarrow> keeps L cid io (Inr x, snd (leave L locked j io))"
  using leave_keeps [of L io] by (simp add: keeps_def good_def)

lemma keeps_after_leave:
  "good L io \<Longrightarrow> (good L (snd (leave L locked j io)) \<Longrightarrow> keeps L cid (snd (leave L locked j io)) res) \<Longrightarrow>
   keeps L cid io res"
  by (rule keeps_from [OF leave_keeps(1)]) (simp_all add: leave_keeps(2))

lemma handle_joined_message_keeps:
  assumes "good L io" "state_ok L cid (Joined j)" "line_buf (sk_buf (io_sock io))"
  shows "handle_joined_message L env j io = (Ready r, io') \<Longrightarrow>
      keeps L cid io (r, io') \<and> res_ok (\<lambda>(d, j'). state_ok L cid (Joined j')) (r, io')"
    "handle_joined_message L env j io = (Pending, io') \<Longrightarrow> io' = set_await Aw_Limit io"
proof -
  have sz: "sz_ok (lb_sz L)" using assms(1) by (simp add: good_def)
  note dc = decode_line_clean [OF sz assms(3), of "lb_unicode L"]
  have name: "clean (username_to_string (get_username (jn_user j)))"
    using assms(2) by (auto simp: state_ok_def get_username_def intro: valid_name_clean)
  have bind: "try_bind m f = (r, io') \<Longrightarrow> keeps L cid io (try_bind m f) \<Longrightarrow> keeps L cid io (r, io')" for m :: "(connection_error, unit) result \<times> _" and f
    by simp
  show "io' = set_await Aw_Limit io" if "handle_joined_message L env j io = (Pending, io')"
    using that by (auto simp: handle_joined_message_def split: sum.splits client_message.splits poll.splits)
  assume h: "handle_joined_message L env j io = (Ready r, io')"
  have "keeps L cid io (r, io')"
    using h assms(1) dc name
    by (auto simp: handle_joined_message_def clean_server_def split: sum.splits client_message.splits poll.splits
        elim!: bind intro!: keeps_bind keeps_send keeps_forward encode_clean(1))
  moreover have "res_ok (\<lambda>(d, j'). state_ok L cid (Joined j')) (r, io')"
    using h assms(2)
    by (cases r) (auto simp: handle_joined_message_def state_ok_def split: sum.splits client_message.splits poll.splits
        elim!: try_bind_InrD)
  ultimately show "keeps L cid io (r, io') \<and> res_ok (\<lambda>(d, j'). state_ok L cid (Joined j')) (r, io')" ..
qed

lemma joined_line_keeps:
  assumes "good L io" "state_ok L cid (Joined j)" "line_buf (sk_buf (io_sock io))"
  shows "poll_keeps L cid (Joined j) io (joined_line L env j io)"
proof -
  obtain p io1 where h: "handle_joined_message L env j io = (p, io1)" by force
  note hk = handle_joined_message_keeps [OF assms, of env]
  show ?thesis
  proof (cases p)
    case Pending
    with h hk(2) assms(1,3) show ?thesis by (simp add: joined_line_def poll_keeps_def sock_ok_def)
  next
    case (Ready r)
    with h hk(1) have k: "keeps L cid io (r, io1)" "res_ok (\<lambda>(d, j'). state_ok L cid (Joined j')) (r, io1)" by auto
    then have "jn_rx j' = cid" if "r = Inr (d, j')" for d j' using that by (simp add: state_ok_def)
    with Ready h k assms(1) show ?thesis
      by (auto simp: joined_line_def state_ok_def intro!: keeps_bind keeps_drain keeps_leave res_ok_bind)
  qed
qed

lemma joined_event_keeps:
  assumes "good L io" "state_ok L cid (Joined j)" "input_ok (Ready (Inr event)) io"
  shows "poll_keeps L cid (Joined j) io (joined_event L env j event io)"
proof -
  have rx: "jn_rx j = cid" using assms(2) by (simp add: state_ok_def)
  have name: "clean (username_to_string (get_username (jn_user j)))"
    using assms(2) by (auto simp: state_ok_def get_username_def intro: valid_name_clean)
  then have left: "server_text (encode_server (SM_UserLeft (username_to_string (get_username (jn_user j)))))"
    by (intro encode_clean(1)) (simp add: clean_server_def)
  show ?thesis
  proof (cases event)
    case (IE_Data n)
    show ?thesis
    proof (cases "n = 0")
      case True
      with IE_Data rx left assms(1) show ?thesis
        by (auto simp: joined_event_def state_ok_def intro!: keeps_bind keeps_drain keeps_forward res_ok_bind
            intro: keeps_after_leave [where j = j and locked = "te_locked env"])
    next
      case False
      with IE_Data joined_line_keeps [OF assms(1,2), of env] assms(3) show ?thesis
        by (simp add: joined_event_def input_ok_def)
    qed
  qed (use assms rx in \<open>auto simp: joined_event_def input_ok_def state_ok_def simp del: ready_simps(1)
         intro!: keeps_bind keeps_write_line keeps_drain keeps_leave res_ok_bind\<close>)
qed

subsection \<open>Discarding an overlong line\<close>

lemma read_until_Err:
  assumes "read_until limit buf r = (Ready (Inl e), buf', r')" "newline \<notin> set buf"
  shows "newline \<notin> set buf'" "rd_status r = In_Err e" "rd_data r' = []"
  using assms
  by (auto simp: read_until_def Let_def find_index_None min_def split: option.splits if_splits input_status.splits)

lemma read_until_short:
  assumes "read_until limit buf r = (Ready (Inr n), buf', r')" "newline \<notin> set buf'" "n < limit"
  shows "rd_data r' = []"
proof (cases "find_index (\<lambda>b. b = newline) (take (limit - length buf) (rd_data r))")
  case None
  with assms show ?thesis
    by (auto simp: read_until_def Let_def min_def split: if_splits input_status.splits)
next
  case (Some i)
  have "newline \<in> set (take (Suc i) (take (limit - length buf) (rd_data r)))"
    unfolding take_find_index(1) [OF Some] using take_find_index(2) [OF Some] by simp
  then have "newline \<in> set buf'" using assms(1) Some
    by (auto simp: read_until_def Let_def simp del: take_take)
  with assms(2) show ?thesis by simp
qed

lemma dropWhile_prefix: "newline \<notin> set xs \<Longrightarrow> dropWhile (\<lambda>b. b \<noteq> newline) (xs @ ys) = dropWhile (\<lambda>b. b \<noteq> newline) ys"
  by (induction xs) auto

lemma dropWhile_all: "newline \<notin> set xs \<Longrightarrow> dropWhile (\<lambda>b. b \<noteq> newline) xs = []"
  by (induction xs) auto

text \<open>The chunked loop skips the input up to and including the next line feed.\<close>

text \<open>The loop returns with the line feed, or at the end of the input.\<close>

lemma discard_stops:
  assumes "open_buf MAX_CLIENT_MESSAGE_LENGTH buf" "discard_line buf r = (p, buf', r')"
    and "read_until MAX_CLIENT_MESSAGE_LENGTH buf r = (Ready (Inr n), buf1, r1)" "newline \<in> set buf1 \<or> n = 0"
  shows "rd_data r' = tl (dropWhile (\<lambda>b. b \<noteq> newline) (buf1 @ rd_data r1)) \<and> rd_status r' = rd_status r
    \<and> p = Ready (Inr ()) \<and> (newline \<in> set (buf1 @ rd_data r1) \<or> rd_status r = In_Eof)"
proof -
  have ob: "length buf \<le> MAX_CLIENT_MESSAGE_LENGTH" "newline \<notin> set buf" using assms(1) by (simp_all add: open_buf_def)
  note f = read_until_Ready [OF assms(3) ob]
  show ?thesis
  proof (cases "newline \<in> set buf1")
    case True
    then obtain xs where xs: "buf1 = xs @ [newline]" "newline \<notin> set xs" using f(3) by auto
    then have "p = Ready (Inr ())" "r' = r1"
      using assms(2,3) by (auto simp: discard_line.simps [of buf r] ends_line_def)
    moreover have "rd_status r1 = rd_status r" using read_until_bytes [OF assms(3)] by simp
    ultimately show ?thesis using xs by (simp add: dropWhile_prefix)
  next
    case False
    then have "rd_status r = In_Eof" "rd_data r1 = []" "buf1 = []" "n = 0"
      using assms(4) f read_until_short [OF assms(3)] by (auto simp: MAX_CLIENT_MESSAGE_LENGTH_def)
    with assms(2,3) read_until_bytes [OF assms(3)] show ?thesis by (auto simp: discard_line.simps [of buf r])
  qed
qed

lemma discard_line_spec:
  assumes "open_buf MAX_CLIENT_MESSAGE_LENGTH buf" "discard_line buf r = (p, buf', r')"
  shows "rd_data r' = tl (dropWhile (\<lambda>b. b \<noteq> newline) (rd_data r)) \<and> rd_status r' = rd_status r
    \<and> p = (if newline \<in> set (rd_data r) then Ready (Inr ())
           else case rd_status r of In_Open \<Rightarrow> Pending | In_Eof \<Rightarrow> Ready (Inr ()) | In_Err e \<Rightarrow> Ready (Inl e))
    \<and> (p = Pending \<longrightarrow> open_buf MAX_CLIENT_MESSAGE_LENGTH buf')"
  using assms
proof (induction "length buf + length (rd_data r)" arbitrary: buf r rule: less_induct)
  case less
  have ob: "newline \<notin> set buf" using less.prems(1) by (simp add: open_buf_def)
  obtain q buf1 r1 where rd: "read_until MAX_CLIENT_MESSAGE_LENGTH buf r = (q, buf1, r1)" by (metis prod_cases3)
  have bytes: "buf1 @ rd_data r1 = buf @ rd_data r" "rd_status r1 = rd_status r"
    using read_until_bytes [OF rd] by simp_all
  have skip: "dropWhile (\<lambda>b. b \<noteq> newline) (rd_data r) = dropWhile (\<lambda>b. b \<noteq> newline) (buf1 @ rd_data r1)"
    "newline \<in> set (rd_data r) \<longleftrightarrow> newline \<in> set (buf1 @ rd_data r1)"
    unfolding bytes(1) using ob by (simp_all add: dropWhile_prefix)
  consider (pend) "q = Pending" | (err) e where "q = Ready (Inl e)"
    | (stop) n where "q = Ready (Inr n)" "newline \<in> set buf1 \<or> n = 0"
    | (more) n where "q = Ready (Inr n)" "newline \<notin> set buf1" "n \<noteq> 0"
    by (metis poll.exhaust sum.exhaust)
  then show ?case
  proof cases
    case pend
    note f = read_until_Pending [OF rd [unfolded pend] ob]
    with less.prems(2) rd pend skip bytes show ?thesis by (auto simp: discard_line.simps [of buf r] open_buf_def dropWhile_all)
  next
    case err
    note f = read_until_Err [OF rd [unfolded err] ob]
    with less.prems(2) rd err skip bytes show ?thesis by (auto simp: discard_line.simps [of buf r] dropWhile_all)
  next
    case stop
    from discard_stops [OF less.prems rd [unfolded stop(1)] stop(2)] skip show ?thesis by auto
  next
    case more
    then have "discard_line [] r1 = (p, buf', r')"
      using less.prems(2) rd ends_line_iff [of buf1] by (simp add: discard_line.simps [of buf r])
    moreover have "open_buf MAX_CLIENT_MESSAGE_LENGTH []" by (simp add: open_buf_def MAX_CLIENT_MESSAGE_LENGTH_def)
    moreover have "length (rd_data r1) < length buf + length (rd_data r)"
      using read_until_shrinks [OF rd [unfolded more(1)]] more(3) by simp
    ultimately show ?thesis using less.hyps [of "[]" r1] skip bytes(2) more(2) by (simp add: dropWhile_prefix)
  qed
qed

subsection \<open>One poll of a connection\<close>

lemma finish_too_long_keeps:
  assumes "good L io" "state_ok L cid (Joined j)"
  shows "keeps L cid io (finish_too_long j io)" "res_ok (state_ok L cid) (finish_too_long j io)"
proof -
  have "keeps L cid (buf_clear io) (finish_too_long j io)"
    unfolding finish_too_long_def using assms
    by (intro keeps_bind keeps_send) (simp_all add: clean_server_def)
  then show "keeps L cid io (finish_too_long j io)" by (rule keeps_from [rotated]) simp
  show "res_ok (state_ok L cid) (finish_too_long j io)"
    using assms(2) by (auto simp: finish_too_long_def intro!: res_ok_bind)
qed

lemma poll_discard_keeps:
  assumes "good L io" "state_ok L cid (Joined j)" "open_buf MAX_CLIENT_MESSAGE_LENGTH (sk_buf (io_sock io))"
  shows "poll_keeps L cid (Joined j) io (poll_discard j io)"
proof -
  obtain p buf' r' where d: "discard_line (sk_buf (io_sock io)) (sk_reader (io_sock io)) = (p, buf', r')"
    by (metis prod_cases3)
  let ?io' = "upd_sock (\<lambda>s. s\<lparr>sk_buf := buf', sk_reader := r', sk_await := Aw_Discard\<rparr>) io"
  have g: "good L ?io'" using assms(1) by simp
  have fr: "frame L cid (io_broker io) (io_broker ?io')" by simp
  have "p = Pending \<Longrightarrow> open_buf MAX_CLIENT_MESSAGE_LENGTH buf'" using discard_line_spec [OF assms(3) d] by blast
  moreover have "keeps L cid io (Inl e, ?io')" for e :: connection_error
    using keeps_from [OF fr keeps_fail [OF g]] .
  moreover have "keeps L cid io (finish_too_long j ?io')"
    using keeps_from [OF fr finish_too_long_keeps(1) [OF g assms(2)]] .
  moreover note finish_too_long_keeps(2) [OF g assms(2)]
  ultimately show ?thesis using d g fr
    by (auto simp: poll_discard_def poll_keeps_def Let_def sock_ok_def split: poll.split sum.split prod.split)
qed

lemma tick_unauthenticated_keeps:
  fixes L :: "('q, 'c, 'g) libs"
  assumes "good L io" "state_ok L cid (Unauthenticated u :: 'g connection_state)"
    and "sk_await (io_sock io) = Aw_Input" "open_buf (Suc MAX_CLIENT_BUFFER_SIZE) (sk_buf (io_sock io))"
  shows "poll_keeps L cid (Unauthenticated u :: 'g connection_state) io (tick_unauthenticated L env u io)"
proof -
  have rx: "ua_rx u = cid" using assms(2) by (simp add: state_ok_def)
  obtain p io1 where w: "wait_for_input L env (Some cid) io = (p, io1)" by force
  note we = wait_for_input_effect(1-6) [OF assms(1,4) w]
  have f: "keeps L cid io1 res \<Longrightarrow> keeps L cid io res" for res :: "(connection_error, 'g connection_state) result \<times> _"
    using keeps_from [OF we(1)] .
  show ?thesis
  proof (cases p)
    case Pending
    with we w rx assms(3) show ?thesis
      by (simp add: tick_unauthenticated_def poll_keeps_def sock_ok_def input_ok_def)
  next
    case (Ready r)
    show ?thesis
    proof (cases r)
      case (Inl e)
      with Ready w rx we(2) show ?thesis by (simp add: tick_unauthenticated_def poll_keeps_def f)
    next
      case (Inr event)
      have "input_ok (Ready (Inr event)) io1" using we(6) Ready Inr by simp
      note ue = unauthenticated_event_keeps [OF we(2) assms(2) this, of env]
      with Ready Inr w show ?thesis
        by (auto simp: rx tick_unauthenticated_def poll_keeps_def intro: f split: prod.split)
    qed
  qed
qed

lemma tick_joined_keeps:
  fixes L :: "('q, 'c, 'g) libs"
  assumes "good L io" "state_ok L cid (Joined j)" "sock_ok (Joined j) (io_sock io)"
    and "sk_await (io_sock io) \<noteq> Aw_Top"
  shows "poll_keeps L cid (Joined j) io (tick_joined L env j io)"
proof (cases "sk_await (io_sock io) = Aw_Input")
  case False
  with assms(4) consider "sk_await (io_sock io) = Aw_Discard" | "sk_await (io_sock io) = Aw_Limit"
    by (cases "sk_await (io_sock io)") auto
  then show ?thesis using assms(3) poll_discard_keeps [OF assms(1,2)] joined_line_keeps [OF assms(1,2), of env]
    by cases (simp_all add: tick_joined_def sock_ok_def)
next
  case aw: True
  then have ob: "open_buf (Suc MAX_CLIENT_BUFFER_SIZE) (sk_buf (io_sock io))" using assms(3) by (simp add: sock_ok_def)
  have rx: "jn_rx j = cid" using assms(2) by (simp add: state_ok_def)
  obtain p io1 where w: "wait_for_input L env (Some cid) io = (p, io1)" by force
  note we = wait_for_input_effect(1-6) [OF assms(1) ob w]
  have f: "keeps L cid io1 res \<Longrightarrow> keeps L cid io res" for res :: "(connection_error, 'g connection_state) result \<times> _"
    using keeps_from [OF we(1)] .
  have pf: "poll_keeps L cid (Joined j) io1 res \<Longrightarrow> poll_keeps L cid (Joined j) io res" for res
    using we(1) f by (auto simp: poll_keeps_def split: poll.splits intro: frame_trans)
  have "poll_keeps L cid (Joined j) io1 (poll_discard j (buf_clear io1))"
    using poll_discard_keeps [of L "buf_clear io1" cid j] we(2) assms(2)
    by (simp add: open_buf_def MAX_CLIENT_MESSAGE_LENGTH_def poll_keeps_def keeps_def split: poll.splits)
  note disc = pf [OF this]
  have ftl: "poll_keeps L cid (Joined j) io (ready (finish_too_long j io1))"
    using f finish_too_long_keeps [OF we(2) assms(2)] by simp
  have err: "poll_keeps L cid (Joined j) io (Ready (Inl e), io1)" for e
    using f [OF keeps_fail [OF we(2)]] by (simp add: poll_keeps_def)
  have ev: "poll_keeps L cid (Joined j) io (joined_event L env j event io1)"
    if "input_ok (Ready (Inr event)) io1" for event
    using pf [OF joined_event_keeps [OF we(2) assms(2) that]] .
  show ?thesis
    using disc ftl err ev we aw w
    by (auto simp: rx tick_joined_def poll_keeps_def [of _ _ _ _ "(Pending, _)"] sock_ok_def input_ok_def
        split: poll.split sum.split connection_error.split)
qed

lemma sock_ok_reader [simp]: "sock_ok st (s\<lparr>sk_reader := r\<rparr>) \<longleftrightarrow> sock_ok st s"
  by (cases "sk_await s") (simp_all add: sock_ok_def)

lemma begin_tick_keeps:
  fixes L :: "('q, 'c, 'g) libs"
  assumes "good L io" "state_ok L cid st" "sock_ok st (io_sock io)" "st \<noteq> Disconnected"
  shows "keeps L cid io (begin_tick L st io)"
    "begin_tick L st io = (Inr u, io') \<Longrightarrow> sock_ok st (io_sock io') \<and> sk_await (io_sock io') \<noteq> Aw_Top"
proof -
  have "open_buf (Suc MAX_CLIENT_BUFFER_SIZE) []" by (simp add: open_buf_def)
  then have so: "sock_ok st (io_sock (set_await Aw_Input (buf_clear io1)))" for io1 :: "('q, 'c) io"
    by (simp add: sock_ok_def)
  show "keeps L cid io (begin_tick L st io)"
  proof (cases st)
    case (Joined j)
    have "keeps L cid io1 (Inr (), set_await Aw_Input (buf_clear io1))" if "good L io1" for io1
      using that by (simp add: keeps_def good_def)
    with Joined assms(1,2) show ?thesis
      by (auto simp: begin_tick_def state_ok_def intro!: keeps_bind keeps_drain)
  qed (use assms in \<open>simp_all add: begin_tick_def keeps_def good_def\<close>)
  show "sock_ok st (io_sock io') \<and> sk_await (io_sock io') \<noteq> Aw_Top" if "begin_tick L st io = (Inr u, io')"
    using that assms(3,4) so
    by (auto simp: begin_tick_def split: if_splits connection_state.splits elim!: try_bind_InrD)
qed

lemma tick_keeps:
  assumes "good L io" "state_ok L cid st" "sock_ok st (io_sock io)" "sk_await (io_sock io) \<noteq> Aw_Top" "st \<noteq> Disconnected"
  shows "poll_keeps L cid st io (tick L env st io)"
proof (cases st)
  case (Unauthenticated u)
  then have "sk_await (io_sock io) = Aw_Input" using assms(3,4) by (cases "sk_await (io_sock io)") (auto simp: sock_ok_def)
  with Unauthenticated assms tick_unauthenticated_keeps [OF assms(1), of cid u env] show ?thesis
    by (simp add: tick_def sock_ok_def)
next
  case (Joined j)
  with assms tick_joined_keeps [of L io cid j env] show ?thesis by (simp add: tick_def)
qed (use assms in simp)

lemma finish_keeps:
  assumes "libs_ok L" "keeps L cid io (r, io')" "finish L cid r' io' = (cn', b')" "\<And>x. r' = Inr x \<Longrightarrow> \<exists>y. r = Inr y"
  shows "conn_ok L cid cn' \<and> traffic_ok L b' \<and> outer_frame L cid (io_broker io) b'"
proof -
  let ?b = "io_broker io'"
  have b': "b' = ?b\<lparr>bk_channels := (bk_channels ?b)(cid := mp_drop_receiver (lb_mp L) (bk_channels ?b cid))\<rparr>"
    and cn': "cn' = \<lparr> cn_state = Disconnected, cn_sock = io_sock io', cn_result = Some r' \<rparr>"
    using assms(3) by (auto simp: finish_def Let_def)
  have ib: "inbox L b' tx = (if tx = cid then [] else inbox L ?b tx)" for tx
    using assms(1) by (simp add: b' inbox_def lib_laws)
  have "traffic_ok L b'" using assms(2) ib by (simp add: keeps_def traffic_ok_def b' queued_def)
  moreover have "outer_frame L cid ?b b'" using ib by (simp add: outer_frame_def b' queued_def)
  then have "outer_frame L cid (io_broker io) b'"
    using assms(2) by (auto simp: keeps_def frame_def outer_frame_def
        intro: suffix_order.order_trans prefix_order.order_trans)
  moreover have "cut_lines (sk_writer (io_sock io'))"
    using assms(2) by (auto simp: keeps_def whole_cut split: sum.splits)
  ultimately show ?thesis by (simp add: conn_ok_def cn')
qed

lemma poll_result_keeps:
  fixes io io1 :: "('q, 'c) io"
  assumes "libs_ok L" "cn_result cn = None" "state_ok L cid (cn_state cn)" "cn_state cn \<noteq> Disconnected"
    and fr: "frame L cid (io_broker io) (io_broker io1)"
    and pk: "poll_keeps L cid (cn_state cn) io1 (p, io2)"
    and eq: "(case p of
        Pending \<Rightarrow> (cn\<lparr>cn_sock := io_sock io2\<rparr>, io_broker io2)
      | Ready (Inl e) \<Rightarrow> finish L cid (Inl e) io2
      | Ready (Inr Disconnected) \<Rightarrow> finish L cid (Inr ()) io2
      | Ready (Inr st') \<Rightarrow>
          (cn\<lparr>cn_state := st', cn_sock := io_sock (set_await Aw_Top io2)\<rparr>, io_broker io2)) = (cn', b')"
  shows "conn_ok L cid cn' \<and> traffic_ok L b' \<and> outer_frame L cid (io_broker io) b'"
proof (cases p)
  case Pending
  with eq have "cn' = cn\<lparr>cn_sock := io_sock io2\<rparr>" "b' = io_broker io2" by simp_all
  moreover have "frame L cid (io_broker io) (io_broker io2)" "good L io2" "sock_ok (cn_state cn) (io_sock io2)"
    using pk Pending fr by (auto simp: poll_keeps_def intro: frame_trans)
  ultimately show ?thesis using assms(2-4) by (simp add: conn_ok_def good_def frame_def)
next
  case (Ready r)
  have k2: "keeps L cid io (r, io2)" and ro: "res_ok (state_ok L cid) (r, io2)"
    using pk Ready keeps_from [OF fr] by (auto simp: poll_keeps_def)
  consider (err) e where "r = Inl e" | (disc) "r = Inr Disconnected" | (go) st' where "r = Inr st'" "st' \<noteq> Disconnected"
    by (metis sum.exhaust)
  then show ?thesis
  proof cases
    case err
    then have "finish L cid (Inl e) io2 = (cn', b')" using eq Ready by simp
    from finish_keeps [OF assms(1) k2 this] show ?thesis by simp
  next
    case disc
    then have "finish L cid (Inr ()) io2 = (cn', b')" using eq Ready by simp
    from finish_keeps [OF assms(1) k2 this] disc show ?thesis by simp
  next
    case go
    then have "cn' = cn\<lparr>cn_state := st', cn_sock := io_sock (set_await Aw_Top io2)\<rparr>" "b' = io_broker io2"
      using eq Ready by (cases st'; simp)+
    with go k2 ro assms(2) show ?thesis by (simp add: conn_ok_def keeps_def frame_def sock_ok_def)
  qed
qed

text \<open>The invariant of a connection is kept by every poll, together with the frame.\<close>

lemma poll_connection_keeps:
  assumes "libs_ok L" "traffic_ok L b" "conn_ok L cid cn" "poll_connection L env cid cn b = (cn', b')"
  shows "conn_ok L cid cn' \<and> traffic_ok L b' \<and> outer_frame L cid b b'"
proof (cases "cn_result cn")
  case (Some x)
  with assms show ?thesis by (auto simp: poll_connection_def outer_frame_def)
next
  case None
  let ?st = "cn_state cn"
  let ?s = "(cn_sock cn)\<lparr>sk_reader := arrive (te_bytes env) (te_input env) (sk_reader (cn_sock cn))\<rparr>"
  let ?io = "\<lparr> io_broker = b, io_sock = ?s \<rparr>"
  have cn: "state_ok L cid ?st" "?st \<noteq> Disconnected" "sock_ok ?st ?s" "good L ?io"
    using assms(1-3) None by (simp_all add: conn_ok_def good_def)
  obtain r1 io1 where bt: "begin_tick L ?st ?io = (r1, io1)" by force
  have k1: "keeps L cid ?io (r1, io1)" using begin_tick_keeps(1) [OF cn(4,1) _ cn(2)] cn(3) bt by simp
  show ?thesis
  proof (cases r1)
    case (Inl e)
    have "finish L cid (Inl e) io1 = (cn', b')" using assms(4) None bt Inl by (simp add: poll_connection_def Let_def)
    from finish_keeps [OF assms(1) k1 this] show ?thesis by simp
  next
    case (Inr u)
    have g1: "good L io1" using keeps_InrD [of L cid ?io u io1] k1 Inr cn(4) by simp
    have so: "sock_ok ?st (io_sock io1)" "sk_await (io_sock io1) \<noteq> Aw_Top"
      using begin_tick_keeps(2) [OF cn(4,1) _ cn(2), of u io1] cn(3) bt Inr by simp_all
    have fr1: "frame L cid (io_broker ?io) (io_broker io1)" using k1 by (simp add: keeps_def)
    obtain p io2 where t: "tick L env ?st io1 = (p, io2)" by force
    have pk: "poll_keeps L cid ?st io1 (p, io2)" using tick_keeps [OF g1 cn(1) so cn(2), of env] t by simp
    show ?thesis
      using poll_result_keeps [OF assms(1) None cn(1,2) fr1 pk] assms(4) None bt Inr t
      by (simp add: poll_connection_def Let_def)
  qed
qed

subsection \<open>Effect on the registry\<close>

lemma try_bind_pres:
  "I (snd m) \<Longrightarrow> (\<And>x s. m = (Inr x, s) \<Longrightarrow> I (snd (f x s))) \<Longrightarrow> I (snd (try_bind m f))"
  by (cases m; cases "fst m") auto

lemma users_simps [simp]:
  "users_of (snd (on_writer f io)) = users_of io"
  "users_of (snd (send_message_to_client m io)) = users_of io"
  "users_of (buf_clear io) = users_of io" "users_of (upd_sock g io) = users_of io"
  "users_of (set_await a io) = users_of io"
  by (simp_all add: users_of_def send_message_to_client_def)

lemma users_forward [simp]: "users_of (snd (forward_or_report L m io)) = users_of io"
  by (simp add: forward_or_report_def forward_to_room_def case_prod_beta Let_def users_of_def
      send_message_to_client_def split: sum.split)

lemma users_drain_loop [simp]: "users_of (snd (drain_loop L rx n io)) = users_of io"
proof (induction n arbitrary: io)
  case (Suc n)
  let ?b = "io_broker io"
  obtain r c' where t: "mp_try_recv (lb_mp L) (bk_channels ?b rx) = (r, c')" by force
  let ?io1 = "io\<lparr>io_broker := ?b\<lparr>bk_channels := (bk_channels ?b)(rx := c')\<rparr>\<rparr>"
  have u1: "users_of ?io1 = users_of io" by (simp add: users_of_def)
  show ?case
  proof (cases r)
    case None
    with t u1 show ?thesis by (simp add: Let_def)
  next
    case (Some m)
    have "users_of (snd (try_bind (on_writer (write_line m) ?io1) (\<lambda>_ io. drain_loop L rx n io))) = users_of io"
    proof (rule try_bind_pres [where I = "\<lambda>io'. users_of io' = users_of io"])
      show "users_of (snd (on_writer (write_line m) ?io1)) = users_of io" using u1 by simp
      show "users_of (snd (drain_loop L rx n s)) = users_of io"
        if "on_writer (write_line m) ?io1 = (Inr x, s)" for x s
        using Suc [of s] users_simps(1) [of "write_line m" ?io1] that u1 by simp
    qed
    with Some t show ?thesis by (simp add: Let_def)
  qed
qed simp

lemma users_drain [simp]: "users_of (snd (drain_broadcasts L j io)) = users_of io"
  by (simp add: drain_broadcasts_def del: drain_loop.simps)

lemma users_same:
  "send_message_to_client m io = (r, io') \<Longrightarrow> users_of io' = users_of io"
  "forward_or_report L t io = (r, io') \<Longrightarrow> users_of io' = users_of io"
  "on_writer f io = (q, io') \<Longrightarrow> users_of io' = users_of io"
  "drain_broadcasts L j io = (r, io') \<Longrightarrow> users_of io' = users_of io"
  using users_simps(1) [of f io] users_simps(2) [of m io] users_forward [of L t io] users_drain [of L j io]
  by auto

lemma users_leave: "users_of (snd (leave L locked j io)) =
   snd (unregister (lb_unicode L) (lb_sz L) locked (users_of io) (jn_user j))"
  by (simp add: leave_def users_of_def case_prod_beta)

lemma join_users:
  assumes "libs_ok L" "wf_str raw" "unauthenticated_join L locked u raw b = (r, b')"
  shows "r = Inr j \<Longrightarrow> joins L (ua_tx u) (bk_registry b) (bk_registry b') (jn_user j)"
    "r = Inl x \<Longrightarrow> b' = b"
  using assms(3) username_new_valid [OF libs_okD(1) [OF assms(1)] assms(2), of "lb_unicode L"]
  by (auto simp: unauthenticated_join_def joins_def register_cases split: sum.splits if_splits)

lemma unauthenticated_event_users:
  assumes "libs_ok L" "input_ok (Ready (Inr event)) io" "ua_tx u = cid"
    and "unauthenticated_event L env u event io = (r, io')"
  shows "users_of io' = users_of io \<and> (\<forall>j. r \<noteq> Inr (Joined j))
    \<or> (\<exists>j. joins L cid (users_of io) (users_of io') (jn_user j) \<and> (r = Inr (Joined j) \<or> (\<exists>e. r = Inl e)))"
proof (cases "\<exists>n name. event = IE_Data n \<and> n \<noteq> 0 \<and>
      decode_client (lb_unicode L) (lb_sz L) (sk_buf (io_sock io)) = Inr (CM_Join name)")
  case False
  then have "users_of io' = users_of io \<and> (\<forall>j. r \<noteq> Inr (Joined j))"
    using assms(4)
    by (auto simp: unauthenticated_event_def try_bind_def dest: users_same
        split: input_event.splits if_splits sum.splits client_message.splits prod.splits)
  then show ?thesis ..
next
  case True
  then obtain n name where ev: "event = IE_Data n" "n \<noteq> 0"
    and d: "decode_client (lb_unicode L) (lb_sz L) (sk_buf (io_sock io)) = Inr (CM_Join name)" by blast
  have "line_buf (sk_buf (io_sock io))" using assms(2) ev by (simp add: input_ok_def)
  from decode_line_clean(1) [OF libs_okD(1) [OF assms(1)] this d] have wf: "wf_str name" by (simp add: clean_def)
  obtain q b' where j: "unauthenticated_join L (te_locked env) u name (io_broker io) = (q, b')" by force
  note ju = join_users [OF assms(1) wf j]
  show ?thesis
  proof (cases q)
    case (Inl x)
    then have "b' = io_broker io" using ju(2) by simp
    with Inl ev d j assms(4) show ?thesis
      by (cases x) (auto simp: unauthenticated_event_def try_bind_def dest!: users_same split: sum.splits prod.splits)
  next
    case (Inr jn)
    have u1: "users_of (io\<lparr>io_broker := b'\<rparr>) = bk_registry b'" by (simp add: users_of_def)
    have "users_of io' = bk_registry b' \<and> (r = Inr (Joined jn) \<or> (\<exists>e. r = Inl e))"
      using Inr ev d j assms(4) u1
      by (auto simp: unauthenticated_event_def try_bind_def dest!: users_same split: sum.splits prod.splits)
    then show ?thesis using ju(1) [OF Inr] assms(3) by (auto simp: users_of_def)
  qed
qed

lemma joined_line_users:
  assumes "joined_line L env j io = (p, io')"
  shows "users_of io' = users_of io
      \<and> (p = Pending \<or> (\<exists>e. p = Ready (Inl e)) \<or> (\<exists>j'. p = Ready (Inr (Joined j')) \<and> jn_user j' = jn_user j))
    \<or> users_of io' = snd (unregister (lb_unicode L) (lb_sz L) (te_locked env) (users_of io) (jn_user j))
      \<and> (p = Ready (Inr Disconnected) \<or> (\<exists>e. p = Ready (Inl e)))"
proof -
  obtain q io1 where h: "handle_joined_message L env j io = (q, io1)" by force
  then have u: "users_of io1 = users_of io \<and> (\<forall>d j'. q = Ready (Inr (d, j')) \<longrightarrow> jn_user j' = jn_user j)"
    by (auto simp: handle_joined_message_def try_bind_def dest: users_same
        split: sum.splits client_message.splits prod.splits poll.splits)
  with assms h show ?thesis
    by (auto simp: joined_line_def try_bind_def users_leave dest!: users_same
        split: poll.splits if_splits sum.splits prod.splits)
qed

lemma joined_event_users:
  assumes "joined_event L env j event io = (p, io')"
  shows "users_of io' = users_of io
      \<and> (p = Pending \<or> (\<exists>e. p = Ready (Inl e)) \<or> (\<exists>j'. p = Ready (Inr (Joined j')) \<and> jn_user j' = jn_user j))
    \<or> users_of io' = snd (unregister (lb_unicode L) (lb_sz L) (te_locked env) (users_of io) (jn_user j))
      \<and> (p = Ready (Inr Disconnected) \<or> (\<exists>e. p = Ready (Inl e)))"
proof (cases "\<exists>n. event = IE_Data n \<and> n \<noteq> 0")
  case True
  with assms joined_line_users [of L env j io p io'] show ?thesis by (auto simp: joined_event_def)
next
  case False
  with assms show ?thesis
    by (auto simp: joined_event_def try_bind_def users_leave
        dest!: users_same split: input_event.splits if_splits sum.splits prod.splits)
qed

lemma tick_unauthenticated_users:
  assumes "good L io" "state_ok L cid (Unauthenticated u :: 'g connection_state)"
    and "open_buf (Suc MAX_CLIENT_BUFFER_SIZE) (sk_buf (io_sock io))"
    and "tick_unauthenticated L env u io = (p, io')"
  shows "users_of io' = users_of io \<and> (\<forall>j. p \<noteq> Ready (Inr (Joined j)))
    \<or> (\<exists>j. joins L cid (users_of io) (users_of io') (jn_user j) \<and> (p = Ready (Inr (Joined j)) \<or> (\<exists>e. p = Ready (Inl e))))"
proof -
  have rx: "ua_rx u = cid" "ua_tx u = cid" using assms(2) by (simp_all add: state_ok_def)
  have L: "libs_ok L" using assms(1) by (simp add: good_def)
  obtain q io1 where w: "wait_for_input L env (Some cid) io = (q, io1)" by force
  note we = wait_for_input_effect(1-6) [OF assms(1,3) w]
  have u1: "users_of io1 = users_of io" using we(3) by (simp add: users_of_def)
  show ?thesis
  proof (cases "\<exists>event. q = Ready (Inr event)")
    case True
    then obtain event where q: "q = Ready (Inr event)" by blast
    obtain r io2 where e: "unauthenticated_event L env u event io1 = (r, io2)" by force
    have "p = Ready r" "io' = io2" using assms(4) w q e by (simp_all add: tick_unauthenticated_def rx)
    with unauthenticated_event_users [OF L _ rx(2) e] we(6) q u1 show ?thesis by simp
  next
    case False
    with assms(4) w u1 show ?thesis
      by (auto simp: tick_unauthenticated_def rx split: poll.splits sum.splits)
  qed
qed

lemma users_poll_discard:
  "poll_discard j io = (p, io') \<Longrightarrow>
   users_of io' = users_of io \<and> (p = Pending \<or> (\<exists>e. p = Ready (Inl e)) \<or> p = Ready (Inr (Joined j)))"
  by (auto simp: poll_discard_def finish_too_long_def try_bind_def Let_def dest!: users_same
      split: prod.splits poll.splits sum.splits)

lemma tick_joined_users:
  assumes "good L io" "state_ok L cid (Joined j)" "sock_ok (Joined j) (io_sock io)"
    and "sk_await (io_sock io) \<noteq> Aw_Top" "tick_joined L env j io = (p, io')"
  shows "users_of io' = users_of io
      \<and> (p = Pending \<or> (\<exists>e. p = Ready (Inl e)) \<or> (\<exists>j'. p = Ready (Inr (Joined j')) \<and> jn_user j' = jn_user j))
    \<or> leaves L (users_of io) (users_of io') (jn_user j) \<and> (p = Ready (Inr Disconnected) \<or> (\<exists>e. p = Ready (Inl e)))"
proof (cases "sk_await (io_sock io) = Aw_Input")
  case False
  with assms(4) consider "sk_await (io_sock io) = Aw_Discard" | "sk_await (io_sock io) = Aw_Limit"
    by (cases "sk_await (io_sock io)") auto
  then show ?thesis using assms(5)
    by cases (auto simp: tick_joined_def leaves_def dest!: users_poll_discard joined_line_users)
next
  case aw: True
  then have ob: "open_buf (Suc MAX_CLIENT_BUFFER_SIZE) (sk_buf (io_sock io))"
    using assms(3) by (simp add: sock_ok_def)
  have rx: "jn_rx j = cid" using assms(2) by (simp add: state_ok_def)
  obtain q io1 where w: "wait_for_input L env (Some cid) io = (q, io1)" by force
  note we = wait_for_input_effect(1-6) [OF assms(1) ob w]
  have u1: "users_of io1 = users_of io" "users_of (buf_clear io1) = users_of io"
    using we(3) by (simp_all add: users_of_def)
  show ?thesis
  proof (cases "\<exists>event. q = Ready (Inr event)")
    case True
    then obtain event where q: "q = Ready (Inr event)" by blast
    then have e: "joined_event L env j event io1 = (p, io')" using assms(5) w aw by (simp add: tick_joined_def rx)
    from joined_event_users [OF e] u1 show ?thesis by (auto simp: leaves_def)
  next
    case False
    with assms(5) w u1 aw show ?thesis
      by (auto simp: tick_joined_def rx finish_too_long_def try_bind_def dest!: users_poll_discard users_same
          split: poll.splits sum.splits connection_error.splits prod.splits if_splits)
  qed
qed

lemma tick_users:
  assumes "good L io" "state_ok L cid st" "sock_ok st (io_sock io)"
    and "sk_await (io_sock io) \<noteq> Aw_Top" "st \<noteq> Disconnected" "tick L env st io = (p, io')"
  shows "users_of io' = users_of io \<and> (\<forall>st'. p = Ready (Inr st') \<longrightarrow> st' = Disconnected \<or> same_user st st')
    \<or> (\<exists>x j. st = Unauthenticated x \<and> joins L cid (users_of io) (users_of io') (jn_user j)
         \<and> (p = Ready (Inr (Joined j)) \<or> (\<exists>e. p = Ready (Inl e))))
    \<or> (\<exists>j. st = Joined j \<and> leaves L (users_of io) (users_of io') (jn_user j)
         \<and> (p = Ready (Inr Disconnected) \<or> (\<exists>e. p = Ready (Inl e))))"
proof (cases st)
  case (Unauthenticated u)
  then have "open_buf (Suc MAX_CLIENT_BUFFER_SIZE) (sk_buf (io_sock io))"
    using assms(3,4) by (cases "sk_await (io_sock io)") (simp_all add: sock_ok_def)
  from tick_unauthenticated_users [OF assms(1) _ this, of cid u env p io'] Unauthenticated assms(2,6)
  show ?thesis by (auto simp: tick_def same_user_def split: connection_state.splits)
next
  case (Joined j)
  with tick_joined_users [OF assms(1), of cid j env p io'] assms show ?thesis
    by (auto simp: tick_def same_user_def)
qed (use assms in simp)

lemma begin_tick_users: "begin_tick L st io = (r, io') \<Longrightarrow> users_of io' = users_of io"
  by (auto simp: begin_tick_def try_bind_def dest!: users_same split: if_splits connection_state.splits prod.splits sum.splits)

lemma finish_fields:
  "finish L cid r io = (cn', b') \<Longrightarrow> bk_registry b' = users_of io \<and> cn_result cn' \<noteq> None"
  by (auto simp: finish_def Let_def users_of_def)

text \<open>The effect of a poll on the registry: none, a join that makes the connection joined unless
  writing to it failed, or a leave, which ends it.\<close>

lemma poll_connection_users:
  assumes "libs_ok L" "traffic_ok L b" "conn_ok L cid cn" "cn_result cn = None"
    and "poll_connection L env cid cn b = (cn', b')"
  shows "bk_registry b' = bk_registry b \<and> (cn_result cn' \<noteq> None \<or> same_user (cn_state cn) (cn_state cn'))
    \<or> (\<exists>x u. cn_state cn = Unauthenticated x \<and> joins L cid (bk_registry b) (bk_registry b') u
         \<and> (cn_result cn' \<noteq> None \<or> (\<exists>j. cn_state cn' = Joined j \<and> jn_user j = u)))
    \<or> (\<exists>j. cn_state cn = Joined j \<and> leaves L (bk_registry b) (bk_registry b') (jn_user j) \<and> cn_result cn' \<noteq> None)"
proof -
  let ?st = "cn_state cn"
  let ?s = "(cn_sock cn)\<lparr>sk_reader := arrive (te_bytes env) (te_input env) (sk_reader (cn_sock cn))\<rparr>"
  let ?io = "\<lparr> io_broker = b, io_sock = ?s \<rparr>"
  have cn: "state_ok L cid ?st" "?st \<noteq> Disconnected" "sock_ok ?st ?s" "good L ?io"
    using assms(1-4) by (simp_all add: conn_ok_def good_def)
  obtain r1 io1 where bt: "begin_tick L ?st ?io = (r1, io1)" by force
  have u1: "users_of io1 = bk_registry b" using begin_tick_users [OF bt] by (simp add: users_of_def)
  have su: "same_user ?st ?st" using cn(2) by (cases ?st) (simp_all add: same_user_def)
  show ?thesis
  proof (cases r1)
    case (Inl e)
    have "finish L cid (Inl e) io1 = (cn', b')" using assms(4,5) bt Inl by (simp add: poll_connection_def Let_def)
    from finish_fields [OF this] u1 show ?thesis by simp
  next
    case (Inr u)
    have k1: "keeps L cid ?io (r1, io1)" using begin_tick_keeps(1) [OF cn(4,1) _ cn(2)] cn(3) bt by simp
    then have g1: "good L io1" using keeps_InrD [of L cid ?io u io1] Inr cn(4) by simp
    have so: "sock_ok ?st (io_sock io1)" "sk_await (io_sock io1) \<noteq> Aw_Top"
      using begin_tick_keeps(2) [OF cn(4,1) _ cn(2), of u io1] cn(3) bt Inr by simp_all
    obtain p io2 where t: "tick L env ?st io1 = (p, io2)" by force
    have "(case p of
        Pending \<Rightarrow> (cn\<lparr>cn_sock := io_sock io2\<rparr>, io_broker io2)
      | Ready (Inl e) \<Rightarrow> finish L cid (Inl e) io2
      | Ready (Inr Disconnected) \<Rightarrow> finish L cid (Inr ()) io2
      | Ready (Inr st') \<Rightarrow>
          (cn\<lparr>cn_state := st', cn_sock := io_sock (set_await Aw_Top io2)\<rparr>, io_broker io2)) = (cn', b')"
      using assms(4,5) bt Inr t by (simp add: poll_connection_def Let_def)
    then have "bk_registry b' = users_of io2 \<and> (case p of
        Pending \<Rightarrow> cn_state cn' = ?st
      | Ready (Inl e) \<Rightarrow> cn_result cn' \<noteq> None
      | Ready (Inr st') \<Rightarrow> if st' = Disconnected then cn_result cn' \<noteq> None else cn_state cn' = st')"
      by (auto simp: users_of_def dest!: finish_fields
          split: poll.splits sum.splits connection_state.splits)
    with tick_users [OF g1 cn(1) so cn(2) t] u1 su show ?thesis
      by (auto split: poll.splits sum.splits if_splits)
  qed
qed

end
