(* ===== verification/Server_Main.thy ===== *)
theory Server_Main
  imports Connection_Invariant "HOL-Library.Code_Target_Nat"
begin

text \<open>
  The server process, \<open>src/server/src/main.rs\<close>: the accept loop with its semaphore, the spawned
  connections, the dispatcher task and the shutdown. The tasks run concurrently; a run of the
  server is a sequence of steps of the relation \<open>server_step\<close>, each of them one poll of one task.
  The connection with number \<open>i\<close> is the \<open>i\<close>-th one accepted.

  A connection counts as running until its task returns; then its permit goes back to the
  semaphore. The permit of an iteration of the accept loop that fails to accept is held until
  the end of the back-off.
\<close>

definition DEFAULT_HOST :: rstr where "DEFAULT_HOST = lit ''127.0.0.1''"
definition DEFAULT_PORT :: rstr where "DEFAULT_PORT = lit ''8080''"

text \<open>\<open>env::var\<close> is the argument \<open>var\<close>.\<close>

definition server_addr :: "(rstr \<Rightarrow> rstr option) \<Rightarrow> rstr" where
  "server_addr var =
     (let host = (case var (lit ''CHAT_HOST'') of Some h \<Rightarrow> h | None \<Rightarrow> DEFAULT_HOST);
          port = (case var (lit ''CHAT_PORT'') of Some p \<Rightarrow> p | None \<Rightarrow> DEFAULT_PORT)
      in host @ lit '':'' @ port)"

record semaphore =
  sem_permits :: nat
  sem_closed :: bool

definition try_acquire_permit :: "semaphore \<Rightarrow> semaphore option" where
  "try_acquire_permit s =
     (if sem_closed s \<or> sem_permits s = 0 then None else Some (s\<lparr>sem_permits := sem_permits s - 1\<rparr>))"

definition release_permit :: "semaphore \<Rightarrow> semaphore" where
  "release_permit s = s\<lparr>sem_permits := Suc (sem_permits s)\<rparr>"

text \<open>The points at which the accept loop waits.\<close>

datatype acceptor = Acc_Top | Acc_Waiting | Acc_Listening | Acc_Backoff | Acc_Returned

datatype main_phase = Serving | Stopping | Awaiting "join_handle option" | Exited

record ('q, 'c, 'g) server =
  sv_broker :: "('q, 'c) broker"
  sv_conns :: "'g connection list"
  sv_semaphore :: semaphore
  sv_acceptor :: acceptor
  sv_shutdown :: bool
  sv_phase :: main_phase

text \<open>What \<open>listener.accept()\<close> returns: an error, or the peer with the limits of its socket.\<close>

datatype accept_event = Ae_Pending | Ae_Error | Ae_Stream rstr "nat option" io_error

definition holds_permit :: "acceptor \<Rightarrow> bool" where
  "holds_permit a \<longleftrightarrow> a = Acc_Listening \<or> a = Acc_Backoff"

definition running :: "'g connection \<Rightarrow> bool" where
  "running cn \<longleftrightarrow> cn_result cn = None"

definition accept_connections ::
    "('q, 'c, 'g) libs \<Rightarrow> accept_event \<Rightarrow> ('q, 'c, 'g) server \<Rightarrow> ('q, 'c, 'g) server" where
  "accept_connections L ev sv =
     (case sv_acceptor sv of
        Acc_Top \<Rightarrow>
          (case try_acquire_permit (sv_semaphore sv) of
             Some s \<Rightarrow> sv\<lparr>sv_semaphore := s, sv_acceptor := Acc_Listening\<rparr>
           | None \<Rightarrow> sv\<lparr>sv_acceptor := Acc_Waiting\<rparr>)
      | Acc_Waiting \<Rightarrow>
          (if sem_closed (sv_semaphore sv) then sv\<lparr>sv_acceptor := Acc_Returned\<rparr>
           else (case try_acquire_permit (sv_semaphore sv) of
             Some s \<Rightarrow> sv\<lparr>sv_semaphore := s, sv_acceptor := Acc_Listening\<rparr>
           | None \<Rightarrow> sv))
      | Acc_Listening \<Rightarrow>
          (case ev of
             Ae_Pending \<Rightarrow> sv
           | Ae_Error \<Rightarrow> sv\<lparr>sv_acceptor := Acc_Backoff\<rparr>
           | Ae_Stream addr budget err \<Rightarrow>
               (case handle_connection L (length (sv_conns sv)) addr
                       \<lparr> rd_data = [], rd_status = In_Open \<rparr>
                       \<lparr> wr_out = [], wr_budget = budget, wr_error = err \<rparr> (sv_broker sv) of
                  (cn, b') \<Rightarrow>
                    sv\<lparr>sv_broker := b', sv_conns := sv_conns sv @ [cn], sv_acceptor := Acc_Top\<rparr>))
      | Acc_Backoff \<Rightarrow>
          sv\<lparr>sv_semaphore := release_permit (sv_semaphore sv), sv_acceptor := Acc_Top\<rparr>
      | Acc_Returned \<Rightarrow> sv)"

text \<open>One poll of a connection task; its permit is released when the task returns.\<close>

definition poll_task ::
    "('q, 'c, 'g) libs \<Rightarrow> tick_env \<Rightarrow> nat \<Rightarrow> ('q, 'c, 'g) server \<Rightarrow> ('q, 'c, 'g) server" where
  "poll_task L env cid sv =
     (case poll_connection L env cid (sv_conns sv ! cid) (sv_broker sv) of
        (cn', b') \<Rightarrow>
          sv\<lparr>sv_broker := b', sv_conns := (sv_conns sv)[cid := cn'],
             sv_semaphore := (if running (sv_conns sv ! cid) \<and> \<not> running cn'
                              then release_permit (sv_semaphore sv) else sv_semaphore sv)\<rparr>)"

text \<open>One poll of the dispatcher task.\<close>

definition dispatch_task ::
    "('q, 'c, 'g) libs \<Rightarrow> dispatch_env \<Rightarrow> ('q, 'c, 'g) server \<Rightarrow> ('q, 'c, 'g) server" where
  "dispatch_task L e sv = sv\<lparr>sv_broker := dispatcher_poll L e (sv_broker sv)\<rparr>"

text \<open>\<open>main\<close>: start-up, the interrupt that ends the \<open>select!\<close> (the accept loop is dropped with the
  permit it may hold), the shutdown of the broker, which waits for the dispatcher, and the return.\<close>

definition server_start :: "('q, 'c, 'g) libs \<Rightarrow> rstr \<Rightarrow> rstr \<Rightarrow> ('q, 'c, 'g) server" where
  "server_start L uuid now =
     \<lparr> sv_broker = start_dispatcher
         (get_broker L uuid now (\<lambda>_. mp_channel (lb_mp L) USER_CHANNEL_BUFFER_SIZE)),
       sv_conns = [],
       sv_semaphore = \<lparr> sem_permits = MAX_CONNECTIONS, sem_closed = False \<rparr>,
       sv_acceptor = Acc_Top, sv_shutdown = False, sv_phase = Serving \<rparr>"

definition ctrl_c :: "('q, 'c, 'g) server \<Rightarrow> ('q, 'c, 'g) server" where
  "ctrl_c sv =
     sv\<lparr>sv_semaphore := (if holds_permit (sv_acceptor sv) then release_permit (sv_semaphore sv)
                        else sv_semaphore sv),
        sv_acceptor := Acc_Returned, sv_shutdown := True, sv_phase := Stopping\<rparr>"

definition stop_broker :: "('q, 'c, 'g) server \<Rightarrow> ('q, 'c, 'g) server" where
  "stop_broker sv =
     (case shutdown (sv_broker sv) of
        (handle, b') \<Rightarrow> sv\<lparr>sv_broker := b', sv_phase := Awaiting handle\<rparr>)"

definition exit_main :: "('q, 'c, 'g) server \<Rightarrow> ('q, 'c, 'g) server" where
  "exit_main sv = sv\<lparr>sv_phase := Exited\<rparr>"

datatype server_label =
    SL_Accept accept_event
  | SL_Poll nat tick_env
  | SL_Dispatch dispatch_env
  | SL_CtrlC
  | SL_Stop
  | SL_Exit

text \<open>A task sees a change of the shutdown channel only with its current value. The blocking
  receive task of the dispatcher does not panic, so joining it succeeds. When \<open>main\<close> has returned
  no task runs any more.\<close>

inductive server_step ::
    "('q, 'c, 'g) libs \<Rightarrow> ('q, 'c, 'g) server \<Rightarrow> server_label \<Rightarrow> ('q, 'c, 'g) server \<Rightarrow> bool" for L where
  accept_step: "sv_phase sv = Serving \<Longrightarrow> server_step L sv (SL_Accept ev) (accept_connections L ev sv)"
| poll_step: "sv_phase sv \<noteq> Exited \<Longrightarrow> cid < length (sv_conns sv) \<Longrightarrow>
    te_shutdown env = None \<or> te_shutdown env = Some (sv_shutdown sv) \<Longrightarrow>
    server_step L sv (SL_Poll cid env) (poll_task L env cid sv)"
| dispatch_step: "sv_phase sv \<noteq> Exited \<Longrightarrow> de_join_ok e \<Longrightarrow> server_step L sv (SL_Dispatch e) (dispatch_task L e sv)"
| ctrl_c_step: "sv_phase sv = Serving \<Longrightarrow> server_step L sv SL_CtrlC (ctrl_c sv)"
| stop_step: "sv_phase sv = Stopping \<Longrightarrow> server_step L sv SL_Stop (stop_broker sv)"
| exit_step: "sv_phase sv = Awaiting handle \<Longrightarrow> shutdown_returns handle (sv_broker sv) \<Longrightarrow>
    server_step L sv SL_Exit (exit_main sv)"

inductive_cases server_stepE: "server_step L sv l sv'"

datatype phase = Ph_Unauthenticated | Ph_Joined | Ph_Disconnected

definition phase_num :: "phase \<Rightarrow> nat" where
  "phase_num p = (case p of Ph_Unauthenticated \<Rightarrow> 0 | Ph_Joined \<Rightarrow> 1 | Ph_Disconnected \<Rightarrow> 2)"

instantiation phase :: linorder
begin

definition less_eq_phase :: "phase \<Rightarrow> phase \<Rightarrow> bool" where
  "less_eq_phase p q \<longleftrightarrow> phase_num p \<le> phase_num q"

definition less_phase :: "phase \<Rightarrow> phase \<Rightarrow> bool" where
  "less_phase p q \<longleftrightarrow> phase_num p < phase_num q"

instance
proof
  fix p q :: phase
  show "p \<le> q \<Longrightarrow> q \<le> p \<Longrightarrow> p = q"
    by (cases p; cases q; simp add: less_eq_phase_def phase_num_def)
qed (auto simp: less_eq_phase_def less_phase_def)

end

definition phase_of :: "'g connection \<Rightarrow> phase" where
  "phase_of cn =
     (case cn_state cn of
        Unauthenticated _ \<Rightarrow> Ph_Unauthenticated
      | Joined _ \<Rightarrow> Ph_Joined
      | Disconnected \<Rightarrow> Ph_Disconnected)"

text \<open>The registry agrees with the connections: a connection that has not joined is not
  registered and has received nothing, and a joined one is registered under its name.\<close>

definition agrees :: "('q, 'c, 'g) libs \<Rightarrow> ('q, 'c) broker \<Rightarrow> chan_id \<Rightarrow> 'g connection \<Rightarrow> bool" where
  "agrees L b cid cn \<longleftrightarrow>
     (cn_result cn = None \<longrightarrow>
        (case cn_state cn of
           Unauthenticated _ \<Rightarrow> cid \<notin> registered b \<and> inbox L b cid = []
         | Joined j \<Rightarrow> map_of (bk_registry b) (from_username (lb_unicode L) (lb_sz L) (u_username (jn_user j)))
                         = Some (jn_user j)
         | Disconnected \<Rightarrow> False))"

definition conns_ok :: "('q, 'c, 'g) libs \<Rightarrow> ('q, 'c, 'g) server \<Rightarrow> bool" where
  "conns_ok L sv \<longleftrightarrow>
     (\<forall>cid < length (sv_conns sv). conn_ok L cid (sv_conns sv ! cid)
        \<and> agrees L (sv_broker sv) cid (sv_conns sv ! cid))
     \<and> registered (sv_broker sv) \<subseteq> {..< length (sv_conns sv)}"

definition permits_ok :: "('q, 'c, 'g) server \<Rightarrow> bool" where
  "permits_ok sv \<longleftrightarrow>
     sem_permits (sv_semaphore sv) + length (filter running (sv_conns sv))
       + (if holds_permit (sv_acceptor sv) then 1 else 0) = MAX_CONNECTIONS
     \<and> \<not> sem_closed (sv_semaphore sv)"

text \<open>The dispatcher has been started, and what it is sending is a server message, on its way to connections
  that have joined.\<close>

definition sending_ok :: "'g connection list \<Rightarrow> ('q, 'c) broker \<Rightarrow> bool" where
  "sending_ok cns b \<longleftrightarrow> bk_task b \<noteq> Dp_NotStarted
     \<and> (\<forall>m A. current b = Some (m, A) \<longrightarrow>
        server_text m \<and> (\<forall>tx \<in> A. tx < length cns \<and> phase_of (cns ! tx) \<noteq> Ph_Unauthenticated))"

definition server_ok :: "('q, 'c, 'g) libs \<Rightarrow> ('q, 'c, 'g) server \<Rightarrow> bool" where
  "server_ok L sv \<longleftrightarrow>
     broker_ok L (sv_broker sv) \<and> traffic_ok L (sv_broker sv) \<and> conns_ok L sv \<and> permits_ok sv
     \<and> sending_ok (sv_conns sv) (sv_broker sv)"

text \<open>The phase of every connection, also of those not yet accepted.\<close>

definition phases :: "('q, 'c, 'g) server \<Rightarrow> nat \<Rightarrow> phase" where
  "phases sv cid = (if cid < length (sv_conns sv) then phase_of (sv_conns sv ! cid) else Ph_Unauthenticated)"

text \<open>The steps as a function, for concrete runs.\<close>

definition server_exec ::
    "('q, 'c, 'g) libs \<Rightarrow> server_label \<Rightarrow> ('q, 'c, 'g) server \<Rightarrow> ('q, 'c, 'g) server option" where
  "server_exec L l sv =
     (case l of
        SL_Accept ev \<Rightarrow> if sv_phase sv = Serving then Some (accept_connections L ev sv) else None
      | SL_Poll cid env \<Rightarrow>
          if sv_phase sv \<noteq> Exited \<and> cid < length (sv_conns sv)
             \<and> (te_shutdown env = None \<or> te_shutdown env = Some (sv_shutdown sv))
          then Some (poll_task L env cid sv) else None
      | SL_Dispatch e \<Rightarrow>
          if sv_phase sv \<noteq> Exited \<and> de_join_ok e then Some (dispatch_task L e sv) else None
      | SL_CtrlC \<Rightarrow> if sv_phase sv = Serving then Some (ctrl_c sv) else None
      | SL_Stop \<Rightarrow> if sv_phase sv = Stopping then Some (stop_broker sv) else None
      | SL_Exit \<Rightarrow>
          (case sv_phase sv of
             Awaiting handle \<Rightarrow> if shutdown_returns handle (sv_broker sv) then Some (exit_main sv) else None
           | _ \<Rightarrow> None))"

fun server_run ::
    "('q, 'c, 'g) libs \<Rightarrow> server_label list \<Rightarrow> ('q, 'c, 'g) server \<Rightarrow> ('q, 'c, 'g) server option" where
  "server_run L [] sv = Some sv"
| "server_run L (l # ls) sv =
     (case server_exec L l sv of None \<Rightarrow> None | Some sv' \<Rightarrow> server_run L ls sv')"

definition quiet :: tick_env where
  "quiet = \<lparr> te_shutdown = None, te_bytes = [], te_input = In_Open, te_elapsed = False,
             te_locked = True, te_now = 0 \<rparr>"

definition says :: "rstr \<Rightarrow> tick_env" where
  "says s = quiet\<lparr>te_bytes := utf8 s @ [newline]\<rparr>"

text \<open>The polls in which the dispatcher takes a message off the room and sends it to two users.\<close>

definition deliver :: "server_label list" where
  "deliver = replicate 4 (SL_Dispatch smooth)"

definition knock :: "server_label list" where
  "knock = [SL_Accept Ae_Pending, SL_Accept (Ae_Stream [] None [])]"

definition two_join :: "server_label list" where
  "two_join = knock @ knock @ [SL_Poll 0 (says (lit ''JOIN|a'')), SL_Poll 1 (says (lit ''join|Bob''))]"

definition one_talks :: "server_label list" where
  "one_talks = deliver @ deliver @ [SL_Poll 0 (says (lit ''SEND|hi'')), SL_Poll 0 quiet] @ deliver @ [SL_Poll 1 quiet]"

definition after_join :: "(one_to_many fifo, byte list mfifo, gcra) server" where
  "after_join = the (server_run ref_libs two_join (server_start ref_libs [] []))"

definition after_talk :: "(one_to_many fifo, byte list mfifo, gcra) server" where
  "after_talk = the (server_run ref_libs (two_join @ one_talks) (server_start ref_libs [] []))"

subsection \<open>One connection among the others\<close>

lemma joins_facts:
  assumes "joins L cid users users' u" "registry_ok (lb_unicode L) (lb_sz L) users" "senders_ok users"
  shows "registry_ok (lb_unicode L) (lb_sz L) users'" "u_tx u = cid"
    "set (map (\<lambda>(k, u). u_tx u) users') = insert cid (set (map (\<lambda>(k, u). u_tx u) users))"
    "cid \<notin> set (map (\<lambda>(k, u). u_tx u) users) \<Longrightarrow> senders_ok users'"
    "map_of users' (from_username (lb_unicode L) (lb_sz L) (u_username u)) = Some u"
    "map_of users k = Some v \<Longrightarrow> map_of users' k = Some v"
  using assms
  by (auto simp: joins_def registry_ok_def user_new_def map_of_eq_None_iff senders_ok_def) force

lemma unregister_cases:
  "snd (unregister U sz locked users u)
     = (if locked then AList.delete (from_username U sz (u_username u)) users else users)"
  by (simp add: unregister_def Let_def get_username_def)

lemma leaves_facts:
  assumes "leaves L users users' u" "registry_ok (lb_unicode L) (lb_sz L) users" "senders_ok users"
  shows "registry_ok (lb_unicode L) (lb_sz L) users'" "senders_ok users'"
    "set (map (\<lambda>(k, u). u_tx u) users') \<subseteq> set (map (\<lambda>(k, u). u_tx u) users)"
    "k \<noteq> from_username (lb_unicode L) (lb_sz L) (u_username u) \<Longrightarrow> map_of users' k = map_of users k"
proof -
  obtain locked where u': "users' = snd (unregister (lb_unicode L) (lb_sz L) locked users u)"
    using assms(1) by (auto simp: leaves_def)
  show "registry_ok (lb_unicode L) (lb_sz L) users'" using u' assms(2) registry_ok_unregister by simp
  show "senders_ok users'" using assms(3)
    by (auto simp: u' unregister_cases senders_ok_def AList.delete_eq distinct_map_filter)
  show "set (map (\<lambda>(k, u). u_tx u) users') \<subseteq> set (map (\<lambda>(k, u). u_tx u) users)"
    by (auto simp: u' unregister_cases AList.delete_eq)
  show "k \<noteq> from_username (lb_unicode L) (lb_sz L) (u_username u) \<Longrightarrow> map_of users' k = map_of users k"
    by (simp add: u' unregister_cases map_of_delete)
qed

text \<open>A poll keeps the broker in order.\<close>

lemma poll_broker_ok:
  assumes "libs_ok L" "broker_ok L b" "traffic_ok L b" "conn_ok L cid cn" "agrees L b cid cn"
    and "poll_connection L env cid cn b = (cn', b')"
  shows "broker_ok L b'" "registered b' \<subseteq> insert cid (registered b)"
proof -
  have r': "room_ok (lb_cb L) (bk_room b')" "task_ok (bk_task b')"
    using poll_connection_keeps [OF assms(1,3,4,6)] assms(2) by (simp_all add: traffic_ok_def outer_frame_def broker_ok_def)
  have ok: "registry_ok (lb_unicode L) (lb_sz L) (bk_registry b)" "senders_ok (bk_registry b)"
    using assms(2) by (simp_all add: broker_ok_def)
  have "registry_ok (lb_unicode L) (lb_sz L) (bk_registry b') \<and> senders_ok (bk_registry b')
    \<and> registered b' \<subseteq> insert cid (registered b)"
  proof (cases "cn_result cn")
    case (Some x)
    with assms(6) ok show ?thesis by (auto simp: poll_connection_def)
  next
    case None
    consider (same) "bk_registry b' = bk_registry b"
      | (join) x u where "cn_state cn = Unauthenticated x" "joins L cid (bk_registry b) (bk_registry b') u"
      | (leave) u where "leaves L (bk_registry b) (bk_registry b') u"
      using poll_connection_users [OF assms(1,3,4) None assms(6)] by blast
    then show ?thesis
    proof cases
      case same
      with ok show ?thesis by (auto simp: registered_def)
    next
      case join
      then have "cid \<notin> registered b" using assms(5) None by (simp add: agrees_def)
      with joins_facts [OF join(2) ok] show ?thesis by (auto simp: registered_def)
    next
      case leave
      from leaves_facts(1-3) [OF leave ok] show ?thesis by (auto simp: registered_def)
    qed
  qed
  with r' show "broker_ok L b'" "registered b' \<subseteq> insert cid (registered b)" by (simp_all add: broker_ok_def)
qed

lemma poll_agrees_self:
  assumes "libs_ok L" "broker_ok L b" "traffic_ok L b" "conn_ok L cid cn" "agrees L b cid cn"
    and "poll_connection L env cid cn b = (cn', b')"
  shows "agrees L b' cid cn'"
proof (cases "cn_result cn' = None")
  case True
  then have None: "cn_result cn = None" using assms(6) by (auto simp: poll_connection_def split: if_splits)
  have ok: "registry_ok (lb_unicode L) (lb_sz L) (bk_registry b)" "senders_ok (bk_registry b)"
    using assms(2) by (simp_all add: broker_ok_def)
  have sf: "suffix (inbox L b' cid) (inbox L b cid)"
    using poll_connection_keeps [OF assms(1,3,4,6)] by (simp add: outer_frame_def)
  consider (same) "bk_registry b' = bk_registry b" "same_user (cn_state cn) (cn_state cn')"
    | (join) u j where "joins L cid (bk_registry b) (bk_registry b') u" "cn_state cn' = Joined j" "jn_user j = u"
    using poll_connection_users [OF assms(1,3,4) None assms(6)] True by blast
  then show ?thesis
  proof cases
    case same
    with assms(5) None sf show ?thesis
      by (auto simp: agrees_def same_user_def registered_def split: connection_state.splits)
  next
    case join
    with joins_facts(5) [OF join(1) ok] show ?thesis by (simp add: agrees_def)
  qed
qed (auto simp: agrees_def)

lemma poll_agrees_other:
  assumes "libs_ok L" "broker_ok L b" "traffic_ok L b" "conn_ok L cid cn" "agrees L b cid cn"
    and "poll_connection L env cid cn b = (cn', b')"
    and "cid2 \<noteq> cid" "conn_ok L cid2 cn2" "agrees L b cid2 cn2"
  shows "agrees L b' cid2 cn2"
proof (cases "cn_result cn2 = None")
  case run: True
  have ok: "registry_ok (lb_unicode L) (lb_sz L) (bk_registry b)" "senders_ok (bk_registry b)"
    using assms(2) by (simp_all add: broker_ok_def)
  have ib: "inbox L b' cid2 = inbox L b cid2"
    using poll_connection_keeps [OF assms(1,3,4,6)] assms(7) by (simp add: outer_frame_def inbox_def)
  show ?thesis
  proof (cases "cn_state cn2")
    case (Unauthenticated u)
    with assms(9) run ib poll_broker_ok(2) [OF assms(1-6)] assms(7) show ?thesis
      by (auto simp: agrees_def)
  next
    case (Joined j2)
    let ?key = "\<lambda>u. from_username (lb_unicode L) (lb_sz L) (u_username u)"
    have j2: "map_of (bk_registry b) (?key (jn_user j2)) = Some (jn_user j2)" "u_tx (jn_user j2) = cid2"
      using assms(8,9) run Joined by (simp_all add: agrees_def conn_ok_def state_ok_def)
    have "map_of (bk_registry b') (?key (jn_user j2)) = Some (jn_user j2)"
    proof (cases "cn_result cn")
      case (Some x)
      with assms(6) j2 show ?thesis by (auto simp: poll_connection_def)
    next
      case None
      consider (same) "bk_registry b' = bk_registry b"
        | (join) u where "joins L cid (bk_registry b) (bk_registry b') u"
        | (leave) j where "cn_state cn = Joined j" "leaves L (bk_registry b) (bk_registry b') (jn_user j)"
        using poll_connection_users [OF assms(1,3,4) None assms(6)] by blast
      then show ?thesis
      proof cases
        case join
        from joins_facts(6) [OF join ok j2(1)] show ?thesis .
      next
        case leave
        then have "map_of (bk_registry b) (?key (jn_user j)) = Some (jn_user j)" "u_tx (jn_user j) = cid"
          using assms(4,5) None by (simp_all add: agrees_def conn_ok_def state_ok_def)
        then have "?key (jn_user j2) \<noteq> ?key (jn_user j)" using j2 assms(7) by auto
        from leaves_facts(4) [OF leave(2) ok this] j2 show ?thesis by simp
      qed (use j2 in simp)
    qed
    with Joined show ?thesis by (simp add: agrees_def)
  next
    case Disconnected
    with assms(9) run show ?thesis by (simp add: agrees_def)
  qed
qed (auto simp: agrees_def)

subsection \<open>Phases\<close>

lemma phase_bounds [simp]: "Ph_Unauthenticated \<le> p" "p \<le> Ph_Disconnected"
  by (cases p; simp add: less_eq_phase_def phase_num_def)+

lemma phase_joined: "p \<le> q \<Longrightarrow> p \<noteq> Ph_Unauthenticated \<Longrightarrow> q \<noteq> Ph_Unauthenticated"
  by (cases p; cases q; simp add: less_eq_phase_def phase_num_def)

lemma poll_phase:
  assumes "libs_ok L" "traffic_ok L b" "conn_ok L cid cn" "poll_connection L env cid cn b = (cn', b')"
  shows "phase_of cn \<le> phase_of cn'"
proof (cases "cn_result cn' = None")
  case False
  then have "cn_state cn' = Disconnected"
    using poll_connection_keeps [OF assms] by (auto simp: conn_ok_def split: option.splits)
  then show ?thesis by (simp add: phase_of_def)
next
  case True
  then have None: "cn_result cn = None" using assms(4) by (auto simp: poll_connection_def split: if_splits)
  show ?thesis
    using poll_connection_users [OF assms(1-3) None assms(4)] True
    by (auto simp: phase_of_def same_user_def split: connection_state.splits)
qed

subsection \<open>The invariant of the server\<close>

lemma server_okD:
  assumes "server_ok L sv"
  shows "broker_ok L (sv_broker sv)" "traffic_ok L (sv_broker sv)" "conns_ok L sv" "permits_ok sv"
    "cid < length (sv_conns sv) \<Longrightarrow> conn_ok L cid (sv_conns sv ! cid)"
    "cid < length (sv_conns sv) \<Longrightarrow> agrees L (sv_broker sv) cid (sv_conns sv ! cid)"
    "registered (sv_broker sv) \<subseteq> {..< length (sv_conns sv)}" "sending_ok (sv_conns sv) (sv_broker sv)"
  using assms by (simp_all add: server_ok_def conns_ok_def)

lemma server_start_ok:
  assumes "libs_ok L"
  shows "server_ok L (server_start L uuid now)"
proof -
  have "0 < USER_CHANNEL_BUFFER_SIZE" by (simp add: USER_CHANNEL_BUFFER_SIZE_def)
  with assms room_ok_new [OF libs_okD(2) [OF assms]] show ?thesis
    by (simp add: server_ok_def server_start_def start_dispatcher_def broker_new_def broker_ok_def
        senders_ok_def registry_new_def traffic_ok_def queued_def inbox_def conns_ok_def registered_def
        permits_ok_def holds_permit_def lib_laws registry_ok_def sending_ok_def current_def task_ok_def)
qed

text \<open>A change of the broker that keeps the registry and the inboxes of the unregistered.\<close>

lemma agrees_cong:
  assumes "agrees L b cid cn" "bk_registry b' = bk_registry b"
    and "cid \<notin> registered b \<Longrightarrow> inbox L b' cid = inbox L b cid"
  shows "agrees L b' cid cn"
  using assms by (auto simp: agrees_def registered_def split: connection_state.splits)

lemma filter_running_update:
  assumes "cid < length cns"
  shows "length (filter running (cns[cid := cn])) + (if running (cns ! cid) then 1 else 0)
       = length (filter running cns) + (if running cn then 1 else 0)"
proof -
  have "length (filter running (take cid cns @ x # drop (Suc cid) cns))
      = length (filter running (take cid cns)) + length (filter running (drop (Suc cid) cns))
        + (if running x then 1 else 0)" for x
    by simp
  from this [of "cns ! cid"] this [of cn] show ?thesis
    by (simp only: id_take_nth_drop [OF assms, symmetric] upd_conv_take_nth_drop [OF assms])
qed

lemma poll_task_ok:
  assumes "libs_ok L" "server_ok L sv" "cid < length (sv_conns sv)"
  shows "server_ok L (poll_task L env cid sv)"
proof -
  note ok = server_okD [OF assms(2)]
  let ?cn = "sv_conns sv ! cid" and ?b = "sv_broker sv"
  obtain cn' b' where p: "poll_connection L env cid ?cn ?b = (cn', b')" by force
  note cn = ok(5) [OF assms(3)] ok(6) [OF assms(3)]
  have keeps: "conn_ok L cid cn'" "traffic_ok L b'" "outer_frame L cid ?b b'"
    using poll_connection_keeps [OF assms(1) ok(2) cn(1) p] by simp_all
  note bk = poll_broker_ok [OF assms(1) ok(1,2) cn p]
  have self: "agrees L b' cid cn'" by (rule poll_agrees_self [OF assms(1) ok(1,2) cn p])
  have other: "agrees L b' i (sv_conns sv ! i)" if "i < length (sv_conns sv)" "i \<noteq> cid" for i
    using poll_agrees_other [OF assms(1) ok(1,2) cn p that(2)] ok(5,6) that by blast
  have stays: "\<not> running ?cn \<Longrightarrow> \<not> running cn'" using p by (auto simp: poll_connection_def running_def)
  have "conns_ok L (poll_task L env cid sv)"
    using keeps(1) self other bk(2) ok(5,7) assms(3)
    by (auto simp: conns_ok_def poll_task_def p nth_list_update)
  moreover have "permits_ok (poll_task L env cid sv)"
    using ok(4) filter_running_update [OF assms(3), of cn'] stays
    by (auto simp: permits_ok_def poll_task_def p release_permit_def split: if_splits)
  moreover have cur: "current b' = current ?b" "bk_task b' = bk_task ?b"
    using keeps(3) by (simp_all add: outer_frame_def current_def)
  have nth: "(sv_conns sv)[cid := cn'] ! tx = (if tx = cid then cn' else sv_conns sv ! tx)" for tx
    using assms(3) by simp
  have "sending_ok ((sv_conns sv)[cid := cn']) b'"
    using ok(8) cur nth phase_joined [OF poll_phase [OF assms(1) ok(2) cn(1) p]] by (simp add: sending_ok_def)
  ultimately show ?thesis using bk(1) keeps(2) by (simp add: server_ok_def poll_task_def p)
qed

lemma accept_ok:
  assumes "libs_ok L" "server_ok L sv"
  shows "server_ok L (accept_connections L ev sv)"
proof (cases "sv_acceptor sv = Acc_Listening \<and> (\<exists>addr budget err. ev = Ae_Stream addr budget err)")
  case False
  have "sv_broker (accept_connections L ev sv) = sv_broker sv" "sv_conns (accept_connections L ev sv) = sv_conns sv"
    "permits_ok (accept_connections L ev sv)"
    using False server_okD(4) [OF assms(2)]
    by (auto simp: accept_connections_def permits_ok_def holds_permit_def try_acquire_permit_def
        release_permit_def split: acceptor.splits accept_event.splits option.splits if_splits)
  with server_okD [OF assms(2)] show ?thesis by (simp add: server_ok_def conns_ok_def)
next
  case True
  then obtain addr budget err where ev: "sv_acceptor sv = Acc_Listening" "ev = Ae_Stream addr budget err" by blast
  note ok = server_okD [OF assms(2)]
  let ?n = "length (sv_conns sv)" and ?b = "sv_broker sv"
  let ?b' = "?b\<lparr>bk_channels := (bk_channels ?b)(?n := mp_channel (lb_mp L) USER_CHANNEL_BUFFER_SIZE)\<rparr>"
  let ?cn = "\<lparr> cn_state = Unauthenticated \<lparr> ua_addr = addr, ua_tx = ?n, ua_rx = ?n \<rparr>,
     cn_sock = \<lparr> sk_reader = \<lparr> rd_data = [], rd_status = In_Open \<rparr>,
       sk_writer = \<lparr> wr_out = [], wr_budget = budget, wr_error = err \<rparr>, sk_buf = [], sk_await = Aw_Top \<rparr>,
     cn_result = None \<rparr>"
  have sv': "accept_connections L ev sv = sv\<lparr>sv_broker := ?b', sv_conns := sv_conns sv @ [?cn], sv_acceptor := Acc_Top\<rparr>"
    using ev by (simp add: accept_connections_def handle_connection_def unauthenticated_new_def)
  have ib: "inbox L ?b' tx = (if tx = ?n then [] else inbox L ?b tx)" for tx
    using assms(1) by (simp add: inbox_def lib_laws USER_CHANNEL_BUFFER_SIZE_def)
  have reg: "registered ?b' = registered ?b" "?n \<notin> registered ?b" using ok(7) by (auto simp: registered_def)
  have "broker_ok L ?b'" "traffic_ok L ?b'" using ok(1,2) ib by (simp_all add: broker_ok_def traffic_ok_def queued_def)
  moreover have "conn_ok L ?n ?cn" by (simp add: conn_ok_def state_ok_def sock_ok_def whole_lines_def exI [of _ "[]"])
  moreover have "agrees L ?b' ?n ?cn" using reg ib by (simp add: agrees_def)
  moreover have "agrees L ?b' i (sv_conns sv ! i)" if "i < ?n" for i
    using agrees_cong [OF ok(6) [OF that], of ?b'] ib that by simp
  ultimately have "server_ok L (sv\<lparr>sv_broker := ?b', sv_conns := sv_conns sv @ [?cn], sv_acceptor := Acc_Top\<rparr>)"
    using ok(4,5,7,8) reg ev(1)
    by (auto simp: server_ok_def conns_ok_def permits_ok_def holds_permit_def running_def nth_append less_Suc_eq
        sending_ok_def current_def)
  with sv' show ?thesis by simp
qed

text \<open>The dispatcher delivers well-formed messages, and to connections that have joined only.\<close>

lemma registered_joined:
  assumes "server_ok L sv" "tx \<in> registered (sv_broker sv)"
  shows "tx < length (sv_conns sv)" "phase_of (sv_conns sv ! tx) \<noteq> Ph_Unauthenticated"
proof -
  note ok = server_okD [OF assms(1)]
  show tx: "tx < length (sv_conns sv)" using ok(7) assms(2) by auto
  show "phase_of (sv_conns sv ! tx) \<noteq> Ph_Unauthenticated"
    using ok(5,6) [OF tx] assms(2)
    by (auto simp: phase_of_def agrees_def conn_ok_def split: option.splits connection_state.splits)
qed

lemma dispatch_task_ok:
  assumes "libs_ok L" "server_ok L sv" "de_join_ok e"
  shows "server_ok L (dispatch_task L e sv)"
proof -
  let ?b = "sv_broker sv" and ?b' = "dispatcher_poll L e (sv_broker sv)"
  note ok = server_okD [OF assms(2)]
  note k = dispatcher_poll_keeps [OF assms(1) ok(1) assms(3)]
  have room: "room_ok (lb_cb L) (bk_room ?b')" using k(1) by (simp add: broker_ok_def)
  have st: "bk_task ?b' \<noteq> Dp_NotStarted" using dispatcher_started ok(8) by (auto simp: sending_ok_def)
  have "list_all server_text (queued L ?b') \<and> (\<forall>tx. list_all server_text (inbox L ?b' tx))
    \<and> sending_ok (sv_conns sv) ?b'
    \<and> (\<forall>i < length (sv_conns sv). phase_of (sv_conns sv ! i) = Ph_Unauthenticated \<longrightarrow> inbox L ?b' i = inbox L ?b i)"
  proof (rule dispatcher_poll_cases [OF assms(1) ok(1) assms(3)], goal_cases)
    case (3 m ms)
    with ok(2) st registered_joined [OF assms(2)] show ?case by (simp add: sending_ok_def traffic_ok_def)
  next
    case (4 m A tx)
    with ok(2,8) st show ?case by (auto simp: sending_ok_def traffic_ok_def)
  qed (use ok(2,8) st in \<open>simp_all add: sending_ok_def traffic_ok_def\<close>)
  note eff = this
  have "agrees L ?b' i (sv_conns sv ! i)" if "i < length (sv_conns sv)" for i
    using ok(6) [OF that] eff that k(4,5) by (auto simp: agrees_def phase_of_def split: connection_state.splits)
  with eff room k(1,5) ok(4,5,7) show ?thesis
    by (simp add: server_ok_def dispatch_task_def traffic_ok_def conns_ok_def permits_ok_def)
qed

lemma agrees_flags [simp]:
  "agrees L (b\<lparr>bk_dispatcher_handle := h\<rparr>) cid cn = agrees L b cid cn"
  "agrees L (b\<lparr>bk_shutdown_flag := f\<rparr>) cid cn = agrees L b cid cn"
  by (cases "cn_state cn"; simp add: agrees_def registered_def inbox_def)+

lemma flags_server_ok:
  fixes sv :: "('q, 'c, 'g) server"
  shows
  "server_ok L (sv\<lparr>sv_broker := b\<lparr>bk_dispatcher_handle := h\<rparr>\<rparr>) \<longleftrightarrow> server_ok L (sv\<lparr>sv_broker := b\<rparr>)"
  "server_ok L (sv\<lparr>sv_broker := b\<lparr>bk_shutdown_flag := f\<rparr>\<rparr>) \<longleftrightarrow> server_ok L (sv\<lparr>sv_broker := b\<rparr>)"
  "server_ok L (sv\<lparr>sv_broker := b, sv_phase := ph\<rparr>) \<longleftrightarrow> server_ok L (sv\<lparr>sv_broker := b\<rparr>)"
  by (simp_all add: server_ok_def broker_ok_def traffic_ok_def queued_def inbox_def conns_ok_def
      registered_def permits_ok_def sending_ok_def current_def)

lemma stop_broker_ok: "server_ok L sv \<Longrightarrow> server_ok L (stop_broker sv)"
  by (simp add: stop_broker_def shutdown_def flags_server_ok)

lemma exit_main_ok: "server_ok L sv \<Longrightarrow> server_ok L (exit_main sv)"
  by (simp add: exit_main_def server_ok_def conns_ok_def permits_ok_def)

lemma ctrl_c_ok: "server_ok L sv \<Longrightarrow> server_ok L (ctrl_c sv)"
  by (auto simp: server_ok_def ctrl_c_def conns_ok_def permits_ok_def holds_permit_def release_permit_def)

lemma server_step_ok:
  assumes "server_step L sv l sv'" "libs_ok L" "server_ok L sv"
  shows "server_ok L sv'"
  using assms
  by cases (auto intro: accept_ok poll_task_ok dispatch_task_ok ctrl_c_ok stop_broker_ok exit_main_ok)

lemma server_step_phases:
  assumes "server_step L sv l sv'" "libs_ok L" "server_ok L sv"
  shows "phases sv \<le> phases sv'"
  using assms
proof cases
  case (poll_step cid env)
  let ?cn = "sv_conns sv ! cid"
  obtain cn' b' where p: "poll_connection L env cid ?cn (sv_broker sv) = (cn', b')" by force
  have "phase_of ?cn \<le> phase_of cn'"
    using poll_phase [OF assms(2) server_okD(2) [OF assms(3)] server_okD(5) [OF assms(3)] p] poll_step by simp
  with poll_step show ?thesis by (auto simp: le_fun_def phases_def poll_task_def p nth_list_update)
next
  case (accept_step ev)
  then show ?thesis
    by (auto simp: le_fun_def phases_def accept_connections_def nth_append handle_connection_def
        unauthenticated_new_def split: acceptor.splits accept_event.splits option.splits)
qed (auto simp: le_fun_def phases_def dispatch_task_def ctrl_c_def stop_broker_def exit_main_def split: prod.splits)

subsection \<open>Runs of the server\<close>

text \<open>The server is a transition system whose invariant holds in every reachable state and in
  which the phases of the connections never go back. The crates are part of the state of the
  system that never changes.\<close>

interpretation server: step_monotone
  "\<lambda>(L, sv) l (L', sv'). L' = L \<and> server_step L sv l sv'"
  "\<lambda>(L, sv). libs_ok L \<and> (\<exists>uuid now. sv = server_start L uuid now)"
  "\<lambda>(L, sv). libs_ok L \<and> server_ok L sv"
  "\<lambda>(L, sv). phases sv"
proof (unfold_locales, goal_cases)
  case (1 s)
  then show ?case by (auto simp: server_start_ok)
next
  case (2 s l s')
  then show ?case using server_step_ok by fastforce
next
  case (3 s l s')
  then show ?case using server_step_phases by fastforce
qed

lemma steps_pair:
  "steps (server_step L) sv ls sv' \<Longrightarrow>
   steps (\<lambda>(L, sv) l (L', sv'). L' = L \<and> server_step L sv l sv') (L, sv) ls (L, sv')"
  by (induction rule: steps.induct) (auto intro: steps.intros)

lemma reachable_ok:
  assumes "libs_ok L" "steps (server_step L) (server_start L uuid now) ls sv"
  shows "server_ok L sv"
  using server.inv_reachable [OF _ steps_pair [OF assms(2)]] assms(1) by auto

lemma reachable_conn:
  assumes "libs_ok L" "steps (server_step L) (server_start L uuid now) ls sv" "cid < length (sv_conns sv)"
  shows "conn_ok L cid (sv_conns sv ! cid)" "agrees L (sv_broker sv) cid (sv_conns sv ! cid)"
  using server_okD(5,6) [OF reachable_ok [OF assms(1,2)] assms(3)] .

lemma reachable_joined:
  assumes "libs_ok L" "steps (server_step L) (server_start L uuid now) ls sv" "cid < length (sv_conns sv)"
    and "running (sv_conns sv ! cid)" "cn_state (sv_conns sv ! cid) = Joined j"
  shows "map_of (bk_registry (sv_broker sv)) (from_username (lb_unicode L) (lb_sz L) (u_username (jn_user j)))
      = Some (jn_user j)"
    "u_tx (jn_user j) = cid" "valid_username (lb_unicode L) (u_username (jn_user j))"
proof -
  have n: "cn_result (sv_conns sv ! cid) = None" using assms(4) by (simp add: running_def)
  have st: "state_ok L cid (cn_state (sv_conns sv ! cid))"
    using reachable_conn(1) [OF assms(1-3)] n by (simp add: conn_ok_def)
  show "map_of (bk_registry (sv_broker sv)) (from_username (lb_unicode L) (lb_sz L) (u_username (jn_user j)))
      = Some (jn_user j)"
    using reachable_conn(2) [OF assms(1-3)] n assms(5) by (simp add: agrees_def)
  show "u_tx (jn_user j) = cid" "valid_username (lb_unicode L) (u_username (jn_user j))"
    using st unfolding assms(5) by (simp_all add: state_ok_def)
qed

lemma server_text_line: "server_text m \<Longrightarrow> newline \<notin> set m \<and> (\<exists>sm. m = encode_server sm)"
  using server_text_no_newline [of m] by (auto simp: server_text_def)

lemma lookup_registered: "map_of (bk_registry b) k = Some u \<Longrightarrow> u_tx u \<in> registered b"
  unfolding registered_def set_map by (rule image_eqI [of _ _ "(k, u)"]) (simp_all add: map_of_SomeD)

subsection \<open>Properties of the server\<close>


text \<open>Property C23: a connection that has not joined is not in the registry and no broadcast is ever
  delivered to it, so the \<open>Broadcast\<close> arm of \<open>tick_unauthenticated\<close> is never taken.\<close>

theorem unauthenticated_isolated:
  assumes "libs_ok L" "steps (server_step L) (server_start L uuid now) ls sv" "cid < length (sv_conns sv)"
    and "running (sv_conns sv ! cid)" "cn_state (sv_conns sv ! cid) = Unauthenticated u"
  shows "cid \<notin> registered (sv_broker sv) \<and> inbox L (sv_broker sv) cid = []"
  using reachable_conn(2) [OF assms(1-3)] assms(4,5) by (simp add: agrees_def running_def)


text \<open>Property C25: at every moment the free permits, the running connections and the permit that
  the accept loop may hold add up to \<open>MAX_CONNECTIONS\<close>; so there are never more than that many
  running connections, and no permit is lost, whatever way connections end.\<close>

theorem connection_limit:
  assumes "libs_ok L" "steps (server_step L) (server_start L uuid now) ls sv"
  shows "sem_permits (sv_semaphore sv) + length (filter running (sv_conns sv))
      + (if holds_permit (sv_acceptor sv) then 1 else 0) = MAX_CONNECTIONS
    \<and> length (filter running (sv_conns sv)) \<le> MAX_CONNECTIONS"
  using server_okD(4) [OF reachable_ok [OF assms]] by (auto simp: permits_ok_def)

text \<open>Property C26: the phase of a connection only goes forward, from \<open>Unauthenticated\<close> over \<open>Joined\<close> to
  \<open>Disconnected\<close>, along every run of the server.\<close>

theorem phases_forward:
  assumes "libs_ok L" "steps (server_step L) (server_start L uuid now) ls sv"
    and "steps (server_step L) sv ls' sv'"
  shows "phases sv cid \<le> phases sv' cid"
  using server.rank_steps [OF steps_pair [OF assms(3)]] reachable_ok [OF assms(1,2)] assms(1)
  by (simp add: le_fun_def)

lemma server_step_iff: "server_step L sv l sv' \<longleftrightarrow> server_exec L l sv = Some sv'"
  by (cases l) (auto simp: server_exec_def elim!: server_stepE intro: server_step.intros
      split: if_splits option.splits main_phase.splits)

lemma server_run_steps: "server_run L ls sv = Some sv' \<longleftrightarrow> steps (server_step L) sv ls sv'"
  by (induction ls arbitrary: sv) (auto simp: steps_Cons_iff server_step_iff split: option.splits)

subsection \<open>A concrete run\<close>

lemma after_join_run:
  "steps (server_step ref_libs) (server_start ref_libs [] []) two_join after_join"
proof -
  have "server_run ref_libs two_join (server_start ref_libs [] []) \<noteq> None" by code_simp
  then show ?thesis by (simp add: after_join_def flip: server_run_steps)
qed

lemma after_talk_run:
  "steps (server_step ref_libs) (server_start ref_libs [] []) (two_join @ one_talks) after_talk"
proof -
  have "server_run ref_libs (two_join @ one_talks) (server_start ref_libs [] []) \<noteq> None" by code_simp
  then show ?thesis by (simp add: after_talk_def flip: server_run_steps)
qed

lemma after_join_conns:
  "map phase_of (sv_conns after_join) = [Ph_Joined, Ph_Joined] \<and> list_all running (sv_conns after_join)"
  by code_simp

lemma after_join_joined:
  assumes "i < 2"
  obtains j where "i < length (sv_conns after_join)" "running (sv_conns after_join ! i)"
    "cn_state (sv_conns after_join ! i) = Joined j"
proof -
  have len: "length (sv_conns after_join) = 2"
    using after_join_conns by (metis length_map list.size(3,4) One_nat_def Suc_1 add.right_neutral add_Suc_right)
  then have "phase_of (sv_conns after_join ! i) = Ph_Joined"
    using after_join_conns assms nth_map [of i "sv_conns after_join" phase_of] by (auto simp: less_2_cases_iff)
  with that len assms after_join_conns show thesis
    by (auto simp: phase_of_def list_all_length split: connection_state.splits)
qed


lemma unauthenticated_isolated_witness:
  "0 \<notin> registered (sv_broker (the (server_run ref_libs knock (server_start ref_libs [] []))))"
proof -
  let ?sv = "the (server_run ref_libs knock (server_start ref_libs [] []))"
  have run: "server_run ref_libs knock (server_start ref_libs [] []) \<noteq> None
    \<and> 0 < length (sv_conns ?sv) \<and> running (sv_conns ?sv ! 0) \<and> phase_of (sv_conns ?sv ! 0) = Ph_Unauthenticated"
    by code_simp
  then have "steps (server_step ref_libs) (server_start ref_libs [] []) knock ?sv"
    by (simp flip: server_run_steps)
  moreover obtain u where "cn_state (sv_conns ?sv ! 0) = Unauthenticated u"
    using run by (auto simp: phase_of_def split: connection_state.splits)
  ultimately show ?thesis using unauthenticated_isolated [OF ref_libs_ok] run by blast
qed


lemma connection_limit_witness:
  "length (filter running (sv_conns after_join)) \<le> MAX_CONNECTIONS"
  using connection_limit [OF ref_libs_ok after_join_run] by simp

lemma phases_forward_witness: "phases (server_start ref_libs [] []) 0 \<le> phases after_join 0"
  by (rule phases_forward [OF ref_libs_ok steps_Nil after_join_run])

end
