(* ===== verification/Connection_Behaviour.thy ===== *)
theory Connection_Behaviour
  imports Server_Main
begin

text \<open>
  What a connection does, on the definitions of \<open>Connection\<close> and on the runs of \<open>Server_Main\<close>:
  draining the channel, the answers to \<open>JOIN\<close> and \<open>SEND\<close>, overlong lines, the ways of leaving,
  shutdown, and the two ways in which the code loses something (a name after a failed answer,
  the beginning of a line that a broadcast interrupts).

  \<open>unbroken\<close> says that the socket accepts everything that is written; \<open>out\<close> is what has been
  written to it. The runs at the end of the definitions are used by the witnesses.
\<close>

text \<open>With a socket that accepts everything, all messages are written in order.\<close>

definition unbroken :: "('q, 'c) io \<Rightarrow> bool" where
  "unbroken io \<longleftrightarrow> wr_budget (sk_writer (io_sock io)) = None"

definition out :: "('q, 'c) io \<Rightarrow> byte list" where
  "out io = wr_out (sk_writer (io_sock io))"

definition set_buf :: "byte list \<Rightarrow> ('q, 'c) io \<Rightarrow> ('q, 'c) io" where
  "set_buf bs = upd_sock (\<lambda>s. s\<lparr>sk_buf := bs\<rparr>)"

definition conn_io :: "nat \<Rightarrow> ('q, 'c, 'g) server \<Rightarrow> ('q, 'c) io" where
  "conn_io cid sv = \<lparr> io_broker = sv_broker sv, io_sock = cn_sock (sv_conns sv ! cid) \<rparr>"

text \<open>The server when one client has connected, and when two have joined and the dispatcher has
  delivered both announcements.\<close>

definition run_of :: "server_label list \<Rightarrow> (one_to_many fifo, byte list mfifo, gcra) server" where
  "run_of ls = the (server_run ref_libs ls (server_start ref_libs [] []))"

definition greeted :: "server_label list" where
  "greeted = two_join @ deliver @ deliver"

definition with_buf :: "rstr \<Rightarrow> ('q, 'c) io \<Rightarrow> ('q, 'c) io" where
  "with_buf s = upd_sock (\<lambda>k. k\<lparr>sk_buf := utf8 s @ [newline]\<rparr>)"

definition partial :: "server_label list" where
  "partial = two_join @ [SL_Poll 0 (quiet\<lparr>te_bytes := utf8 (lit ''SEND|he'')\<rparr>)] @ deliver"

definition stopping :: "server_label list" where
  "stopping = two_join @ deliver @ deliver @ [SL_CtrlC]"

subsection \<open>Draining the channel\<close>

lemma try_recv_cases:
  assumes "mpsc_ok (lb_mp L)" "mp_try_recv (lb_mp L) (bk_channels b rx) = (r, c')"
  shows "inbox L (b\<lparr>bk_channels := (bk_channels b)(rx := c')\<rparr>) tx
      = (if tx = rx then tl (inbox L b rx) else inbox L b tx)"
    "r = (case inbox L b rx of [] \<Rightarrow> None | m # ms \<Rightarrow> Some m)"
  using mpsc_try_recv [OF assms] by (simp_all add: inbox_def)

text \<open>More fuel than there are messages changes nothing.\<close>

lemma drain_loop_enough:
  assumes "mpsc_ok (lb_mp L)" "length (inbox L (io_broker io) rx) < n"
  shows "drain_loop L rx n io = drain_loop L rx (Suc (length (inbox L (io_broker io) rx))) io"
  using assms(2)
proof (induction n arbitrary: io)
  case (Suc n)
  let ?b = "io_broker io"
  obtain r c' where t: "mp_try_recv (lb_mp L) (bk_channels ?b rx) = (r, c')" by force
  note law = try_recv_cases [OF assms(1) t]
  let ?io1 = "io\<lparr>io_broker := ?b\<lparr>bk_channels := (bk_channels ?b)(rx := c')\<rparr>\<rparr>"
  show ?case
  proof (cases "inbox L ?b rx")
    case Nil
    with law(2) t show ?thesis by simp
  next
    case (Cons m ms)
    have "drain_loop L rx n io2 = drain_loop L rx (Suc (length ms)) io2"
      if "on_writer (write_line m) ?io1 = (Inr u, io2)" for u io2
    proof -
      have "io_broker io2 = io_broker ?io1" using on_writer_fields(1) [of "write_line m" ?io1] that by simp
      then have "inbox L (io_broker io2) rx = ms" using law(1) [of rx] Cons by simp
      with Suc.IH [of io2] Suc.prems Cons show ?thesis by simp
    qed
    then have eq: "try_bind (on_writer (write_line m) ?io1) (\<lambda>_ io. drain_loop L rx n io)
        = try_bind (on_writer (write_line m) ?io1) (\<lambda>_ io. drain_loop L rx (Suc (length ms)) io)"
      by (cases "on_writer (write_line m) ?io1"; cases "fst (on_writer (write_line m) ?io1)") auto
    have step: "drain_loop L rx (Suc k) io = try_bind (on_writer (write_line m) ?io1) (\<lambda>_ io. drain_loop L rx k io)" for k
      using law(2) t Cons by (simp add: Let_def)
    show ?thesis by (simp only: Cons length_Cons step eq)
  qed
qed simp

lemma on_writer_unbroken:
  assumes "unbroken io"
  obtains io' where "on_writer (write_line m) io = (Inr (), io')" "unbroken io'" "out io' = out io @ m @ [newline]"
    "io_broker io' = io_broker io" "sk_reader (io_sock io') = sk_reader (io_sock io)"
    "sk_buf (io_sock io') = sk_buf (io_sock io)" "sk_await (io_sock io') = sk_await (io_sock io)"
  using assms by (auto simp: on_writer_def write_line_ok unbroken_def out_def upd_sock_def)

lemma drain_loop_complete:
  assumes "mpsc_ok (lb_mp L)" "unbroken io" "length (inbox L (io_broker io) rx) < n"
  shows "\<exists>io'. drain_loop L rx n io = (Inr (), io') \<and> unbroken io'
    \<and> out io' = out io @ lines (inbox L (io_broker io) rx)
    \<and> inbox L (io_broker io') rx = [] \<and> (\<forall>tx. tx \<noteq> rx \<longrightarrow> bk_channels (io_broker io') tx = bk_channels (io_broker io) tx)
    \<and> bk_room (io_broker io') = bk_room (io_broker io) \<and> bk_registry (io_broker io') = bk_registry (io_broker io)"
  using assms(2,3)
proof (induction n arbitrary: io)
  case (Suc n)
  let ?b = "io_broker io"
  obtain r c' where t: "mp_try_recv (lb_mp L) (bk_channels ?b rx) = (r, c')" by force
  note law = try_recv_cases [OF assms(1) t]
  let ?io1 = "io\<lparr>io_broker := ?b\<lparr>bk_channels := (bk_channels ?b)(rx := c')\<rparr>\<rparr>"
  have io1: "unbroken ?io1" "out ?io1 = out io" using Suc.prems(1) by (simp_all add: unbroken_def out_def)
  show ?case
  proof (cases "inbox L ?b rx")
    case Nil
    with law t io1 show ?thesis by (simp add: Let_def)
  next
    case (Cons m ms)
    obtain io2 where w: "on_writer (write_line m) ?io1 = (Inr (), io2)" "unbroken io2"
      "out io2 = out ?io1 @ m @ [newline]" "io_broker io2 = io_broker ?io1"
      using on_writer_unbroken [OF io1(1), of m] by metis
    have ms: "inbox L (io_broker io2) rx = ms" using law(1) [of rx] Cons w(4) by simp
    then obtain io3 where "drain_loop L rx n io2 = (Inr (), io3)" "unbroken io3"
      "out io3 = out io2 @ lines ms" "inbox L (io_broker io3) rx = []"
      "\<forall>tx. tx \<noteq> rx \<longrightarrow> bk_channels (io_broker io3) tx = bk_channels (io_broker io2) tx"
      "bk_room (io_broker io3) = bk_room (io_broker io2)" "bk_registry (io_broker io3) = bk_registry (io_broker io2)"
      using Suc.IH [OF w(2)] Suc.prems(2) Cons by auto
    with law(2) t Cons w io1(2) show ?thesis by (simp add: Let_def)
  qed
qed simp

subsection \<open>Commands of a joined user\<close>

lemma decode_field_length:
  assumes "sz_ok sz" "length bs \<le> usize_max" "decode_client U sz bs = Inr cm" "cm = CM_Join t \<or> cm = CM_Send t"
  shows "length (utf8 t) \<le> length bs"
proof -
  from assms(3) obtain s where s: "from_utf8 bs = Some s" "trim s \<noteq> []"
    by (auto simp: decode_client_def Let_def split: option.splits if_splits)
  note d = decode_text [OF assms(1,2) s]
  have "after_field (trim s) = Some t"
    using assms(3,4) decode_client_text [OF assms(1,2) s, of U]
    by (auto simp: match_command_def Let_def split: if_splits option.splits)
  from str_len_rest [OF d(2) this] have "length (utf8 t) \<le> length (utf8 (trim s))" by (simp add: str_len_def)
  also have "\<dots> \<le> length bs" using str_len_trim [of s] from_utf8_sound [OF s(1)] by (simp add: str_len_def)
  finally show ?thesis .
qed

lemma valid_name_bar: "valid_username U n \<Longrightarrow> bar \<notin> set (username_to_string n)"
  by (auto simp: valid_username_def valid_name_def list_all_iff is_valid_username_char_def is_alphanumeric_def
      bar_def is_ascii_char_def is_ascii_digit_def is_ascii_alphabetic_def is_ascii_uppercase_def is_ascii_lowercase_def)

lemma broadcast_canonical:
  assumes "libs_ok L" "valid_username (lb_unicode L) n" "line_buf buf"
    and "decode_client (lb_unicode L) (lb_sz L) buf = Inr (CM_Send t)"
  shows "canonical_server (SM_Broadcast (username_to_string n) t)"
    "length (encode_server (SM_Broadcast (username_to_string n) t)) \<le> usize_max"
proof -
  have lb: "length buf \<le> MAX_CLIENT_BUFFER_SIZE" using assms(3) by (simp add: line_buf_def)
  then have us: "length buf \<le> usize_max" by (simp add: MAX_CLIENT_BUFFER_SIZE_def usize_max_def)
  have "canonical_client (CM_Send t)"
    using decode_client_canonical [OF libs_okD(1) [OF assms(1)] us assms(4)] .
  then show "canonical_server (SM_Broadcast (username_to_string n) t)"
    using assms(2) valid_name_bar [OF assms(2)]
    by (simp add: canonical_client_def canonical_server_def valid_username_def)
  have "length (utf8 (username_to_string n)) \<le> 4 * MAX_USERNAME_LEN"
    using length_utf8_le [of "username_to_string n"] assms(2) by (simp add: valid_username_def valid_name_def)
  moreover have "length (utf8 t) \<le> MAX_CLIENT_BUFFER_SIZE"
    using decode_field_length [OF libs_okD(1) [OF assms(1)] us assms(4), of t] lb by simp
  ultimately show "length (encode_server (SM_Broadcast (username_to_string n) t)) \<le> usize_max"
    by (simp add: encode_server_def FIELD_SEPARATOR_bar wire_simps utf8_char_def MAX_USERNAME_LEN_def
        MAX_CLIENT_BUFFER_SIZE_def usize_max_def)
qed

text \<open>The message that a joined user's line turns into decodes to that user's name and text.\<close>

lemma broadcast_decodes:
  assumes "libs_ok L" "valid_username (lb_unicode L) n" "line_buf buf"
    and "decode_client (lb_unicode L) (lb_sz L) buf = Inr (CM_Send t)"
  shows "decode_server U (lb_sz L) (encode_server (SM_Broadcast (username_to_string n) t))
    = Inr (SM_Broadcast (username_to_string n) t)"
  using decode_encode_server [OF libs_okD(1) [OF assms(1)] broadcast_canonical [OF assms]] .

subsection \<open>Properties of a connection\<close>


text \<open>Property C8: a \<open>SEND\<close> line of a joined user puts exactly one message into the room, if it has
  space: the broadcast of the text under the registered name of that user, which every client
  decodes to this name and text, whatever separators the text contains. Nothing is written
  to the sender. If the room is full, the sender gets an error and the room is unchanged. While
  the rate limiter holds the message back, nothing changes and the line stays in the buffer.\<close>

theorem send_attributed:
  assumes "libs_ok L" "room_ok (lb_cb L) (bk_room (io_broker io))" "state_ok L cid (Joined j)"
    and "line_buf (sk_buf (io_sock io))"
    and "decode_client (lb_unicode L) (lb_sz L) (sk_buf (io_sock io)) = Inr (CM_Send t)"
    and "handle_joined_message L env j io = (p, io')"
  shows "let m = encode_server (SM_Broadcast (user_to_string (jn_user j)) t) in
    decode_server U (lb_sz L) m = Inr (SM_Broadcast (user_to_string (jn_user j)) t)
    \<and> (if acquire (lb_gov L) (jn_rate_limiter j) (te_now env) = Pending
       then p = Pending \<and> io' = set_await Aw_Limit io
       else if length (queued L (io_broker io)) < room_capacity (lb_cb L) (bk_room (io_broker io))
       then queued L (io_broker io') = queued L (io_broker io) @ [m] \<and> io_sock io' = io_sock io
            \<and> (\<exists>j'. p = Ready (Inr (False, j')) \<and> jn_user j' = jn_user j)
       else queued L (io_broker io') = queued L (io_broker io)
            \<and> io_sock io' = io_sock (snd (send_message_to_client (SM_Err (room_error_to_string RE_Timeout)) io)))"
proof -
  let ?m = "encode_server (SM_Broadcast (user_to_string (jn_user j)) t)"
  have v: "valid_username (lb_unicode L) (u_username (jn_user j))" using assms(3) by (simp add: state_ok_def)
  have dec: "decode_server U (lb_sz L) ?m = Inr (SM_Broadcast (user_to_string (jn_user j)) t)"
    using broadcast_decodes [OF assms(1) v assms(4,5)] by (simp add: user_to_string_def)
  obtain q b' where f: "forward_to_room L (io_broker io) ?m = (q, b')" by force
  note law = forward_law [OF assms(1,2) f]
  show ?thesis
  proof (cases "acquire (lb_gov L) (jn_rate_limiter j) (te_now env)")
    case Pending
    with assms(5,6) dec show ?thesis by (simp add: handle_joined_message_def)
  next
    case (Ready rl)
    then obtain r where r: "p = Ready r"
      and h: "(r, io') = try_bind (forward_or_report L ?m io) (\<lambda>_ io. (Inr (False, j\<lparr>jn_rate_limiter := rl\<rparr>), io))"
      using assms(5,6) by (auto simp: handle_joined_message_def user_to_string_def get_username_def)
    show ?thesis
    proof (cases "length (queued L (io_broker io)) < room_capacity (lb_cb L) (bk_room (io_broker io))")
      case True
      with law h f dec r Ready show ?thesis by (simp add: forward_or_report_def Let_def)
    next
      case False
      have "send_message_to_client (SM_Err (room_error_to_string RE_Timeout)) (io\<lparr>io_broker := b'\<rparr>) =
        (fst (send_message_to_client (SM_Err (room_error_to_string RE_Timeout)) io),
         (snd (send_message_to_client (SM_Err (room_error_to_string RE_Timeout)) io))\<lparr>io_broker := b'\<rparr>)"
        by (simp add: send_message_to_client_def on_writer_def upd_sock_def case_prod_beta)
      with False law h f dec r Ready show ?thesis
        by (auto simp: forward_or_report_def Let_def try_bind_def split: sum.splits)
    qed
  qed
qed

lemma drain_ok:
  assumes "libs_ok L" "unbroken io"
  obtains io' where "drain_broadcasts L j io = (Inr (), io')" "unbroken io'"
    "out io' = out io @ lines (inbox L (io_broker io) (jn_rx j))" "inbox L (io_broker io') (jn_rx j) = []"
    "bk_room (io_broker io') = bk_room (io_broker io)" "bk_registry (io_broker io') = bk_registry (io_broker io)"
  using drain_loop_complete [OF libs_okD(3) [OF assms(1)] assms(2), of "jn_rx j"]
  by (fastforce simp: drain_broadcasts_def simp del: drain_loop.simps)

lemma send_ok:
  assumes "unbroken io" "clean_server m"
  obtains io' where "send_message_to_client m io = (Inr (), io')" "unbroken io'"
    "out io' = out io @ lines [encode_server m]" "io_broker io' = io_broker io"
    "sk_reader (io_sock io') = sk_reader (io_sock io)"
  using on_writer_unbroken [OF assms(1), of "encode_server m"]
  by (force simp: send_message_to_client_def encode_clean(2) [OF assms(2)])

lemma forward_ok:
  assumes "libs_ok L" "room_ok (lb_cb L) (bk_room (io_broker io))"
    and "length (queued L (io_broker io)) < room_capacity (lb_cb L) (bk_room (io_broker io))"
  obtains io' where "forward_or_report L m io = (Inr (), io')" "io_sock io' = io_sock io"
    "queued L (io_broker io') = queued L (io_broker io) @ [m]"
    "bk_registry (io_broker io') = bk_registry (io_broker io)"
proof -
  obtain r b' where f: "forward_to_room L (io_broker io) m = (r, b')" by force
  note law = forward_law [OF assms(1,2) f]
  have "bk_registry b' = bk_registry (io_broker io)" by (subst law(5)) simp
  with that [of "io\<lparr>io_broker := b'\<rparr>"] law(1,2) f assms(3) show thesis
    by (simp add: forward_or_report_def Let_def)
qed

lemma out_simps [simp]:
  "out (io\<lparr>io_broker := b\<rparr>) = out io" "unbroken (io\<lparr>io_broker := b\<rparr>) \<longleftrightarrow> unbroken io"
  by (simp_all add: out_def unbroken_def)

lemma sock_out: "io_sock io' = io_sock io \<Longrightarrow> out io' = out io \<and> (unbroken io' \<longleftrightarrow> unbroken io)"
  by (simp add: out_def unbroken_def)

subsection \<open>Joining\<close>

lemma join_event:
  assumes "0 < k" "decode_client (lb_unicode L) (lb_sz L) (sk_buf (io_sock io)) = Inr (CM_Join raw)"
    and "unauthenticated_join L (te_locked env) u raw (io_broker io) = (q, b')"
  shows "unauthenticated_event L env u (IE_Data k) io =
     (case q of
        Inr joined \<Rightarrow>
          try_bind (forward_or_report L (encode_server (SM_UserJoined raw)) (io\<lparr>io_broker := b'\<rparr>))
            (\<lambda>_ io. try_bind (send_message_to_client SM_Ok io) (\<lambda>_ io. (Inr (Joined joined), io)))
      | Inl (returned_state, reason) \<Rightarrow>
          try_bind (send_message_to_client (SM_Err reason) (io\<lparr>io_broker := b'\<rparr>))
            (\<lambda>_ io. (Inr (Unauthenticated returned_state), io)))"
  using assms by (simp add: unauthenticated_event_def split: sum.split)

lemma join_event_refused:
  assumes "0 < k" "decode_client (lb_unicode L) (lb_sz L) (sk_buf (io_sock io)) = Inr (CM_Join raw)"
    and "unauthenticated_join L (te_locked env) u raw (io_broker io) = (Inl (u, reason), io_broker io)"
    and "unbroken io" "clean reason" "unauthenticated_event L env u (IE_Data k) io = (r, io')"
  shows "r = Inr (Unauthenticated u) \<and> io_broker io' = io_broker io
    \<and> out io' = out io @ lines [encode_server (SM_Err reason)]"
proof -
  obtain io1 where "send_message_to_client (SM_Err reason) io = (Inr (), io1)"
    "out io1 = out io @ lines [encode_server (SM_Err reason)]" "io_broker io1 = io_broker io"
    using send_ok [of io "SM_Err reason"] assms(4,5) by (auto simp: clean_server_def)
  with join_event [OF assms(1-3)] assms(6) show ?thesis by simp
qed

lemma join_event_admitted:
  assumes "libs_ok L" "room_ok (lb_cb L) (bk_room (io_broker io))" "unbroken io"
    and "length (queued L (io_broker io)) < room_capacity (lb_cb L) (bk_room (io_broker io))"
    and "0 < k" "decode_client (lb_unicode L) (lb_sz L) (sk_buf (io_sock io)) = Inr (CM_Join raw)"
    and "unauthenticated_join L (te_locked env) u raw (io_broker io) = (Inr j, (io_broker io)\<lparr>bk_registry := users\<rparr>)"
    and "unauthenticated_event L env u (IE_Data k) io = (r, io')"
  shows "r = Inr (Joined j) \<and> bk_registry (io_broker io') = users
    \<and> queued L (io_broker io') = queued L (io_broker io) @ [encode_server (SM_UserJoined raw)]
    \<and> out io' = out io @ lines [encode_server SM_Ok]"
proof -
  let ?io1 = "io\<lparr>io_broker := (io_broker io)\<lparr>bk_registry := users\<rparr>\<rparr>"
  have "room_ok (lb_cb L) (bk_room (io_broker ?io1))"
    "length (queued L (io_broker ?io1)) < room_capacity (lb_cb L) (bk_room (io_broker ?io1))"
    using assms(2,4) by (simp_all add: queued_def)
  then obtain io2 where f: "forward_or_report L (encode_server (SM_UserJoined raw)) ?io1 = (Inr (), io2)"
    "io_sock io2 = io_sock ?io1"
    "queued L (io_broker io2) = queued L (io_broker ?io1) @ [encode_server (SM_UserJoined raw)]"
    "bk_registry (io_broker io2) = bk_registry (io_broker ?io1)"
    using forward_ok [OF assms(1), of ?io1] by metis
  have "unbroken io2" "out io2 = out io" using sock_out [OF f(2)] assms(3) by simp_all
  then obtain io3 where s: "send_message_to_client SM_Ok io2 = (Inr (), io3)"
    "out io3 = out io @ lines [encode_server SM_Ok]" "io_broker io3 = io_broker io2"
    using send_ok [of io2 SM_Ok] by (auto simp: clean_server_def)
  have "(r, io') = (Inr (Joined j), io3)" using join_event [OF assms(5-7)] assms(8) f(1) s(1) by simp
  with f(3,4) s show ?thesis by (simp add: queued_def)
qed

text \<open>Property C6: the answer to a \<open>JOIN\<close> line while the lock is free, the room has space and the
  socket works. An invalid or taken name is refused with its reason, and the registry and
  the room stay as they are. A valid free name is registered under its folded form, announced
  in the room, and acknowledged with \<open>OK\<close>; the connection is then joined under that name.\<close>

theorem join_outcome:
  fixes L :: "('q, 'c, 'g) libs"
  assumes "libs_ok L" "room_ok (lb_cb L) (bk_room (io_broker io))" "wr_budget (sk_writer (io_sock io)) = None"
    and "length (queued L (io_broker io)) < room_capacity (lb_cb L) (bk_room (io_broker io))"
    and "line_buf (sk_buf (io_sock io))" "0 < k" "te_locked env"
    and "decode_client (lb_unicode L) (lb_sz L) (sk_buf (io_sock io)) = Inr (CM_Join raw)"
    and "unauthenticated_event L env u (IE_Data k) io = (r, io')"
    and "state_ok L cid (Unauthenticated u :: 'g connection_state)"
  shows "let users = bk_registry (io_broker io); users' = bk_registry (io_broker io');
             key = from_username (lb_unicode L) (lb_sz L);
             refused = (\<lambda>e. r = Inr (Unauthenticated u) \<and> users' = users
               \<and> queued L (io_broker io') = queued L (io_broker io)
               \<and> out io' = out io @ lines [encode_server (SM_Err (user_error_to_string e))])
    in case username_new (lb_unicode L) (lb_sz L) raw of
         Inl e \<Rightarrow> refused e
       | Inr n \<Rightarrow>
           if map_of users (key n) \<noteq> None then refused (UE_UsernameTaken (username_to_string n))
           else (\<exists>j. r = Inr (Joined j) \<and> jn_user j = user_new n cid \<and> jn_rx j = cid)
                \<and> users' = (key n, user_new n cid) # users
                \<and> queued L (io_broker io') = queued L (io_broker io) @ [encode_server (SM_UserJoined raw)]
                \<and> out io' = out io @ lines [encode_server SM_Ok]"
proof -
  have raw: "clean raw" using decode_line_clean(1) [OF libs_okD(1) [OF assms(1)] assms(5,8)] .
  have ub: "unbroken io" using assms(3) by (simp add: unbroken_def)
  have tx: "ua_tx u = cid" "ua_rx u = cid" using assms(10) by (simp_all add: state_ok_def)
  have cl: "clean reason" if "unauthenticated_join L (te_locked env) u raw (io_broker io) = (Inl (u, reason), b)" for reason b
    using join_keeps(3) [OF assms(1,10) raw that] by simp
  show ?thesis
  proof (cases "username_new (lb_unicode L) (lb_sz L) raw")
    case (Inl e)
    then have j: "unauthenticated_join L (te_locked env) u raw (io_broker io) = (Inl (u, user_error_to_string e), io_broker io)"
      by (simp add: unauthenticated_join_def)
    from join_event_refused [OF assms(6,8) j ub cl [OF j] assms(9)] Inl show ?thesis by (simp add: Let_def)
  next
    case (Inr n)
    let ?key = "from_username (lb_unicode L) (lb_sz L) n" and ?e = "UE_UsernameTaken (username_to_string n)"
    show ?thesis
    proof (cases "map_of (bk_registry (io_broker io)) ?key = None")
      case False
      then have j: "unauthenticated_join L (te_locked env) u raw (io_broker io) = (Inl (u, user_error_to_string ?e), io_broker io)"
        using Inr assms(7) by (simp add: unauthenticated_join_def register_cases)
      from join_event_refused [OF assms(6,8) j ub cl [OF j] assms(9)] Inr False show ?thesis by (simp add: Let_def)
    next
      case True
      then obtain jn where j: "unauthenticated_join L (te_locked env) u raw (io_broker io)
          = (Inr jn, (io_broker io)\<lparr>bk_registry := (?key, user_new n cid) # bk_registry (io_broker io)\<rparr>)"
        and jn: "jn_user jn = user_new n cid" "jn_rx jn = cid"
        using Inr assms(7) by (auto simp: unauthenticated_join_def register_cases tx)
      from join_event_admitted [OF assms(1,2) ub assms(4,6,8) j assms(9)] True Inr jn show ?thesis
        by (simp add: Let_def)
    qed
  qed
qed

subsection \<open>Overlong lines\<close>

text \<open>A wait that finds no shutdown signal and no broadcast reads.\<close>

lemma wait_reads:
  assumes "libs_ok L" "te_shutdown env = None" "inbox L (io_broker io) rx = []"
    and "\<not> mp_no_senders (lb_mp L) (bk_channels (io_broker io) rx)"
  obtains b' where "wait_for_input L env (Some rx) io = read_branch env (io\<lparr>io_broker := b'\<rparr>)"
    "queued L b' = queued L (io_broker io)" "bk_registry b' = bk_registry (io_broker io)"
proof -
  let ?b = "io_broker io"
  obtain r c' where rc: "mp_recv (lb_mp L) (bk_channels ?b rx) = (r, c')" by force
  have "r = Pending" using mpsc_recv(1) [OF libs_okD(3) [OF assms(1)] rc] assms(3,4) by (simp add: inbox_def)
  then have "wait_for_input L env (Some rx) io
      = read_branch env (io\<lparr>io_broker := ?b\<lparr>bk_channels := (bk_channels ?b)(rx := c')\<rparr>\<rparr>)"
    using assms(2) rc by (simp add: wait_for_input_def Let_def)
  with that show thesis by (simp add: queued_def)
qed

lemma find_index_append:
  "newline \<notin> set xs \<Longrightarrow> find_index (\<lambda>b. b = newline) (xs @ ys)
     = map_option ((+) (length xs)) (find_index (\<lambda>b. b = newline) ys)"
  by (induction xs) (cases "find_index (\<lambda>b. b = newline) ys"; auto)+

text \<open>A line of at least \<open>MAX_CLIENT_BUFFER_SIZE\<close> bytes before its line feed is too long; the read
  takes one byte more than the limit.\<close>

lemma read_branch_too_long:
  assumes "sk_buf (io_sock io) = []" "rd_data (sk_reader (io_sock io)) = xs @ newline # rest"
    and "newline \<notin> set xs" "MAX_CLIENT_BUFFER_SIZE \<le> length xs"
  obtains io' where "read_branch env io = (Ready (Inl CE_MessageTooLong), io')"
    "io_broker io' = io_broker io" "sk_writer (io_sock io') = sk_writer (io_sock io)"
    "if length xs = MAX_CLIENT_BUFFER_SIZE
     then ends_line (sk_buf (io_sock io')) \<and> rd_data (sk_reader (io_sock io')) = rest
     else \<not> ends_line (sk_buf (io_sock io'))
       \<and> rd_data (sk_reader (io_sock io')) = drop (Suc MAX_CLIENT_BUFFER_SIZE) xs @ newline # rest"
proof -
  let ?N = "Suc MAX_CLIENT_BUFFER_SIZE" and ?r = "sk_reader (io_sock io)"
  show thesis
  proof (cases "length xs = MAX_CLIENT_BUFFER_SIZE")
    case True
    then have tk: "take ?N (xs @ newline # rest) = xs @ [newline]" by simp
    have "read_until ?N [] ?r = (Ready (Inr ?N), xs @ [newline], ?r\<lparr>rd_data := rest\<rparr>)"
      using assms(2,3) True
      by (simp add: read_until_def Let_def tk find_index_append del: take_append)
    with True assms(1) that show thesis
      by (simp add: read_branch_def Let_def ends_line_def)
  next
    case False
    with assms(4) have len: "?N \<le> length xs" by simp
    then have tk: "take ?N (xs @ newline # rest) = take ?N xs" by simp
    have nn: "newline \<notin> set (take ?N xs)" using assms(3) by (meson in_set_takeD)
    then have "find_index (\<lambda>b. b = newline) (take ?N xs) = None" by (auto simp: find_index_None)
    then have "read_until ?N [] ?r = (Ready (Inr ?N), take ?N xs, ?r\<lparr>rd_data := drop ?N xs @ newline # rest\<rparr>)"
      using assms(2) len by (simp add: read_until_def Let_def tk del: take_append)
    moreover have "\<not> ends_line (take ?N xs)" using nn ends_line_iff by blast
    ultimately show thesis using False assms(1) that
      by (simp add: read_branch_def Let_def)
  qed
qed

lemma finish_too_long_ok:
  assumes "unbroken io"
  obtains io' where "finish_too_long j io = (Inr (Joined j), io')"
    "out io' = out io @ lines [encode_server (SM_Err (connection_error_to_string CE_MessageTooLong))]"
    "io_broker io' = io_broker io" "sk_reader (io_sock io') = sk_reader (io_sock io)"
proof -
  have "unbroken (buf_clear io)" "out (buf_clear io) = out io"
    using assms by (simp_all add: unbroken_def out_def)
  with send_ok [of "buf_clear io" "SM_Err (connection_error_to_string CE_MessageTooLong)"] that
  show thesis by (fastforce simp: finish_too_long_def clean_server_def)
qed


subsection \<open>Leaving\<close>

text \<open>Draining and then leaving: the pending broadcasts are written and the name is freed.\<close>

lemma drain_leave:
  assumes "libs_ok L" "unbroken io"
  obtains io1 where "drain_broadcasts L j io = (Inr (), io1)"
    "let io2 = snd (leave L True j io1) in unbroken io2
      \<and> out io2 = out io @ lines (inbox L (io_broker io) (jn_rx j))
      \<and> bk_room (io_broker io2) = bk_room (io_broker io)
      \<and> bk_registry (io_broker io2)
          = AList.delete (from_username (lb_unicode L) (lb_sz L) (u_username (jn_user j))) (bk_registry (io_broker io))"
proof -
  obtain io1 where d: "drain_broadcasts L j io = (Inr (), io1)" "unbroken io1"
    "out io1 = out io @ lines (inbox L (io_broker io) (jn_rx j))" "inbox L (io_broker io1) (jn_rx j) = []"
    "bk_room (io_broker io1) = bk_room (io_broker io)" "bk_registry (io_broker io1) = bk_registry (io_broker io)"
    using drain_ok [OF assms] .
  have "bk_registry (io_broker (snd (leave L True j io1)))
      = AList.delete (from_username (lb_unicode L) (lb_sz L) (u_username (jn_user j))) (bk_registry (io_broker io))"
    using users_leave [of L True j io1] d(6) by (simp add: users_of_def unregister_cases)
  with d that show thesis by (simp add: leave_def case_prod_beta)
qed

text \<open>Property C9: the three ways in which a joined user departs while the lock is free, the room
  has space and the socket works: the shutdown signal, the end of the input and the command
  \<open>LEAVE\<close>. Each writes the pending broadcasts, frees the name and ends the connection; only the
  end of the input announces the departure to the others, by exactly one \<open>LEFT\<close> message.\<close>

theorem departure_effects:
  assumes "libs_ok L" "room_ok (lb_cb L) (bk_room (io_broker io))" "wr_budget (sk_writer (io_sock io)) = None"
    and "length (queued L (io_broker io)) < room_capacity (lb_cb L) (bk_room (io_broker io))" "te_locked env"
    and "ev = IE_Shutdown \<or> ev = IE_Data 0
      \<or> ev = IE_Data (Suc k) \<and> decode_client (lb_unicode L) (lb_sz L) (sk_buf (io_sock io)) = Inr CM_Leave"
    and "joined_event L env j ev io = (p, io')"
  shows "p = Ready (Inr Disconnected)
    \<and> wr_out (sk_writer (io_sock io')) = wr_out (sk_writer (io_sock io)) @ lines (inbox L (io_broker io) (jn_rx j))
    \<and> bk_registry (io_broker io')
        = AList.delete (from_username (lb_unicode L) (lb_sz L) (u_username (jn_user j))) (bk_registry (io_broker io))
    \<and> queued L (io_broker io') = queued L (io_broker io)
        @ (if ev = IE_Data 0 then [encode_server (SM_UserLeft (user_to_string (jn_user j)))] else [])"
proof -
  have ub: "unbroken io" using assms(3) by (simp add: unbroken_def)
  obtain io1 where d: "drain_broadcasts L j io = (Inr (), io1)"
    and l: "let io2 = snd (leave L True j io1) in unbroken io2
      \<and> out io2 = out io @ lines (inbox L (io_broker io) (jn_rx j))
      \<and> bk_room (io_broker io2) = bk_room (io_broker io)
      \<and> bk_registry (io_broker io2)
          = AList.delete (from_username (lb_unicode L) (lb_sz L) (u_username (jn_user j))) (bk_registry (io_broker io))"
    using drain_leave [OF assms(1) ub] .
  let ?io2 = "snd (leave L True j io1)" and ?m = "encode_server (SM_UserLeft (user_to_string (jn_user j)))"
  have q: "queued L (io_broker ?io2) = queued L (io_broker io)" using l by (simp add: queued_def Let_def)
  from assms(6) consider (quiet) "ev = IE_Shutdown \<or> ev = IE_Data (Suc k)
      \<and> decode_client (lb_unicode L) (lb_sz L) (sk_buf (io_sock io)) = Inr CM_Leave" | (eof) "ev = IE_Data 0"
    by blast
  then show ?thesis
  proof cases
    case quiet
    then have "(p, io') = (Ready (Inr Disconnected), ?io2)"
      using assms(5,7) d by (auto simp: joined_event_def joined_line_def handle_joined_message_def)
    with l q quiet show ?thesis by (auto simp: out_def Let_def)
  next
    case eof
    have "room_ok (lb_cb L) (bk_room (io_broker ?io2))"
      "length (queued L (io_broker ?io2)) < room_capacity (lb_cb L) (bk_room (io_broker ?io2))"
      using l q assms(2,4) by (simp_all add: Let_def)
    then obtain io3 where f: "forward_or_report L ?m ?io2 = (Inr (), io3)" "io_sock io3 = io_sock ?io2"
      "queued L (io_broker io3) = queued L (io_broker ?io2) @ [?m]"
      "bk_registry (io_broker io3) = bk_registry (io_broker ?io2)"
      using forward_ok [OF assms(1), of ?io2] by metis
    then have "(p, io') = (Ready (Inr Disconnected), io3)"
      using assms(5,7) d eof by (auto simp: joined_event_def user_to_string_def get_username_def)
    with l q f eof show ?thesis by (simp add: out_def Let_def)
  qed
qed

subsection \<open>Shutdown\<close>

lemma registered_delete:
  assumes "map_of (bk_registry b) k = Some u" "senders_ok (bk_registry b)"
    and "registry_ok U sz (bk_registry b)" "bk_registry b' = AList.delete k (bk_registry b)"
  shows "u_tx u \<notin> registered b'"
proof
  assume "u_tx u \<in> registered b'"
  then obtain k2 u2 where 2: "(k2, u2) \<in> set (bk_registry b)" "k2 \<noteq> k" "u_tx u2 = u_tx u"
    by (auto simp: registered_def assms(4) AList.delete_eq)
  have "(k, u) \<in> set (bk_registry b)" using assms(1) by (rule map_of_SomeD)
  with 2 assms(2) show False by (force simp: senders_ok_def distinct_map inj_on_def)
qed

lemma begin_tick_ready:
  assumes "libs_ok L" "unbroken io" "sk_await (io_sock io) \<in> {Aw_Top, Aw_Input}"
    and "st = Joined j" "jn_rx j = cid"
  obtains io' where "begin_tick L st io = (Inr (), io')" "unbroken io'" "sk_await (io_sock io') = Aw_Input"
    "out io' @ lines (inbox L (io_broker io') cid) = out io @ lines (inbox L (io_broker io) cid)"
    "bk_registry (io_broker io') = bk_registry (io_broker io)"
proof (cases "sk_await (io_sock io) = Aw_Top")
  case False
  then have "sk_await (io_sock io) = Aw_Input" using assms(3) by simp
  with that [of io] assms(2) show thesis by (simp add: begin_tick_def)
next
  case True
  obtain io1 where "drain_broadcasts L j io = (Inr (), io1)" "unbroken io1"
    "out io1 = out io @ lines (inbox L (io_broker io) (jn_rx j))" "inbox L (io_broker io1) (jn_rx j) = []"
    "bk_room (io_broker io1) = bk_room (io_broker io)" "bk_registry (io_broker io1) = bk_registry (io_broker io)"
    using drain_ok [OF assms(1,2)] .
  with that [of "set_await Aw_Input (buf_clear io1)"] True assms(4,5) show thesis
    by (simp add: begin_tick_def unbroken_def out_def lines_def)
qed

lemma poll_shutdown:
  assumes "libs_ok L" "cn_result cn = None" "wr_budget (sk_writer (cn_sock cn)) = None"
    and "sk_await (cn_sock cn) \<in> {Aw_Top, Aw_Input}" "te_shutdown env = Some True" "te_locked env"
    and "poll_connection L env cid cn b = (cn', b')"
    and "cn_state cn = Joined j" "jn_rx j = cid"
  shows "cn_result cn' = Some (Inr ())
    \<and> wr_out (sk_writer (cn_sock cn')) = wr_out (sk_writer (cn_sock cn)) @ lines (inbox L b cid)
    \<and> bk_registry b' = AList.delete (from_username (lb_unicode L) (lb_sz L) (u_username (jn_user j))) (bk_registry b)"
proof -
  let ?io = "\<lparr> io_broker = b, io_sock = (cn_sock cn)\<lparr>sk_reader := arrive (te_bytes env) (te_input env) (sk_reader (cn_sock cn))\<rparr> \<rparr>"
  have "unbroken ?io" "sk_await (io_sock ?io) \<in> {Aw_Top, Aw_Input}" using assms(3,4) by (simp_all add: unbroken_def)
  then obtain io1 where 1: "begin_tick L (cn_state cn) ?io = (Inr (), io1)" "unbroken io1"
    "sk_await (io_sock io1) = Aw_Input"
    "out io1 @ lines (inbox L (io_broker io1) cid) = out ?io @ lines (inbox L (io_broker ?io) cid)"
    "bk_registry (io_broker io1) = bk_registry (io_broker ?io)"
    using begin_tick_ready [OF assms(1), of ?io] assms(8,9) by metis
  obtain io2 where d: "drain_broadcasts L j io1 = (Inr (), io2)"
    and l: "let io3 = snd (leave L True j io2) in unbroken io3
      \<and> out io3 = out io1 @ lines (inbox L (io_broker io1) (jn_rx j))
      \<and> bk_room (io_broker io3) = bk_room (io_broker io1)
      \<and> bk_registry (io_broker io3)
          = AList.delete (from_username (lb_unicode L) (lb_sz L) (u_username (jn_user j))) (bk_registry (io_broker io1))"
    using drain_leave [OF assms(1) 1(2)] .
  have "tick L env (cn_state cn) io1 = (Ready (Inr Disconnected), snd (leave L True j io2))"
    using assms(5,6,8) 1(3) d by (simp add: tick_def tick_joined_def wait_for_input_def joined_event_def)
  then have "(cn', b') = finish L cid (Inr ()) (snd (leave L True j io2))"
    using assms(2,7) 1(1) by (simp add: poll_connection_def Let_def)
  with l 1(4,5) assms(9) show ?thesis by (simp add: finish_def Let_def out_def)
qed

lemma shutdown_poll_ends:
  assumes "libs_ok L" "server_ok L sv" "cid < length (sv_conns sv)"
    and "running (sv_conns sv ! cid)" "wr_budget (sk_writer (cn_sock (sv_conns sv ! cid))) = None"
    and "sk_await (cn_sock (sv_conns sv ! cid)) \<in> {Aw_Top, Aw_Input}" "te_shutdown env = Some True" "te_locked env"
  shows "let cn = sv_conns sv ! cid; sv' = poll_task L env cid sv; cn' = sv_conns sv' ! cid in
    cn_result cn' = Some (Inr ()) \<and> cid \<notin> registered (sv_broker sv')
    \<and> wr_out (sk_writer (cn_sock cn')) = wr_out (sk_writer (cn_sock cn)) @ lines (inbox L (sv_broker sv) cid)"
proof -
  let ?cn = "sv_conns sv ! cid" and ?b = "sv_broker sv"
  obtain cn' b' where p: "poll_connection L env cid ?cn ?b = (cn', b')" by force
  have none: "cn_result ?cn = None" using assms(4) by (simp add: running_def)
  note rc = server_okD(5,6) [OF assms(2,3)]
  have st: "state_ok L cid (cn_state ?cn)" using rc(1) none by (simp add: conn_ok_def)
  have bok: "broker_ok L ?b" using server_okD(1) [OF assms(2)] .
  have "cn_result cn' = Some (Inr ()) \<and> cid \<notin> registered b'
    \<and> wr_out (sk_writer (cn_sock cn')) = wr_out (sk_writer (cn_sock ?cn)) @ lines (inbox L ?b cid)"
  proof (cases "cn_state ?cn")
    case (Unauthenticated u)
    obtain io1 where io1: "begin_tick L (Unauthenticated u) \<lparr> io_broker = ?b, io_sock = (cn_sock ?cn)
        \<lparr>sk_reader := arrive (te_bytes env) (te_input env) (sk_reader (cn_sock ?cn))\<rparr> \<rparr> = (Inr (), io1)"
      "io_broker io1 = ?b" "sk_writer (io_sock io1) = sk_writer (cn_sock ?cn)"
      by (rule that [of "let io = \<lparr> io_broker = ?b, io_sock = (cn_sock ?cn)
        \<lparr>sk_reader := arrive (te_bytes env) (te_input env) (sk_reader (cn_sock ?cn))\<rparr> \<rparr> in
          if sk_await (cn_sock ?cn) = Aw_Top then set_await Aw_Input (buf_clear io) else io"])
        (simp_all add: begin_tick_def Let_def)
    have ag: "cid \<notin> registered ?b" "inbox L ?b cid = []" using rc(2) none Unauthenticated by (simp_all add: agrees_def)
    have "(cn', b') = finish L cid (Inr ()) io1"
      using p none assms(7) Unauthenticated io1(1)
      by (simp add: poll_connection_def Let_def tick_def tick_unauthenticated_def wait_for_input_def unauthenticated_event_def)
    with io1 ag show ?thesis by (simp add: finish_def Let_def registered_def lines_def)
  next
    case (Joined j)
    have j: "jn_rx j = cid" "u_tx (jn_user j) = cid" using st Joined by (simp_all add: state_ok_def)
    note ps = poll_shutdown [OF assms(1) none assms(5-8) p Joined j(1)]
    have "map_of (bk_registry ?b) (from_username (lb_unicode L) (lb_sz L) (u_username (jn_user j))) = Some (jn_user j)"
      using rc(2) none Joined by (simp add: agrees_def)
    then have "u_tx (jn_user j) \<notin> registered b'"
      by (rule registered_delete) (use bok ps in \<open>auto simp: broker_ok_def\<close>)
    with ps j show ?thesis by simp
  next
    case Disconnected
    with rc(2) none show ?thesis by (simp add: agrees_def)
  qed
  then show ?thesis using assms(3) p by (simp add: poll_task_def Let_def)
qed

text \<open>Once the server is shutting down, the next poll of a running connection that sees
  the signal ends it: the task returns without error, all broadcasts still in its channel are
  written first, and it is no longer registered. (The lock is free, the socket works, and the
  task is neither discarding an overlong line nor held back by its rate limiter, where it does
  not look at the signal.)\<close>

lemma shutdown_ends_connection:
  assumes "libs_ok L" "steps (server_step L) (server_start L uuid now) ls sv" "cid < length (sv_conns sv)"
    and "running (sv_conns sv ! cid)" "wr_budget (sk_writer (cn_sock (sv_conns sv ! cid))) = None"
    and "sk_await (cn_sock (sv_conns sv ! cid)) \<in> {Aw_Top, Aw_Input}" "te_shutdown env = Some True" "te_locked env"
  shows "let cn = sv_conns sv ! cid; sv' = poll_task L env cid sv; cn' = sv_conns sv' ! cid in
    cn_result cn' = Some (Inr ()) \<and> cid \<notin> registered (sv_broker sv')
    \<and> wr_out (sk_writer (cn_sock cn')) = wr_out (sk_writer (cn_sock cn)) @ lines (inbox L (sv_broker sv) cid)"
  using shutdown_poll_ends [OF assms(1) reachable_ok [OF assms(1,2)] assms(3-8)] .

subsection \<open>Failures and interruptions\<close>


lemma set_buf_simps [simp]:
  "io_broker (set_buf bs io) = io_broker io"
  "on_writer f (set_buf bs io) = apsnd (set_buf bs) (on_writer f io)"
  "(set_buf bs io)\<lparr>io_broker := b\<rparr> = set_buf bs (io\<lparr>io_broker := b\<rparr>)"
  "sk_await (io_sock (set_buf bs io)) = sk_await (io_sock io)"
  "buf_clear (set_buf bs io) = buf_clear io"
  by (simp_all add: set_buf_def on_writer_def upd_sock_def buf_clear_def split: prod.split)

lemma drain_set_buf: "drain_loop L rx n (set_buf bs io) = apsnd (set_buf bs) (drain_loop L rx n io)"
proof (induction n arbitrary: io)
  case (Suc n)
  have bind: "try_bind (apsnd (set_buf bs) m) (\<lambda>_ io. drain_loop L rx n io)
      = apsnd (set_buf bs) (try_bind m (\<lambda>_ io. drain_loop L rx n io))" for m :: "(connection_error, unit) result \<times> _"
    by (cases m; cases "fst m") (auto simp: Suc.IH)
  show ?case by (simp add: Let_def bind split: prod.split option.split)
qed simp

lemma begin_tick_set_buf:
  assumes "libs_ok L" "unbroken io" "sk_await (io_sock io) = Aw_Top"
  shows "begin_tick L (Joined j) (set_buf bs io) = begin_tick L (Joined j) io"
proof -
  obtain io' where "drain_broadcasts L j io = (Inr (), io')" using drain_ok [OF assms(1,2)] by metis
  then show ?thesis using assms(3) by (simp add: begin_tick_def drain_broadcasts_def drain_set_buf del: drain_loop.simps)
qed

text \<open>A broadcast that interrupts the wait for input ends the iteration.\<close>

lemma poll_broadcast:
  assumes "libs_ok L" "cn_result cn = None" "cn_state cn = Joined j" "jn_rx j = cid"
    and "sk_await (cn_sock cn) = Aw_Input" "wr_budget (sk_writer (cn_sock cn)) = None" "te_shutdown env = None"
    and "inbox L b cid = m # ms"
  obtains b' w where "\<And>bs. poll_connection L env cid (cn\<lparr>cn_sock := (cn_sock cn)\<lparr>sk_buf := bs\<rparr>\<rparr>) b =
      (cn\<lparr>cn_sock := (cn_sock cn)\<lparr>sk_buf := bs, sk_writer := w, sk_await := Aw_Top,
         sk_reader := arrive (te_bytes env) (te_input env) (sk_reader (cn_sock cn))\<rparr>\<rparr>, b')"
    "wr_budget w = None"
proof -
  obtain r c' where rc: "mp_recv (lb_mp L) (bk_channels b cid) = (r, c')" by force
  have r: "r = Ready (Some m)" using mpsc_recv(1) [OF libs_okD(3) [OF assms(1)] rc] assms(8) by (simp add: inbox_def)
  show thesis
    by (rule that [of "(sk_writer (cn_sock cn))\<lparr>wr_out := wr_out (sk_writer (cn_sock cn)) @ m @ [newline]\<rparr>"
        "b\<lparr>bk_channels := (bk_channels b)(cid := c')\<rparr>"])
      (use assms rc r in \<open>simp_all add: poll_connection_def Let_def begin_tick_def tick_def tick_joined_def wait_for_input_def
         joined_event_def on_writer_def write_line_ok upd_sock_def set_await_def\<close>)
qed

text \<open>Property C28: the beginning of a line that has been read when a broadcast arrives has no effect
  on anything afterwards: the broadcast ends the iteration and the next one clears the buffer,
  so the rest of the line is taken for a line of its own.\<close>

theorem interrupted_line_lost:
  assumes "libs_ok L" "cn_result cn = None" "cn_state cn = Joined j" "jn_rx j = cid"
    and "sk_await (cn_sock cn) = Aw_Input" "wr_budget (sk_writer (cn_sock cn)) = None" "te_shutdown env = None"
    and "inbox L b cid \<noteq> []"
  shows "run_state_machine L cid (env # env' # envs) cn b
    = run_state_machine L cid (env # env' # envs) (cn\<lparr>cn_sock := (cn_sock cn)\<lparr>sk_buf := bs\<rparr>\<rparr>) b"
proof -
  obtain m ms where "inbox L b cid = m # ms" using assms(8) by (cases "inbox L b cid") auto
  then obtain b' w where p: "\<And>bs. poll_connection L env cid (cn\<lparr>cn_sock := (cn_sock cn)\<lparr>sk_buf := bs\<rparr>\<rparr>) b =
      (cn\<lparr>cn_sock := (cn_sock cn)\<lparr>sk_buf := bs, sk_writer := w, sk_await := Aw_Top,
         sk_reader := arrive (te_bytes env) (te_input env) (sk_reader (cn_sock cn))\<rparr>\<rparr>, b')" "wr_budget w = None"
    using poll_broadcast [OF assms(1-7)] by metis
  let ?s = "\<lambda>bs. (cn_sock cn)\<lparr>sk_buf := bs, sk_writer := w, sk_await := Aw_Top,
    sk_reader := arrive (te_bytes env') (te_input env') (arrive (te_bytes env) (te_input env) (sk_reader (cn_sock cn)))\<rparr>"
  have bt: "begin_tick L (Joined j) \<lparr>io_broker = b', io_sock = ?s bs\<rparr> = begin_tick L (Joined j) \<lparr>io_broker = b', io_sock = ?s []\<rparr>" for bs
    using begin_tick_set_buf [OF assms(1), of "\<lparr>io_broker = b', io_sock = ?s []\<rparr>" j bs] p(2)
    by (cases "cn_sock cn") (simp add: set_buf_def upd_sock_def unbroken_def)
  have eq: "poll_connection L env' cid (fst (poll_connection L env cid (cn\<lparr>cn_sock := (cn_sock cn)\<lparr>sk_buf := bs\<rparr>\<rparr>) b)) b'
     = poll_connection L env' cid (fst (poll_connection L env cid (cn\<lparr>cn_sock := (cn_sock cn)\<lparr>sk_buf := []\<rparr>\<rparr>) b)) b'" for bs
    using assms(2,3) bt [of bs]
    by (simp add: p(1) poll_connection_def [of L env'] Let_def split: prod.split sum.split poll.split connection_state.split)
  have same: "cn = cn\<lparr>cn_sock := (cn_sock cn)\<lparr>sk_buf := sk_buf (cn_sock cn)\<rparr>\<rparr>" by simp
  have "run_state_machine L cid (env # env' # envs) (cn\<lparr>cn_sock := (cn_sock cn)\<lparr>sk_buf := bs\<rparr>\<rparr>) b
    = run_state_machine L cid (env # env' # envs) (cn\<lparr>cn_sock := (cn_sock cn)\<lparr>sk_buf := []\<rparr>\<rparr>) b" for bs
    using eq [of bs] by (simp add: p(1))
  then show ?thesis by (metis same)
qed

subsection \<open>Witnesses\<close>

lemma run_of_steps:
  "server_run ref_libs ls (server_start ref_libs [] []) \<noteq> None \<Longrightarrow>
   steps (server_step ref_libs) (server_start ref_libs [] []) ls (run_of ls)"
  by (auto simp: run_of_def simp flip: server_run_steps)

lemma greeted_eval:
  "case server_run ref_libs greeted (server_start ref_libs [] []) of None \<Rightarrow> False
   | Some sv \<Rightarrow> length (sv_conns sv) = 2 \<and> running (sv_conns sv ! 0)
      \<and> wr_budget (sk_writer (cn_sock (sv_conns sv ! 0))) = None \<and> phase_of (sv_conns sv ! 0) = Ph_Joined
      \<and> wr_out (sk_writer (cn_sock (sv_conns sv ! 0))) = lines [encode_server SM_Ok]
      \<and> inbox ref_libs (sv_broker sv) 0
          = [encode_server (SM_UserJoined (lit ''a'')), encode_server (SM_UserJoined (lit ''Bob''))]
      \<and> queued ref_libs (sv_broker sv) = []
      \<and> 0 < room_capacity (lb_cb ref_libs) (bk_room (sv_broker sv))
      \<and> (case cn_state (sv_conns sv ! 0) of
           Joined j \<Rightarrow> acquire (lb_gov ref_libs) (jn_rate_limiter j) (te_now quiet) \<noteq> Pending | _ \<Rightarrow> False)"
  by code_simp

lemma greeted_facts:
  "server_run ref_libs greeted (server_start ref_libs [] []) \<noteq> None"
  "length (sv_conns (run_of greeted)) = 2"
  "running (sv_conns (run_of greeted) ! 0)"
  "wr_budget (sk_writer (cn_sock (sv_conns (run_of greeted) ! 0))) = None"
  "phase_of (sv_conns (run_of greeted) ! 0) = Ph_Joined"
  "inbox ref_libs (sv_broker (run_of greeted)) 0
     = [encode_server (SM_UserJoined (lit ''a'')), encode_server (SM_UserJoined (lit ''Bob''))]"
  "queued ref_libs (sv_broker (run_of greeted)) = []"
  "0 < room_capacity (lb_cb ref_libs) (bk_room (sv_broker (run_of greeted)))"
  "wr_out (sk_writer (cn_sock (sv_conns (run_of greeted) ! 0))) = lines [encode_server SM_Ok]"
  "cn_state (sv_conns (run_of greeted) ! 0) = Joined j \<Longrightarrow>
     acquire (lb_gov ref_libs) (jn_rate_limiter j) (te_now quiet) \<noteq> Pending"
  using greeted_eval by (auto simp: run_of_def split: option.splits)

lemma line_buf_text: "newline \<notin> set bs \<Longrightarrow> length bs < MAX_CLIENT_BUFFER_SIZE \<Longrightarrow> line_buf (bs @ [newline])"
  by (auto simp: line_buf_def)

lemma greeted_joined:
  obtains j where "cn_state (sv_conns (run_of greeted) ! 0) = Joined j"
    "state_ok ref_libs 0 (Joined j)" "jn_rx j = 0"
proof -
  obtain j where j: "cn_state (sv_conns (run_of greeted) ! 0) = Joined j"
    using greeted_facts(5) by (auto simp: phase_of_def split: connection_state.splits)
  have "state_ok ref_libs 0 (Joined j)"
    using reachable_conn(1) [OF ref_libs_ok run_of_steps [OF greeted_facts(1)], of 0] greeted_facts(2,3) j
    by (simp add: conn_ok_def running_def)
  with j that show thesis by (simp add: state_ok_def)
qed

lemma greeted_room: "room_ok (lb_cb ref_libs) (bk_room (sv_broker (run_of greeted)))"
  using server_okD(1) [OF reachable_ok [OF ref_libs_ok run_of_steps [OF greeted_facts(1)]]]
  by (simp add: broker_ok_def)

lemma conn_io_simps [simp]:
  "io_broker (conn_io cid sv) = sv_broker sv" "io_sock (conn_io cid sv) = cn_sock (sv_conns sv ! cid)"
  "io_broker (with_buf s io) = io_broker io" "sk_writer (io_sock (with_buf s io)) = sk_writer (io_sock io)"
  "sk_buf (io_sock (with_buf s io)) = utf8 s @ [newline]"
  by (simp_all add: conn_io_def with_buf_def)


lemma send_attributed_witness:
  "\<exists>j. cn_state (sv_conns (run_of greeted) ! 0) = Joined j
     \<and> queued ref_libs (io_broker (snd (handle_joined_message ref_libs quiet j
         (with_buf (lit ''SEND|x|y'') (conn_io 0 (run_of greeted))))))
       = [encode_server (SM_Broadcast (user_to_string (jn_user j)) (lit ''x|y''))]"
proof -
  let ?io = "with_buf (lit ''SEND|x|y'') (conn_io 0 (run_of greeted))"
  obtain j where j: "cn_state (sv_conns (run_of greeted) ! 0) = Joined j" "state_ok ref_libs 0 (Joined j)"
    using greeted_joined by metis
  have d: "newline \<notin> set (utf8 (lit ''SEND|x|y''))" "length (utf8 (lit ''SEND|x|y'')) < MAX_CLIENT_BUFFER_SIZE"
    "decode_client (lb_unicode ref_libs) (lb_sz ref_libs) (utf8 (lit ''SEND|x|y'') @ [newline]) = Inr (CM_Send (lit ''x|y''))"
    by code_simp+
  from send_attributed [OF ref_libs_ok, of ?io 0 j "lit ''x|y''" quiet, OF _ j(2) _ _ prod.collapse [symmetric]]
    greeted_room greeted_facts(7,8,10) line_buf_text [OF d(1,2)] d(3) j(1)
  show ?thesis by (simp add: Let_def)
qed

lemma join_outcome_witness:
  "\<exists>u j. cn_state (sv_conns (run_of knock) ! 0) = Unauthenticated u
     \<and> fst (unauthenticated_event ref_libs quiet u (IE_Data 9) (with_buf (lit ''JOIN|zed'') (conn_io 0 (run_of knock))))
         = Inr (Joined j)
     \<and> user_to_string (jn_user j) = lit ''zed''"
proof -
  let ?io = "with_buf (lit ''JOIN|zed'') (conn_io 0 (run_of knock))"
  have k: "server_run ref_libs knock (server_start ref_libs [] []) \<noteq> None"
    "length (sv_conns (run_of knock)) = 1" "running (sv_conns (run_of knock) ! 0)"
    "wr_budget (sk_writer (cn_sock (sv_conns (run_of knock) ! 0))) = None"
    "phase_of (sv_conns (run_of knock) ! 0) = Ph_Unauthenticated"
    "length (queued ref_libs (sv_broker (run_of knock))) < room_capacity (lb_cb ref_libs) (bk_room (sv_broker (run_of knock)))"
    "bk_registry (sv_broker (run_of knock)) = []"
    by code_simp+
  have d: "newline \<notin> set (utf8 (lit ''JOIN|zed''))" "length (utf8 (lit ''JOIN|zed'')) < MAX_CLIENT_BUFFER_SIZE" "te_locked quiet"
    "decode_client (lb_unicode ref_libs) (lb_sz ref_libs) (utf8 (lit ''JOIN|zed'') @ [newline]) = Inr (CM_Join (lit ''zed''))"
    "username_new (lb_unicode ref_libs) (lb_sz ref_libs) (lit ''zed'') = Inr (Username (lit ''zed''))"
    by code_simp+
  note run = run_of_steps [OF k(1)]
  obtain u where u: "cn_state (sv_conns (run_of knock) ! 0) = Unauthenticated u"
    using k(5) by (auto simp: phase_of_def split: connection_state.splits)
  have st: "state_ok ref_libs 0 (Unauthenticated u :: gcra connection_state)"
    using reachable_conn(1) [OF ref_libs_ok run, of 0] k(2,3) u by (simp add: conn_ok_def running_def)
  have r: "room_ok (lb_cb ref_libs) (bk_room (sv_broker (run_of knock)))"
    using server_okD(1) [OF reachable_ok [OF ref_libs_ok run]] by (simp add: broker_ok_def)
  from join_outcome [OF ref_libs_ok, of ?io 9 quiet "lit ''zed''" u, OF _ _ _ _ _ _ _ prod.collapse [symmetric] st] k(4,6,7) line_buf_text [OF d(1,2)] d(3-) r u
  show ?thesis by (auto simp: Let_def user_to_string_def user_new_def)
qed

lemma after_join_eval:
  "case server_run ref_libs two_join (server_start ref_libs [] []) of None \<Rightarrow> False
   | Some sv \<Rightarrow> inbox ref_libs (sv_broker sv) 0 = [] \<and> \<not> mp_no_senders (lb_mp ref_libs) (bk_channels (sv_broker sv) 0)
      \<and> wr_budget (sk_writer (cn_sock (sv_conns sv ! 0))) = None"
  by code_simp


lemma departure_effects_witness:
  "\<exists>j. cn_state (sv_conns (run_of greeted) ! 0) = Joined j
     \<and> queued ref_libs (io_broker (snd (joined_event ref_libs quiet j (IE_Data 0) (conn_io 0 (run_of greeted)))))
       = [encode_server (SM_UserLeft (user_to_string (jn_user j)))]"
proof -
  obtain j where j: "cn_state (sv_conns (run_of greeted) ! 0) = Joined j"
    using greeted_joined by metis
  from departure_effects [OF ref_libs_ok, of "conn_io 0 (run_of greeted)" quiet "IE_Data 0" 0 j, OF _ _ _ _ _ prod.collapse [symmetric]]
    greeted_room greeted_facts(4,7,8) j
  show ?thesis by (simp add: quiet_def)
qed

lemma stopping_eval:
  "case server_run ref_libs stopping (server_start ref_libs [] []) of None \<Rightarrow> False
   | Some sv \<Rightarrow> 0 < length (sv_conns sv) \<and> running (sv_conns sv ! 0)
      \<and> wr_budget (sk_writer (cn_sock (sv_conns sv ! 0))) = None \<and> sk_await (cn_sock (sv_conns sv ! 0)) \<in> {Aw_Top, Aw_Input}"
  by code_simp

lemma shutdown_ends_connection_witness:
  "cn_result (sv_conns (poll_task ref_libs (quiet\<lparr>te_shutdown := Some True\<rparr>) 0 (run_of stopping)) ! 0) = Some (Inr ())"
proof -
  have "server_run ref_libs stopping (server_start ref_libs [] []) \<noteq> None" using stopping_eval by (auto split: option.splits)
  from shutdown_ends_connection [OF ref_libs_ok run_of_steps [OF this], of 0 "quiet\<lparr>te_shutdown := Some True\<rparr>"]
  show ?thesis using stopping_eval by (auto simp: Let_def quiet_def run_of_def split: option.splits)
qed


lemma partial_eval:
  "case server_run ref_libs partial (server_start ref_libs [] []) of None \<Rightarrow> False
   | Some sv \<Rightarrow> 0 < length (sv_conns sv) \<and> cn_result (sv_conns sv ! 0) = None \<and> phase_of (sv_conns sv ! 0) = Ph_Joined
      \<and> sk_await (cn_sock (sv_conns sv ! 0)) = Aw_Input \<and> sk_buf (cn_sock (sv_conns sv ! 0)) = utf8 (lit ''SEND|he'')
      \<and> wr_budget (sk_writer (cn_sock (sv_conns sv ! 0))) = None \<and> inbox ref_libs (sv_broker sv) 0 \<noteq> []"
  by code_simp

lemma interrupted_line_lost_witness:
  "let sv = run_of partial; cn = sv_conns sv ! 0 in sk_buf (cn_sock cn) = utf8 (lit ''SEND|he'')
     \<and> run_state_machine ref_libs 0 [quiet, says (lit ''llo'')] cn (sv_broker sv)
       = run_state_machine ref_libs 0 [quiet, says (lit ''llo'')] (cn\<lparr>cn_sock := (cn_sock cn)\<lparr>sk_buf := []\<rparr>\<rparr>) (sv_broker sv)"
proof -
  let ?sv = "run_of partial" and ?cn = "sv_conns (run_of partial) ! 0"
  have p: "0 < length (sv_conns ?sv)" "cn_result ?cn = None" "phase_of ?cn = Ph_Joined" "sk_await (cn_sock ?cn) = Aw_Input"
    "sk_buf (cn_sock ?cn) = utf8 (lit ''SEND|he'')" "wr_budget (sk_writer (cn_sock ?cn)) = None" "inbox ref_libs (sv_broker ?sv) 0 \<noteq> []"
    "server_run ref_libs partial (server_start ref_libs [] []) \<noteq> None"
    using partial_eval by (auto simp: run_of_def split: option.splits)
  obtain j where j: "cn_state ?cn = Joined j" using p(3) by (auto simp: phase_of_def split: connection_state.splits)
  have rx: "jn_rx j = 0"
    using reachable_conn(1) [OF ref_libs_ok run_of_steps [OF p(8)] p(1)] p(2) j by (simp add: conn_ok_def state_ok_def)
  have q: "te_shutdown quiet = None" by (simp add: quiet_def)
  show ?thesis using interrupted_line_lost [OF ref_libs_ok p(2) j rx p(4,6) q p(7), of "says (lit ''llo'')" "[]" "[]"] p(5)
    by (simp only: Let_def simp_thms)
qed

end
