(* ===== verification/Rate_Behaviour.thy ===== *)
theory Rate_Behaviour
  imports Connection_Behaviour
begin

text \<open>
  The rate limiter at work: what \<open>joined.rate_limiter.acquire().await\<close> in
  \<open>src/server/src/chat/connection.rs\<close> does to the traffic of the whole server. \<open>send_times\<close>
  records, along a run, the times at which the messages of one connection enter the room.

  Shown: these times keep the configured rate and burst on every run; and a message that is held
  back goes out at the first poll one period later. The recorded run is a transition system of
  its own, an interpretation of \<open>step_invariant\<close>, whose invariant relates the state of the
  limiter to the recorded times.
\<close>

text \<open>The time at which a step puts a message of a connection into the room: a poll of a joined
  connection that stays joined and after which the room holds more. (Its departure is announced
  by a poll that ends the connection.)\<close>

definition sent_now ::
    "('q, 'c, 'g) libs \<Rightarrow> nat \<Rightarrow> ('q, 'c, 'g) server \<Rightarrow> server_label \<Rightarrow> ('q, 'c, 'g) server \<Rightarrow> nat list" where
  "sent_now L cid sv l sv' =
     (case l of
        SL_Poll i env \<Rightarrow>
          if i = cid \<and> phases sv cid = Ph_Joined \<and> phases sv' cid = Ph_Joined
             \<and> length (queued L (sv_broker sv)) < length (queued L (sv_broker sv'))
          then [te_now env] else []
      | _ \<Rightarrow> [])"

fun send_times ::
    "('q, 'c, 'g) libs \<Rightarrow> nat \<Rightarrow> server_label list \<Rightarrow> ('q, 'c, 'g) server \<Rightarrow> nat list" where
  "send_times L cid [] sv = []"
| "send_times L cid (l # ls) sv =
     (case server_exec L l sv of
        None \<Rightarrow> []
      | Some sv' \<Rightarrow> sent_now L cid sv l sv' @ send_times L cid ls sv')"

definition room_of :: "('q, 'c) io \<Rightarrow> 'q room" where
  "room_of io = bk_room (io_broker io)"

text \<open>The time between two messages at the sustained rate, in nanoseconds.\<close>

definition SEND_PERIOD :: nat where
  "SEND_PERIOD = 1000000000 div unat MAX_MESSAGES_PER_SECOND"

text \<open>The limiter of a connection that has sent at the times \<open>ts\<close> and was last polled at \<open>t\<close> or before.\<close>

definition paced :: "'g governor \<Rightarrow> nat \<Rightarrow> nat list \<Rightarrow> 'g rate_limiter \<Rightarrow> bool" where
  "paced gv t ts rl \<longleftrightarrow>
     limits gv SEND_PERIOD (unat MESSAGE_BURST_CAPACITY) rl \<and> owes_all gv SEND_PERIOD ts rl
     \<and> (\<forall>y. gov_tat gv (rl_inner rl) = Some y \<longrightarrow>
            y \<le> t + unat MESSAGE_BURST_CAPACITY * SEND_PERIOD + SEND_PERIOD)"

text \<open>A task that waits for the limiter has a \<open>SEND\<close> line in its buffer.\<close>

definition holds_send :: "('q, 'c, 'g) libs \<Rightarrow> sock \<Rightarrow> bool" where
  "holds_send L s \<longleftrightarrow>
     (sk_await s = Aw_Limit \<longrightarrow>
        (\<exists>msg. decode_client (lb_unicode L) (lb_sz L) (sk_buf s) = Inr (CM_Send msg)))"

definition pace_ok :: "('q, 'c, 'g) libs \<Rightarrow> nat \<Rightarrow> nat list \<Rightarrow> 'g connection \<Rightarrow> bool" where
  "pace_ok L t ts cn \<longleftrightarrow>
     spaced SEND_PERIOD (unat MESSAGE_BURST_CAPACITY) ts
     \<and> (case cn_state cn of
          Unauthenticated _ \<Rightarrow> ts = []
        | Joined j \<Rightarrow> paced (lb_gov L) t ts (jn_rate_limiter j) \<and> holds_send L (cn_sock cn)
        | Disconnected \<Rightarrow> True)"

text \<open>A poll of a joined connection goes through the limiter whenever it touches the room.\<close>

definition paces ::
    "('q, 'c, 'g) libs \<Rightarrow> tick_env \<Rightarrow> 'g joined \<Rightarrow> ('q, 'c) io
     \<Rightarrow> (connection_error, 'g connection_state) result poll \<times> ('q, 'c) io \<Rightarrow> bool" where
  "paces L env j io res \<longleftrightarrow>
     (case res of
        (Pending, io') \<Rightarrow> room_of io' = room_of io \<and> holds_send L (io_sock io')
      | (Ready (Inr (Joined j')), io') \<Rightarrow>
          jn_rate_limiter j' = jn_rate_limiter j \<and> room_of io' = room_of io
          \<or> acquire (lb_gov L) (jn_rate_limiter j) (te_now env) = Ready (jn_rate_limiter j')
      | (Ready (Inr (Unauthenticated _)), io') \<Rightarrow> False
      | _ \<Rightarrow> True)"

text \<open>A run that records the times of the messages of one connection.\<close>

definition timed_ok :: "('q, 'c, 'g) libs \<Rightarrow> nat \<Rightarrow> nat \<Rightarrow> nat list \<Rightarrow> ('q, 'c, 'g) server \<Rightarrow> bool" where
  "timed_ok L cid t ts sv \<longleftrightarrow>
     libs_ok L \<and> server_ok L sv
     \<and> (if cid < length (sv_conns sv) then pace_ok L t ts (sv_conns sv ! cid) else ts = [])"

definition polled_by :: "nat \<Rightarrow> nat \<Rightarrow> server_label \<Rightarrow> bool" where
  "polled_by cid t l \<longleftrightarrow> (\<forall>env. l = SL_Poll cid env \<longrightarrow> te_now env \<le> t)"

text \<open>Two messages; a third is read while the clock shows an earlier time and is held back.\<close>

definition chatty :: "server_label list" where
  "chatty = knock @ [SL_Poll 0 (says (lit ''JOIN|a'')), SL_Poll 0 ((says (lit ''SEND|x''))\<lparr>te_now := 5000000000\<rparr>),
     SL_Poll 0 ((says (lit ''SEND|y''))\<lparr>te_now := 5000000007\<rparr>), SL_Poll 0 (says (lit ''SEND|z''))]"

subsection \<open>Only the limiter opens the room\<close>

lemma room_simps [simp]:
  "room_of (snd (on_writer f io)) = room_of io"
  "room_of (snd (send_message_to_client m io)) = room_of io"
  "room_of (buf_clear io) = room_of io" "room_of (upd_sock g io) = room_of io"
  "room_of (set_await a io) = room_of io" "room_of (snd (leave L locked j io)) = room_of io"
  by (simp_all add: room_of_def send_message_to_client_def leave_def case_prod_beta)

lemma room_drain_loop [simp]: "room_of (snd (drain_loop L rx n io)) = room_of io"
proof (induction n arbitrary: io)
  case (Suc n)
  let ?b = "io_broker io"
  obtain r c' where t: "mp_try_recv (lb_mp L) (bk_channels ?b rx) = (r, c')" by force
  let ?io1 = "io\<lparr>io_broker := ?b\<lparr>bk_channels := (bk_channels ?b)(rx := c')\<rparr>\<rparr>"
  have u1: "room_of ?io1 = room_of io" by (simp add: room_of_def)
  have "room_of (snd (try_bind (on_writer (write_line m) ?io1) (\<lambda>_ io. drain_loop L rx n io))) = room_of io" for m
    using Suc room_simps(1) [of "write_line m" ?io1] u1
    by (intro try_bind_pres [where I = "\<lambda>io'. room_of io' = room_of io"]) simp_all
  then show ?case using t u1 by (cases r) (simp_all add: Let_def)
qed simp

lemma room_same:
  "send_message_to_client m io = (r, io') \<Longrightarrow> room_of io' = room_of io"
  "on_writer f io = (q, io') \<Longrightarrow> room_of io' = room_of io"
  "drain_broadcasts L j io = (r, io') \<Longrightarrow> room_of io' = room_of io"
  using room_simps(1) [of f io] room_simps(2) [of m io] room_drain_loop [of L "jn_rx j" _ io]
  by (auto simp: drain_broadcasts_def simp del: drain_loop.simps) (metis room_drain_loop snd_conv)

lemma wait_for_input_room:
  "wait_for_input L env rx io = (p, io') \<Longrightarrow> room_of io' = room_of io \<and> sk_await (io_sock io') = sk_await (io_sock io)"
  by (auto simp: wait_for_input_def read_branch_def Let_def room_of_def upd_sock_def
      split: option.splits poll.splits prod.splits sum.splits if_splits)

lemma poll_discard_room:
  assumes "poll_discard j io = (p, io')"
  shows "room_of io' = room_of io" "p = Ready (Inr st) \<Longrightarrow> st = Joined j" "p = Pending \<Longrightarrow> sk_await (io_sock io') = Aw_Discard"
  using assms
  by (auto simp: poll_discard_def finish_too_long_def try_bind_def Let_def dest!: room_same
      split: prod.splits poll.splits sum.splits)

lemma joined_line_paces: "paces L env j io (joined_line L env j io)"
  by (auto simp: paces_def joined_line_def handle_joined_message_def try_bind_def holds_send_def ready_def dest!: room_same
      split: sum.splits client_message.splits prod.splits poll.splits if_splits connection_state.splits)

lemma joined_event_paces: "paces L env j io (joined_event L env j ev io)"
proof (cases "\<exists>n. ev = IE_Data n \<and> n \<noteq> 0")
  case True
  with joined_line_paces [of L env j io] show ?thesis by (auto simp: joined_event_def)
next
  case False
  then show ?thesis
    by (auto simp: paces_def joined_event_def try_bind_def ready_def dest!: room_same
      split: input_event.splits sum.splits prod.splits poll.splits if_splits connection_state.splits)
qed

lemma paces_from:
  "paces L env j io1 res \<Longrightarrow> room_of io1 = room_of io \<Longrightarrow> paces L env j io res"
  by (auto simp: paces_def split: poll.splits sum.splits connection_state.splits)

lemma poll_discard_paces: "paces L env j io (poll_discard j io)"
  using poll_discard_room [of j io]
  by (cases "poll_discard j io") (auto simp: paces_def holds_send_def split: poll.splits sum.splits connection_state.splits)

lemma tick_joined_paces: "paces L env j io (tick_joined L env j io)"
proof -
  obtain q io1 where w: "wait_for_input L env (Some (jn_rx j)) io = (q, io1)" by force
  note r = wait_for_input_room [OF w]
  have "paces L env j io1 (ready (finish_too_long j io1))"
    by (auto simp: paces_def finish_too_long_def try_bind_def ready_def dest!: room_same
       split: prod.splits sum.splits poll.splits connection_state.splits)
  with r w joined_line_paces [of L env j io] poll_discard_paces [of L env j io]
    joined_event_paces [of L env j io1] poll_discard_paces [of L env j "buf_clear io1"]
  show ?thesis
    by (auto simp: tick_joined_def paces_def [of _ _ _ _ "(Pending, _)"] paces_def [of _ _ _ _ "(Ready (Inl _), _)"] holds_send_def
        split: poll.split sum.split connection_error.split intro: paces_from)
qed

lemma tick_unauthenticated_new:
  assumes "tick_unauthenticated L env u io = (p, io')"
  shows "p = Pending \<Longrightarrow> sk_await (io_sock io') = sk_await (io_sock io)"
    "p = Ready (Inr (Joined j)) \<Longrightarrow> jn_rate_limiter j = rate_limiter_new (lb_gov L)"
  using assms
  by (auto simp: tick_unauthenticated_def unauthenticated_event_def unauthenticated_join_def try_bind_def
      dest!: wait_for_input_room
      split: poll.splits sum.splits input_event.splits if_splits client_message.splits prod.splits)

lemma begin_tick_room:
  assumes "begin_tick L st io = (r, io')"
  shows "room_of io' = room_of io" "r = Inr u \<Longrightarrow> sk_await (io_sock io') \<noteq> Aw_Limit \<or> sk_await (io_sock io) = Aw_Limit"
  using assms
  by (auto simp: begin_tick_def try_bind_def dest!: room_same split: if_splits connection_state.splits prod.splits sum.splits)

subsection \<open>The limiter along a run\<close>

lemma paced_acquire:
  assumes "governor_ok gv" "paced gv t ts rl" "acquire gv rl now = Ready rl'" "now \<le> t"
    and "spaced SEND_PERIOD (unat MESSAGE_BURST_CAPACITY) ts"
  shows "paced gv t ts rl'" "paced gv t (ts @ [now]) rl'"
    "spaced SEND_PERIOD (unat MESSAGE_BURST_CAPACITY) (ts @ [now])"
proof -
  have l: "limits gv SEND_PERIOD (unat MESSAGE_BURST_CAPACITY) rl" "owes_all gv SEND_PERIOD ts rl"
    using assms(2) by (simp_all add: paced_def)
  note a = acquire_Ready [OF assms(1) l(1) assms(3)] and o = owes_all_acquire [OF assms(1) l(1) assms(3) l(2) assms(5)]
  have "y \<le> t + unat MESSAGE_BURST_CAPACITY * SEND_PERIOD + SEND_PERIOD" if "gov_tat gv (rl_inner rl') = Some y" for y
    using a(5) that assms(4) by auto
  moreover have "owes_all gv SEND_PERIOD ts rl'"
    using l(2) a(4) by (force simp: owes_all_def owes_def)
  ultimately show "paced gv t ts rl'" "paced gv t (ts @ [now]) rl'"
    "spaced SEND_PERIOD (unat MESSAGE_BURST_CAPACITY) (ts @ [now])"
    using a(1) o by (simp_all add: paced_def)
qed

lemma paced_new:
  assumes "governor_ok gv"
  shows "paced gv t [] (rate_limiter_new gv)"
  using with_config_limits [OF assms, of MAX_MESSAGES_PER_SECOND MESSAGE_BURST_CAPACITY]
  by (simp add: paced_def rate_limiter_new_def owes_all_def SEND_PERIOD_def non_zero_or_min_def
      MAX_MESSAGES_PER_SECOND_def MESSAGE_BURST_CAPACITY_def)

text \<open>A due message: one period after the last poll the limiter lets the caller through.\<close>

lemma paced_due:
  assumes "governor_ok gv" "paced gv t ts rl" "t + SEND_PERIOD \<le> now"
  obtains rl' where "acquire gv rl now = Ready rl'"
proof (cases "acquire gv rl now")
  case Pending
  have l: "limits gv SEND_PERIOD (unat MESSAGE_BURST_CAPACITY) rl" using assms(2) by (simp add: paced_def)
  have b: "0 < unat MESSAGE_BURST_CAPACITY" by (simp add: MESSAGE_BURST_CAPACITY_def)
  show thesis
  proof (cases "gov_tat gv (rl_inner rl)")
    case None
    from acquire_fresh [OF assms(1) l b None] that show thesis by blast
  next
    case (Some y)
    with assms(2,3) acquire_Pending [OF assms(1) l Pending] show thesis
      by (simp add: paced_def arrival_def)
  qed
qed (use that in blast)

lemma poll_cases:
  assumes "cn_result cn = None" "poll_connection L env cid cn b = (cn', b')"
    and "begin_tick L (cn_state cn) \<lparr> io_broker = b, io_sock = (cn_sock cn)\<lparr>sk_reader
           := arrive (te_bytes env) (te_input env) (sk_reader (cn_sock cn))\<rparr> \<rparr> = (r, io1)"
    and "tick L env (cn_state cn) io1 = (p, io2)"
  obtains (fin) "cn_state cn' = Disconnected"
    | (pend) "p = Pending" "cn' = cn\<lparr>cn_sock := io_sock io2\<rparr>" "b' = io_broker io2"
    | (cont) st' where "p = Ready (Inr st')" "st' \<noteq> Disconnected"
        "cn' = cn\<lparr>cn_state := st', cn_sock := io_sock (set_await Aw_Top io2)\<rparr>" "b' = io_broker io2"
proof (cases r)
  case (Inl e)
  with assms have "finish L cid (Inl e) io1 = (cn', b')" by (simp add: poll_connection_def Let_def)
  with fin show thesis by (auto simp: finish_def Let_def)
next
  case (Inr u)
  with assms have eq: "(case p of
        Pending \<Rightarrow> (cn\<lparr>cn_sock := io_sock io2\<rparr>, io_broker io2)
      | Ready (Inl e) \<Rightarrow> finish L cid (Inl e) io2
      | Ready (Inr Disconnected) \<Rightarrow> finish L cid (Inr ()) io2
      | Ready (Inr st') \<Rightarrow>
          (cn\<lparr>cn_state := st', cn_sock := io_sock (set_await Aw_Top io2)\<rparr>, io_broker io2)) = (cn', b')"
    by (simp add: poll_connection_def Let_def)
  consider "p = Pending" | e where "p = Ready (Inl e)" | "p = Ready (Inr Disconnected)"
    | st' where "p = Ready (Inr st')" "st' \<noteq> Disconnected"
    by (metis poll.exhaust sum.exhaust)
  then show thesis
  proof cases
    case 4
    with eq cont show thesis by (cases st') auto
  qed (use eq fin pend in \<open>auto simp: finish_def Let_def\<close>)
qed

text \<open>A joined connection through one \<open>tick\<close>: either the limiter and the room are as before, or the
  limiter has let it through.\<close>

lemma tick_paced:
  assumes "governor_ok gv" "gv = lb_gov L" "pace_ok L t ts cn" "te_now env \<le> t" "cn_state cn = Joined j"
    and "tick L env (Joined j) io1 = (Ready (Inr st'), io2)" "st' \<noteq> Disconnected"
  obtains j' where "st' = Joined j'" "paced gv t ts (jn_rate_limiter j')"
    "room_of io2 = room_of io1 \<or> paced gv t (ts @ [te_now env]) (jn_rate_limiter j')
       \<and> spaced SEND_PERIOD (unat MESSAGE_BURST_CAPACITY) (ts @ [te_now env])"
proof -
  have t: "tick_joined L env j io1 = (Ready (Inr st'), io2)" using assms(6) by (simp add: tick_def)
  have pj: "paced gv t ts (jn_rate_limiter j)" "spaced SEND_PERIOD (unat MESSAGE_BURST_CAPACITY) ts"
    using assms(2,3,5) by (simp_all add: pace_ok_def)
  obtain j' where j': "st' = Joined j'"
    using tick_joined_paces [of L env j io1] t assms(7) by (cases st') (simp_all add: paces_def)
  have "jn_rate_limiter j' = jn_rate_limiter j \<and> room_of io2 = room_of io1
     \<or> acquire gv (jn_rate_limiter j) (te_now env) = Ready (jn_rate_limiter j')"
    using tick_joined_paces [of L env j io1] t j' assms(2) by (simp add: paces_def)
  with paced_acquire [OF assms(1) pj(1) _ assms(4) pj(2)] pj(1) that [OF j'] show thesis by auto
qed

lemma poll_pace_ok:
  assumes "libs_ok L" "conn_ok L cid cn" "cn_result cn = None" "pace_ok L t ts cn" "te_now env \<le> t"
    and "poll_connection L env cid cn b = (cn', b')"
  shows "pace_ok L t (ts @ (if phase_of cn = Ph_Joined \<and> phase_of cn' = Ph_Joined
      \<and> length (queued L b) < length (queued L b') then [te_now env] else [])) cn'"
proof -
  note gv = libs_okD(4) [OF assms(1)]
  let ?st = "cn_state cn"
  let ?io = "\<lparr> io_broker = b, io_sock = (cn_sock cn)\<lparr>sk_reader := arrive (te_bytes env) (te_input env) (sk_reader (cn_sock cn))\<rparr> \<rparr>"
  obtain r io1 where bt: "begin_tick L ?st ?io = (r, io1)" by force
  obtain p io2 where tk: "tick L env ?st io1 = (p, io2)" by force
  have room: "room_of io1 = bk_room b" using begin_tick_room(1) [OF bt] by (simp add: room_of_def)
  have grow: "\<not> length (queued L b) < length (queued L (io_broker io2))" if "room_of io2 = room_of io1"
    using that room by (simp add: queued_def room_of_def)
  from assms(3,6) bt tk show ?thesis
  proof (cases rule: poll_cases)
    case fin
    with assms(4) show ?thesis by (simp add: pace_ok_def phase_of_def)
  next
    case pend
    show ?thesis
    proof (cases ?st)
      case (Joined j)
      with tk pend(1) tick_joined_paces [of L env j io1] have "room_of io2 = room_of io1" "holds_send L (io_sock io2)"
        by (simp_all add: tick_def paces_def)
      with grow Joined pend assms(4) show ?thesis by (simp add: pace_ok_def)
    qed (use assms(2-4) pend in \<open>auto simp: pace_ok_def phase_of_def conn_ok_def\<close>)
  next
    case (cont st')
    have hs: "holds_send L (cn_sock cn')" using cont by (simp add: holds_send_def)
    show ?thesis
    proof (cases ?st)
      case (Unauthenticated u)
      with tk cont(1) have "tick_unauthenticated L env u io1 = (Ready (Inr st'), io2)" by (simp add: tick_def)
      from tick_unauthenticated_new(2) [OF this] Unauthenticated cont assms(4) paced_new [OF gv, of t] hs
      show ?thesis by (cases st') (auto simp: pace_ok_def phase_of_def)
    next
      case (Joined j)
      with tk cont(1) have "tick L env (Joined j) io1 = (Ready (Inr st'), io2)" by simp
      then obtain j' where j': "st' = Joined j'" "paced (lb_gov L) t ts (jn_rate_limiter j')"
        "room_of io2 = room_of io1 \<or> paced (lb_gov L) t (ts @ [te_now env]) (jn_rate_limiter j')
           \<and> spaced SEND_PERIOD (unat MESSAGE_BURST_CAPACITY) (ts @ [te_now env])"
        using tick_paced [OF gv refl assms(4,5) Joined _ cont(2)] by metis
      moreover have "spaced SEND_PERIOD (unat MESSAGE_BURST_CAPACITY) ts" using assms(4) by (simp add: pace_ok_def)
      ultimately show ?thesis using cont(3,4) hs grow by (auto simp: pace_ok_def)
    qed (use assms(2,3) in \<open>simp add: conn_ok_def\<close>)
  qed
qed

lemma accept_conns:
  "\<exists>cns. sv_conns (accept_connections L ev sv) = sv_conns sv @ cns
     \<and> (\<forall>cn \<in> set cns. \<exists>u. cn_state cn = Unauthenticated u)"
  by (auto simp: accept_connections_def handle_connection_def split: acceptor.split accept_event.split option.split prod.split)

lemma timed_step:
  assumes "timed_ok L cid t ts sv" "server_step L sv l sv'" "polled_by cid t l"
  shows "timed_ok L cid t (ts @ sent_now L cid sv l sv') sv'"
proof -
  have ok: "libs_ok L" "server_ok L sv" using assms(1) by (simp_all add: timed_ok_def)
  have ok': "server_ok L sv'" using server_step_ok [OF assms(2) ok] .
  show ?thesis
    using assms(2)
  proof cases
    case (poll_step i env)
    let ?cn = "sv_conns sv ! i"
    obtain cn' b' where p: "poll_connection L env i ?cn (sv_broker sv) = (cn', b')" by force
    have sv': "sv_conns sv' = (sv_conns sv)[i := cn']" "sv_broker sv' = b'" using poll_step p by (simp_all add: poll_task_def)
    show ?thesis
    proof (cases "i = cid \<and> cn_result ?cn = None")
      case True
      then have "te_now env \<le> t" using assms(3) poll_step by (simp add: polled_by_def)
      moreover have "pace_ok L t ts ?cn" using assms(1) True poll_step by (simp add: timed_ok_def)
      ultimately have "pace_ok L t (ts @ (if phase_of ?cn = Ph_Joined \<and> phase_of cn' = Ph_Joined
          \<and> length (queued L (sv_broker sv)) < length (queued L b') then [te_now env] else [])) cn'"
        using True by (intro poll_pace_ok [OF ok(1) server_okD(5) [OF ok(2) poll_step(4)] _ _ _ p]) auto
      with True poll_step sv' ok(1) ok' show ?thesis by (simp add: timed_ok_def sent_now_def phases_def)
    next
      case False
      then have "i = cid \<Longrightarrow> cn' = ?cn \<and> b' = sv_broker sv" using p by (auto simp: poll_connection_def)
      with False poll_step sv' assms(1) ok(1) ok' show ?thesis
        by (cases "i = cid") (auto simp: timed_ok_def sent_now_def)
    qed
  next
    case (accept_step ev)
    obtain cns where cns: "sv_conns sv' = sv_conns sv @ cns" "\<And>cn. cn \<in> set cns \<Longrightarrow> \<exists>u. cn_state cn = Unauthenticated u"
      using accept_conns [of L ev sv] accept_step by auto
    have "pace_ok L t [] (sv_conns sv' ! cid)" if "\<not> cid < length (sv_conns sv)" "cid < length (sv_conns sv')"
    proof -
      have "sv_conns sv' ! cid \<in> set cns" using that cns(1) by (simp add: nth_append)
      from cns(2) [OF this] show ?thesis by (auto simp: pace_ok_def spaced_def)
    qed
    then show ?thesis using accept_step assms(1) ok(1) ok' cns(1)
      by (auto simp: timed_ok_def sent_now_def nth_append split: if_splits)
  qed (use assms(1) ok(1) ok' in \<open>auto simp: timed_ok_def sent_now_def dispatch_task_def ctrl_c_def stop_broker_def
        exit_main_def split: prod.splits\<close>)
qed

interpretation pace: step_invariant
  "\<lambda>(L, cid, t, ts, sv) l (L', cid', t', ts', sv').
     L' = L \<and> cid' = cid \<and> t' = t \<and> ts' = ts @ sent_now L cid sv l sv' \<and> server_step L sv l sv' \<and> polled_by cid t l"
  "\<lambda>(L, cid, t, ts, sv). libs_ok L \<and> ts = [] \<and> (\<exists>uuid now. sv = server_start L uuid now)"
  "\<lambda>(L, cid, t, ts, sv). timed_ok L cid t ts sv"
proof (unfold_locales, goal_cases)
  case (1 s)
  then show ?case by (auto simp: timed_ok_def server_start_ok server_start_def [of _ _ _, THEN arg_cong [where f = sv_conns]])
next
  case (2 s l s')
  then show ?case using timed_step by (auto split: prod.splits)
qed

lemma send_times_run:
  assumes "server_run L ls sv = Some sv'" "list_all (polled_by cid t) ls"
  shows "steps (\<lambda>(L, cid, t, ts, sv) l (L', cid', t', ts', sv').
       L' = L \<and> cid' = cid \<and> t' = t \<and> ts' = ts @ sent_now L cid sv l sv' \<and> server_step L sv l sv' \<and> polled_by cid t l)
     (L, cid, t, ts, sv) ls (L, cid, t, ts @ send_times L cid ls sv, sv')"
  using assms
proof (induction ls arbitrary: sv ts)
  case (Cons l ls)
  then obtain sv1 where "server_exec L l sv = Some sv1" "server_run L ls sv1 = Some sv'" by (auto split: option.splits)
  with Cons.IH [of sv1 "ts @ sent_now L cid sv l sv1"] Cons.prems(2) show ?case
    by (fastforce simp: server_step_iff steps_Cons_iff)
qed (auto intro: steps.intros)

lemma timed_run:
  assumes "libs_ok L" "server_run L ls (server_start L uuid now) = Some sv" "list_all (polled_by cid t) ls"
  shows "timed_ok L cid t (send_times L cid ls (server_start L uuid now)) sv"
  using pace.inv_reachable [OF _ send_times_run [OF assms(2,3), of "[]"]] assms(1) by auto

lemma polls_bounded: "\<exists>t. list_all (polled_by cid t) ls"
proof (induction ls)
  case (Cons l ls)
  then obtain t where t: "list_all (polled_by cid t) ls" by blast
  let ?t = "max t (case l of SL_Poll i env \<Rightarrow> te_now env | _ \<Rightarrow> 0)"
  have "list_all (polled_by cid ?t) (l # ls)"
    using t by (auto simp: polled_by_def list_all_iff le_max_iff_disj)
  then show ?case ..
qed simp

text \<open>Property C10: along every run of the server, whatever the clients send and however the tasks are
  polled, the messages of one connection enter the room at the configured rate: two that are
  \<open>n\<close> messages apart lie at least \<open>n\<close> periods minus the burst apart, that is, at most
  \<open>MESSAGE_BURST_CAPACITY + d * MAX_MESSAGES_PER_SECOND\<close> messages within \<open>d\<close> seconds of the first.\<close>

theorem send_rate_bounded:
  assumes "libs_ok L" "server_run L ls (server_start L uuid now) = Some sv"
    and "ts = send_times L cid ls (server_start L uuid now)" "i < j" "j < length ts"
  shows "ts ! i + (j - i) * (1000000000 div unat MAX_MESSAGES_PER_SECOND)
    \<le> ts ! j + unat MESSAGE_BURST_CAPACITY * (1000000000 div unat MAX_MESSAGES_PER_SECOND)"
proof -
  obtain t where "list_all (polled_by cid t) ls" using polls_bounded by blast
  from timed_run [OF assms(1,2) this] have "spaced SEND_PERIOD (unat MESSAGE_BURST_CAPACITY) ts"
    unfolding assms(3) by (auto simp: timed_ok_def pace_ok_def spaced_def split: if_splits)
  with assms(4,5) show ?thesis by (simp add: spaced_def SEND_PERIOD_def)
qed

lemma joined_line_sends:
  assumes "libs_ok L" "room_ok (lb_cb L) (bk_room (io_broker io))"
    and "length (queued L (io_broker io)) < room_capacity (lb_cb L) (bk_room (io_broker io))"
    and "decode_client (lb_unicode L) (lb_sz L) (sk_buf (io_sock io)) = Inr (CM_Send msg)"
    and "acquire (lb_gov L) (jn_rate_limiter j) (te_now env) = Ready rl"
  obtains io' where "joined_line L env j io = (Ready (Inr (Joined (j\<lparr>jn_rate_limiter := rl\<rparr>))), io')"
    "queued L (io_broker io') = queued L (io_broker io) @ [encode_server (SM_Broadcast (user_to_string (jn_user j)) msg)]"
proof -
  let ?m = "encode_server (SM_Broadcast (user_to_string (jn_user j)) msg)"
  obtain io' where "forward_or_report L ?m io = (Inr (), io')"
    "queued L (io_broker io') = queued L (io_broker io) @ [?m]"
    using forward_ok [OF assms(1-3)] by metis
  with that [of io'] assms(4,5) show thesis
    by (simp add: joined_line_def handle_joined_message_def user_to_string_def get_username_def)
qed

text \<open>Property C11: a message that the rate limiter holds back is not lost and does not wait long: as
  soon as the task is polled one period after its last poll, the text that is still in the
  buffer goes into the room under the name of its user, and the task takes up the next line.
  (The room has space.)\<close>

theorem held_message_sent:
  assumes "libs_ok L" "server_run L ls (server_start L uuid now) = Some sv"
    and "\<And>env'. SL_Poll cid env' \<in> set ls \<Longrightarrow> te_now env' \<le> t"
    and "cid < length (sv_conns sv)" "running (sv_conns sv ! cid)" "sk_await (cn_sock (sv_conns sv ! cid)) = Aw_Limit"
    and "t + 1000000000 div unat MAX_MESSAGES_PER_SECOND \<le> te_now env"
    and "length (queued L (sv_broker sv)) < room_capacity (lb_cb L) (bk_room (sv_broker sv))"
  shows "\<exists>j msg. cn_state (sv_conns sv ! cid) = Joined j
    \<and> decode_client (lb_unicode L) (lb_sz L) (sk_buf (cn_sock (sv_conns sv ! cid))) = Inr (CM_Send msg)
    \<and> queued L (sv_broker (poll_task L env cid sv))
        = queued L (sv_broker sv) @ [encode_server (SM_Broadcast (user_to_string (jn_user j)) msg)]
    \<and> sk_await (cn_sock (sv_conns (poll_task L env cid sv) ! cid)) = Aw_Top"
proof -
  let ?cn = "sv_conns sv ! cid"
  have "list_all (polled_by cid t) ls" using assms(3) by (auto simp: list_all_iff polled_by_def)
  from timed_run [OF assms(1,2) this] obtain ts where ok: "server_ok L sv" "pace_ok L t ts ?cn"
    using assms(4) by (auto simp: timed_ok_def)
  have nn: "cn_result ?cn = None" using assms(5) by (simp add: running_def)
  obtain j where j: "cn_state ?cn = Joined j"
    using server_okD(5) [OF ok(1) assms(4)] nn assms(6) by (auto simp: conn_ok_def sock_ok_def)
  have p: "paced (lb_gov L) t ts (jn_rate_limiter j)" "holds_send L (cn_sock ?cn)"
    using ok(2) j by (simp_all add: pace_ok_def)
  then obtain msg where tx: "decode_client (lb_unicode L) (lb_sz L) (sk_buf (cn_sock ?cn)) = Inr (CM_Send msg)"
    using assms(6) by (auto simp: holds_send_def)
  obtain rl where rl: "acquire (lb_gov L) (jn_rate_limiter j) (te_now env) = Ready rl"
    using paced_due [OF libs_okD(4) [OF assms(1)] p(1)] assms(7) by (auto simp: SEND_PERIOD_def)
  let ?io = "\<lparr> io_broker = sv_broker sv,
    io_sock = (cn_sock ?cn)\<lparr>sk_reader := arrive (te_bytes env) (te_input env) (sk_reader (cn_sock ?cn))\<rparr> \<rparr>"
  have "room_ok (lb_cb L) (bk_room (io_broker ?io))" using server_okD(1) [OF ok(1)] by (simp add: broker_ok_def)
  then obtain io' where io': "joined_line L env j ?io = (Ready (Inr (Joined (j\<lparr>jn_rate_limiter := rl\<rparr>))), io')"
    "queued L (io_broker io') = queued L (sv_broker sv) @ [encode_server (SM_Broadcast (user_to_string (jn_user j)) msg)]"
    using joined_line_sends [OF assms(1), of ?io msg j env rl] assms(8) tx rl by auto
  have "poll_connection L env cid ?cn (sv_broker sv)
      = (?cn\<lparr>cn_state := Joined (j\<lparr>jn_rate_limiter := rl\<rparr>), cn_sock := io_sock (set_await Aw_Top io')\<rparr>, io_broker io')"
    using nn j assms(6) io'(1) by (simp add: poll_connection_def Let_def begin_tick_def tick_def tick_joined_def)
  with j tx io'(2) assms(4) show ?thesis by (simp add: poll_task_def)
qed

lemma chatty_eval:
  "case server_run ref_libs chatty (server_start ref_libs [] []) of None \<Rightarrow> False
   | Some sv \<Rightarrow> length (sv_conns sv) = 1 \<and> running (sv_conns sv ! 0) \<and> sk_await (cn_sock (sv_conns sv ! 0)) = Aw_Limit
      \<and> sk_buf (cn_sock (sv_conns sv ! 0)) = utf8 (lit ''SEND|z'') @ [newline]
      \<and> decode_client (lb_unicode ref_libs) (lb_sz ref_libs) (sk_buf (cn_sock (sv_conns sv ! 0))) = Inr (CM_Send (lit ''z''))
      \<and> length (queued ref_libs (sv_broker sv)) < room_capacity (lb_cb ref_libs) (bk_room (sv_broker sv))"
  by code_simp

lemma chatty_times: "send_times ref_libs 0 chatty (server_start ref_libs [] []) = [5000000000, 5000000007]"
  by code_simp

lemma chatty_clock: "SL_Poll 0 env \<in> set chatty \<Longrightarrow> te_now env \<le> 5000000007"
  by (auto simp: chatty_def knock_def says_def quiet_def)

lemma chatty_run: "\<exists>sv. server_run ref_libs chatty (server_start ref_libs [] []) = Some sv"
  using chatty_eval by (auto split: option.splits)

lemma send_rate_bounded_witness:
  "(5000000000 :: nat) + 1 * 100000000 \<le> 5000000007 + 20 * 100000000
   \<and> send_times ref_libs 0 chatty (server_start ref_libs [] []) = [5000000000, 5000000007]"
proof -
  obtain sv where sv: "server_run ref_libs chatty (server_start ref_libs [] []) = Some sv" using chatty_run by blast
  show ?thesis
    using send_rate_bounded [OF ref_libs_ok sv refl, of 0 1 0]
    by (simp add: chatty_times MAX_MESSAGES_PER_SECOND_def MESSAGE_BURST_CAPACITY_def)
qed

lemma held_message_sent_witness:
  "\<exists>j. cn_state (sv_conns (run_of chatty) ! 0) = Joined j
     \<and> queued ref_libs (sv_broker (poll_task ref_libs (quiet\<lparr>te_now := 5100000007\<rparr>) 0 (run_of chatty)))
     = queued ref_libs (sv_broker (run_of chatty)) @ [encode_server (SM_Broadcast (user_to_string (jn_user j)) (lit ''z''))]"
proof -
  obtain sv where sv: "server_run ref_libs chatty (server_start ref_libs [] []) = Some sv" using chatty_run by blast
  have ev: "0 < length (sv_conns sv)" "running (sv_conns sv ! 0)" "sk_await (cn_sock (sv_conns sv ! 0)) = Aw_Limit"
    "decode_client (lb_unicode ref_libs) (lb_sz ref_libs) (sk_buf (cn_sock (sv_conns sv ! 0))) = Inr (CM_Send (lit ''z''))"
    "length (queued ref_libs (sv_broker sv)) < room_capacity (lb_cb ref_libs) (bk_room (sv_broker sv))"
    using chatty_eval sv by auto
  have "5000000007 + 1000000000 div unat MAX_MESSAGES_PER_SECOND \<le> te_now (quiet\<lparr>te_now := 5100000007\<rparr>)"
    by (simp add: MAX_MESSAGES_PER_SECOND_def)
  from held_message_sent [OF ref_libs_ok sv chatty_clock ev(1-3) this ev(5)] ev(4) sv
  show ?thesis by (auto simp: run_of_def)
qed

end
