(* ===== verification/Posting.thy ===== *)
theory Posting
  imports Rate_Behaviour
begin

text \<open>
  What enters the room. Three places of \<open>src/server/src/chat/connection.rs\<close> put something
  into the room: the announcement of a join, a message of a joined user and the announcement of a
  departure; everything else only moves messages.

  Shown: one poll adds at most one message to the room, and which one (\<open>poll_posts\<close>); every step of
  the server only moves messages except for these (\<open>step_posts\<close>); and whatever is posted is a
  well-formed event of bounded length (\<open>posted_typed\<close>).
\<close>

text \<open>What a poll may put into the room: of a connection that has not joined, the announcement of the
  valid name in the line it has read; of a joined one, the text of its \<open>SEND\<close> line under the name of
  the user, or its departure if the connection has ended.\<close>

definition posted ::
    "('q, 'c, 'g) libs \<Rightarrow> 'g connection_state \<Rightarrow> byte list \<Rightarrow> bool \<Rightarrow> server_message \<Rightarrow> bool" where
  "posted L st buf ended sm \<longleftrightarrow>
     (case sm of
        SM_UserJoined raw \<Rightarrow>
          line_buf buf \<and> decode_client (lb_unicode L) (lb_sz L) buf = Inr (CM_Join raw)
          \<and> (\<exists>u n. st = Unauthenticated u \<and> username_new (lb_unicode L) (lb_sz L) raw = Inr n)
      | SM_Broadcast name t \<Rightarrow>
          line_buf buf \<and> decode_client (lb_unicode L) (lb_sz L) buf = Inr (CM_Send t)
          \<and> (\<exists>j. st = Joined j \<and> name = user_to_string (jn_user j))
      | SM_UserLeft name \<Rightarrow> ended \<and> (\<exists>j. st = Joined j \<and> name = user_to_string (jn_user j))
      | _ \<Rightarrow> False)"

text \<open>At most one message is added to the room, and one that satisfies a predicate.\<close>

definition adds :: "('q, 'c, 'g) libs \<Rightarrow> (server_message \<Rightarrow> bool) \<Rightarrow> ('q, 'c) broker \<Rightarrow> ('q, 'c) broker \<Rightarrow> bool" where
  "adds L P b b' \<longleftrightarrow>
     queued L b' = queued L b \<or> (\<exists>sm. P sm \<and> queued L b' = queued L b @ [encode_server sm])"

definition ends :: "(connection_error, 'g connection_state) result poll \<Rightarrow> bool" where
  "ends p \<longleftrightarrow> (\<exists>e. p = Ready (Inl e)) \<or> p = Ready (Inr Disconnected)"

text \<open>The messages under way, in the room, with the dispatcher and in the channels, and the step that puts
  one there.\<close>

definition traffic :: "('q, 'c, 'g) libs \<Rightarrow> ('q, 'c) broker \<Rightarrow> byte list set" where
  "traffic L b = set (queued L b) \<union> set_option (map_option fst (current b)) \<union> (\<Union>tx. set (inbox L b tx))"

definition posts ::
    "('q, 'c, 'g) libs \<Rightarrow> ('q, 'c, 'g) server \<Rightarrow> server_label \<Rightarrow> ('q, 'c, 'g) server \<Rightarrow> byte list \<Rightarrow> bool" where
  "posts L sv l sv' m \<longleftrightarrow>
     (case l of
        SL_Poll cid env \<Rightarrow> cid < length (sv_conns sv) \<and> running (sv_conns sv ! cid)
          \<and> (\<exists>sm. posted L (cn_state (sv_conns sv ! cid)) (sk_buf (cn_sock (sv_conns sv' ! cid)))
                 (\<not> running (sv_conns sv' ! cid)) sm \<and> m = encode_server sm)
      | _ \<Rightarrow> False)"

text \<open>The messages for everybody, as opposed to the answers to one client.\<close>

definition is_event :: "server_message \<Rightarrow> bool" where
  "is_event sm \<longleftrightarrow> (case sm of SM_Ok \<Rightarrow> False | SM_Err _ \<Rightarrow> False | _ \<Rightarrow> True)"

subsection \<open>What a poll adds to the room\<close>

lemma adds_post:
  "queued L b' = queued L b \<or> queued L b' = queued L b @ [encode_server sm] \<Longrightarrow> P sm \<Longrightarrow> adds L P b b'"
  by (auto simp: adds_def)

lemma room_queued: "room_of io' = room_of io \<Longrightarrow> queued L (io_broker io') = queued L (io_broker io)"
  by (simp add: queued_def room_of_def)

lemma queued_leave [simp]: "queued L (io_broker (snd (leave L locked j io))) = queued L (io_broker io)"
  by (rule room_queued) simp

lemma buf_send [simp]: "sk_buf (io_sock (snd (send_message_to_client m io))) = sk_buf (io_sock io)"
  by (simp add: send_message_to_client_def)

lemma forward_adds:
  assumes "libs_ok L" "room_ok (lb_cb L) (bk_room (io_broker io))" "forward_or_report L m io = (r, io')"
  shows "queued L (io_broker io') = queued L (io_broker io) \<or> queued L (io_broker io') = queued L (io_broker io) @ [m]"
    "sk_buf (io_sock io') = sk_buf (io_sock io)"
proof -
  obtain q b' where f: "forward_to_room L (io_broker io) m = (q, b')" by force
  note law = forward_law [OF assms(1,2) f]
  have io': "io' = snd (case q of Inr _ \<Rightarrow> (Inr (), io\<lparr>io_broker := b'\<rparr>)
      | Inl e \<Rightarrow> send_message_to_client (SM_Err (room_error_to_string e)) (io\<lparr>io_broker := b'\<rparr>))"
    using assms(3) f by (simp add: forward_or_report_def Let_def)
  have "room_of io' = bk_room b'" "sk_buf (io_sock io') = sk_buf (io_sock io)"
    unfolding io' by (cases q; simp add: room_of_def [of "io\<lparr>io_broker := b'\<rparr>"] del: room_simps add: room_simps)+
  then show "sk_buf (io_sock io') = sk_buf (io_sock io)"
    "queued L (io_broker io') = queued L (io_broker io) \<or> queued L (io_broker io') = queued L (io_broker io) @ [m]"
    using law(2) by (auto simp: queued_def room_of_def)
qed

lemma buf_drain_loop [simp]: "sk_buf (io_sock (snd (drain_loop L rx n io))) = sk_buf (io_sock io)"
proof (induction n arbitrary: io)
  case (Suc n)
  obtain r c' where t: "mp_try_recv (lb_mp L) (bk_channels (io_broker io) rx) = (r, c')" by force
  let ?io1 = "io\<lparr>io_broker := (io_broker io)\<lparr>bk_channels := (bk_channels (io_broker io))(rx := c')\<rparr>\<rparr>"
  have "sk_buf (io_sock (snd (try_bind (on_writer (write_line m) ?io1) (\<lambda>_ io. drain_loop L rx n io)))) = sk_buf (io_sock io)" for m
    using Suc on_writer_fields(3) [of "write_line m" ?io1]
    by (intro try_bind_pres [where I = "\<lambda>io'. sk_buf (io_sock io') = sk_buf (io_sock io)"]) simp_all
  then show ?case using t by (cases r) (simp_all add: Let_def)
qed simp

lemma handle_posts:
  assumes "libs_ok L" "room_ok (lb_cb L) (bk_room (io_broker io))" "handle_joined_message L env j io = (q, io1)"
  shows "queued L (io_broker io1) = queued L (io_broker io)
    \<or> (\<exists>t. decode_client (lb_unicode L) (lb_sz L) (sk_buf (io_sock io)) = Inr (CM_Send t)
        \<and> sk_buf (io_sock io1) = sk_buf (io_sock io) \<and> (\<forall>d j'. q = Ready (Inr (d, j')) \<longrightarrow> \<not> d)
        \<and> queued L (io_broker io1) = queued L (io_broker io) @ [encode_server (SM_Broadcast (user_to_string (jn_user j)) t)])"
  using assms(3) forward_adds [OF assms(1,2)]
  by (auto simp: handle_joined_message_def try_bind_def user_to_string_def get_username_def
      dest!: room_same(1) room_queued [of _ io]
      split: sum.splits client_message.splits poll.splits prod.splits)

lemma joined_line_posts:
  assumes "libs_ok L" "room_ok (lb_cb L) (bk_room (io_broker io))" "line_buf (sk_buf (io_sock io))"
    and "joined_line L env j io = (p, io')"
  shows "adds L (posted L (Joined j :: 'g connection_state) (sk_buf (io_sock io')) (ends p)) (io_broker io) (io_broker io')"
proof -
  obtain q io1 where h: "handle_joined_message L env j io = (q, io1)" by force
  have out: "room_of io' = room_of io1" "(\<forall>d j'. q = Ready (Inr (d, j')) \<longrightarrow> \<not> d) \<Longrightarrow> io' = io1"
    using assms(4) h
    by (auto simp: joined_line_def try_bind_def dest!: room_same split: poll.splits sum.splits prod.splits if_splits)
  from handle_posts [OF assms(1,2) h] show ?thesis
  proof
    assume "queued L (io_broker io1) = queued L (io_broker io)"
    with room_queued [OF out(1), of L] show ?thesis by (simp add: adds_def)
  next
    assume "\<exists>t. decode_client (lb_unicode L) (lb_sz L) (sk_buf (io_sock io)) = Inr (CM_Send t)
        \<and> sk_buf (io_sock io1) = sk_buf (io_sock io) \<and> (\<forall>d j'. q = Ready (Inr (d, j')) \<longrightarrow> \<not> d)
        \<and> queued L (io_broker io1) = queued L (io_broker io) @ [encode_server (SM_Broadcast (user_to_string (jn_user j)) t)]"
    then obtain t where t: "decode_client (lb_unicode L) (lb_sz L) (sk_buf (io_sock io)) = Inr (CM_Send t)"
      "sk_buf (io_sock io') = sk_buf (io_sock io)"
      "queued L (io_broker io') = queued L (io_broker io) @ [encode_server (SM_Broadcast (user_to_string (jn_user j)) t)]"
      using out(2) by auto
    then show ?thesis
      by (intro adds_post [of L _ _ "SM_Broadcast (user_to_string (jn_user j)) t"]) (simp_all add: posted_def assms(3))
  qed
qed

lemma joined_event_posts:
  fixes L :: "('q, 'c, 'g) libs"
  assumes "libs_ok L" "room_ok (lb_cb L) (bk_room (io_broker io))" "input_ok (Ready (Inr event)) io"
    and "joined_event L env j event io = (p, io')"
  shows "adds L (posted L (Joined j :: 'g connection_state) (sk_buf (io_sock io')) (ends p)) (io_broker io) (io_broker io')"
proof (cases event)
  case (IE_Data n)
  show ?thesis
  proof (cases "n = 0")
    case False
    with IE_Data assms joined_line_posts [OF assms(1,2)] show ?thesis by (simp add: joined_event_def input_ok_def)
  next
    case True
    let ?m = "encode_server (SM_UserLeft (username_to_string (get_username (jn_user j))))"
    obtain r io1 where d: "drain_broadcasts L j io = (r, io1)" by force
    let ?io2 = "snd (leave L (te_locked env) j io1)"
    obtain r3 io3 where f: "forward_or_report L ?m ?io2 = (r3, io3)" by force
    have room: "room_of ?io2 = room_of io" using room_same(3) [OF d] by simp
    then have ok: "room_ok (lb_cb L) (bk_room (io_broker ?io2))" using assms(2) by (simp add: room_of_def)
    have q: "queued L (io_broker ?io2) = queued L (io_broker io)" using room by (rule room_queued)
    have "io' = io1 \<or> io' = io3 \<and> ends p"
      using assms(4) IE_Data True d f by (auto simp: joined_event_def try_bind_def ends_def split: sum.splits)
    then show ?thesis
    proof
      assume "io' = io1"
      then show ?thesis using room_queued [OF room_same(3) [OF d], of L] by (simp add: adds_def)
    next
      assume "io' = io3 \<and> ends p"
      with forward_adds(1) [OF assms(1) ok f] q show ?thesis
        by (intro adds_post [of L _ _ "SM_UserLeft (user_to_string (jn_user j))"])
          (auto simp: posted_def user_to_string_def get_username_def)
    qed
  qed
qed (use assms(4) in \<open>auto simp: joined_event_def try_bind_def adds_def
       dest!: room_same room_queued [of _ io L] split: sum.splits prod.splits\<close>)

lemma unauthenticated_event_posts:
  fixes L :: "('q, 'c, 'g) libs"
  assumes "libs_ok L" "room_ok (lb_cb L) (bk_room (io_broker io))" "input_ok (Ready (Inr event)) io"
    and "unauthenticated_event L env u event io = (r :: (_, 'g connection_state) result, io')"
  shows "adds L (posted L (Unauthenticated u :: 'g connection_state) (sk_buf (io_sock io')) e) (io_broker io) (io_broker io')"
proof (cases "\<exists>n raw. event = IE_Data n \<and> n \<noteq> 0 \<and>
      decode_client (lb_unicode L) (lb_sz L) (sk_buf (io_sock io)) = Inr (CM_Join raw)")
  case False
  with assms(4) show ?thesis
    by (auto simp: unauthenticated_event_def try_bind_def adds_def
       dest!: room_same(1) room_queued [of _ io L] split: input_event.splits if_splits sum.splits client_message.splits prod.splits)
next
  case True
  then obtain n raw where ev: "event = IE_Data n" "n \<noteq> 0"
    and d: "decode_client (lb_unicode L) (lb_sz L) (sk_buf (io_sock io)) = Inr (CM_Join raw)" by blast
  have lb: "line_buf (sk_buf (io_sock io))" using assms(3) ev by (simp add: input_ok_def)
  obtain q b1 where j: "unauthenticated_join L (te_locked env) u raw (io_broker io) = (q, b1)" by force
  have b1: "bk_room b1 = bk_room (io_broker io)"
    using j by (auto simp: unauthenticated_join_def split: sum.splits prod.splits)
  let ?io1 = "io\<lparr>io_broker := b1\<rparr>"
  have q1: "queued L b1 = queued L (io_broker io)" using b1 by (simp add: queued_def)
  show ?thesis
  proof (cases q)
    case (Inl x)
    with ev d j assms(4) have "room_of io' = room_of ?io1"
      by (cases x) (auto simp: unauthenticated_event_def try_bind_def dest!: room_same(1) split: sum.splits prod.splits)
    with q1 room_queued [of io' ?io1 L] show ?thesis by (simp add: adds_def)
  next
    case (Inr jn)
    obtain nm where nm: "username_new (lb_unicode L) (lb_sz L) raw = Inr nm"
      using j Inr by (auto simp: unauthenticated_join_def split: sum.splits prod.splits)
    obtain r2 io2 where f: "forward_or_report L (encode_server (SM_UserJoined raw)) ?io1 = (r2, io2)" by force
    have "room_of io' = room_of io2" "sk_buf (io_sock io') = sk_buf (io_sock io2)"
      using Inr ev d j assms(4) f
      by (auto simp: unauthenticated_event_def try_bind_def send_message_to_client_def dest: room_same(2)
         split: sum.splits prod.splits) (metis on_writer_fields(3) snd_conv)+
    with forward_adds [OF assms(1) _ f] assms(2) b1 q1 room_queued [of io' io2 L] lb d nm show ?thesis
      by (intro adds_post [of L _ _ "SM_UserJoined raw"]) (auto simp: posted_def)
  qed
qed

lemma adds_from: "adds L P b1 b' \<Longrightarrow> queued L b1 = queued L b \<Longrightarrow> adds L P b b'"
  by (simp add: adds_def)

lemma adds_room: "room_of io' = room_of io \<Longrightarrow> adds L P (io_broker io) (io_broker io')"
  by (simp add: adds_def queued_def room_of_def)

lemma wait_room:
  assumes "good L io" "wait_for_input L env (Some cid) io = (q, io1)"
  shows "queued L (io_broker io1) = queued L (io_broker io)" "room_ok (lb_cb L) (bk_room (io_broker io1))"
    "room_of io1 = room_of io"
    "open_buf (Suc MAX_CLIENT_BUFFER_SIZE) (sk_buf (io_sock io)) \<Longrightarrow> input_ok q io1"
  using wait_for_input_room [OF assms(2)] wait_for_input_effect(6) [OF assms(1) _ assms(2)] assms(1)
  by (auto simp: queued_def room_of_def good_def traffic_ok_def)

lemma tick_unauthenticated_posts:
  fixes L :: "('q, 'c, 'g) libs"
  assumes "good L io" "ua_rx u = cid" "open_buf (Suc MAX_CLIENT_BUFFER_SIZE) (sk_buf (io_sock io))"
    and "tick_unauthenticated L env u io = (p :: (_, 'g connection_state) result poll, io')"
  shows "adds L (posted L (Unauthenticated u :: 'g connection_state) (sk_buf (io_sock io')) e) (io_broker io) (io_broker io')"
proof -
  obtain q io1 where w: "wait_for_input L env (Some cid) io = (q, io1)" by force
  note wr = wait_room [OF assms(1) w]
  show ?thesis
  proof (cases "\<exists>event. q = Ready (Inr event)")
    case True
    then obtain event and r :: "(_, 'g connection_state) result"
      where q: "q = Ready (Inr event)" "unauthenticated_event L env u event io1 = (r, io')"
      using assms(2,4) w by (auto simp: tick_unauthenticated_def)
    with unauthenticated_event_posts [OF _ wr(2) _ q(2), of e] wr(1) wr(4) [OF assms(3)] assms(1) show ?thesis
      by (auto simp: good_def intro: adds_from)
  next
    case False
    with assms(2,4) w wr(3) show ?thesis
      by (intro adds_room) (auto simp: tick_unauthenticated_def split: poll.splits sum.splits)
  qed
qed

lemma tick_joined_posts:
  fixes L :: "('q, 'c, 'g) libs"
  assumes "good L io" "jn_rx j = cid" "sock_ok (Joined j :: 'g connection_state) (io_sock io)" "sk_await (io_sock io) \<noteq> Aw_Top"
    and "tick_joined L env j io = (p, io')"
  shows "adds L (posted L (Joined j :: 'g connection_state) (sk_buf (io_sock io')) (ends p)) (io_broker io) (io_broker io')"
proof -
  have L: "libs_ok L" "room_ok (lb_cb L) (bk_room (io_broker io))" using assms(1) by (simp_all add: good_def traffic_ok_def)
  obtain q io1 where w: "wait_for_input L env (Some cid) io = (q, io1)" by force
  note wr = wait_room [OF assms(1) w]
  consider (discard) "sk_await (io_sock io) = Aw_Discard" | (limit) "sk_await (io_sock io) = Aw_Limit"
    | (event) event where "sk_await (io_sock io) = Aw_Input" "q = Ready (Inr event)"
    | (other) "sk_await (io_sock io) = Aw_Input" "\<nexists>event. q = Ready (Inr event)"
    using assms(4) by (cases "sk_await (io_sock io)") auto
  then show ?thesis
  proof cases
    case discard
    with assms(5) show ?thesis by (intro adds_room) (auto simp: tick_joined_def dest: poll_discard_room(1))
  next
    case limit
    then have "line_buf (sk_buf (io_sock io))" "joined_line L env j io = (p, io')"
      using assms(3,5) by (simp_all add: sock_ok_def tick_joined_def)
    from joined_line_posts [OF L this] show ?thesis .
  next
    case event
    then have "joined_event L env j event io1 = (p, io')" "input_ok (Ready (Inr event)) io1"
      using assms(2,3,5) w wr(4) by (simp_all add: tick_joined_def sock_ok_def)
    from joined_event_posts [OF L(1) wr(2) this(2,1)] wr(1) show ?thesis by (rule adds_from)
  next
    case other
    with assms(2,5) w wr(3) show ?thesis
      by (intro adds_room) (auto simp: tick_joined_def finish_too_long_def try_bind_def
          dest!: poll_discard_room(1) room_same(1)
          split: poll.splits sum.splits connection_error.splits prod.splits if_splits)
  qed
qed

lemma tick_posts:
  fixes L :: "('q, 'c, 'g) libs"
  assumes "good L io" "state_ok L cid st" "sock_ok st (io_sock io)" "sk_await (io_sock io) \<noteq> Aw_Top"
    and "st \<noteq> Disconnected" "tick L env st io = (p, io')"
  shows "adds L (posted L st (sk_buf (io_sock io')) (ends p)) (io_broker io) (io_broker io')"
proof (cases st)
  case (Unauthenticated u)
  then have "ua_rx u = cid" "open_buf (Suc MAX_CLIENT_BUFFER_SIZE) (sk_buf (io_sock io))"
    using assms(2-4) by (cases "sk_await (io_sock io)"; auto simp: sock_ok_def state_ok_def)+
  with tick_unauthenticated_posts [OF assms(1) this] assms(6) Unauthenticated show ?thesis by (simp add: tick_def)
next
  case (Joined j)
  with tick_joined_posts [OF assms(1), of j cid env] assms(2-4,6) show ?thesis by (simp add: tick_def state_ok_def)
qed (use assms(5) in simp)

text \<open>A poll that does something: it fails at the head of the iteration, or \<open>tick\<close> is polled.\<close>

abbreviation woken :: "tick_env \<Rightarrow> 'g connection \<Rightarrow> ('q, 'c) broker \<Rightarrow> ('q, 'c) io" where
  "woken env cn b \<equiv> \<lparr> io_broker = b,
     io_sock = (cn_sock cn)\<lparr>sk_reader := arrive (te_bytes env) (te_input env) (sk_reader (cn_sock cn))\<rparr> \<rparr>"

lemma poll_active_cases:
  assumes "libs_ok L" "traffic_ok L b" "conn_ok L cid cn" "cn_result cn = None"
    and "poll_connection L env cid cn b = (cn', b')"
  obtains (failed) e io1 where "begin_tick L (cn_state cn) (woken env cn b) = (Inl e, io1)"
      "sk_writer (cn_sock cn') = sk_writer (io_sock io1)" "bk_room b' = bk_room (io_broker io1)"
  | (ticked) io1 p io2 where "begin_tick L (cn_state cn) (woken env cn b) = (Inr (), io1)" "good L io1"
      "frame L cid b (io_broker io1)" "sock_ok (cn_state cn) (io_sock io1)" "sk_await (io_sock io1) \<noteq> Aw_Top"
      "tick L env (cn_state cn) io1 = (p, io2)" "sk_buf (cn_sock cn') = sk_buf (io_sock io2)"
      "sk_writer (cn_sock cn') = sk_writer (io_sock io2)" "bk_room b' = bk_room (io_broker io2)"
      "cn_result cn' \<noteq> None \<longleftrightarrow> ends p"
proof -
  let ?st = "cn_state cn" and ?io = "woken env cn b"
  have cn: "state_ok L cid ?st" "?st \<noteq> Disconnected" "sock_ok ?st (io_sock ?io)" "good L ?io"
    using assms(1-4) by (simp_all add: conn_ok_def good_def)
  obtain r io1 where bt: "begin_tick L ?st ?io = (r, io1)" by force
  show thesis
  proof (cases r)
    case (Inl e)
    then have "finish L cid (Inl e) io1 = (cn', b')" using assms(4,5) bt by (simp add: poll_connection_def Let_def)
    then show thesis using failed [of e io1] bt Inl by (auto simp: finish_def Let_def)
  next
    case (Inr u)
    note bk = begin_tick_keeps [OF cn(4,1,3,2)]
    have g1: "good L io1" "frame L cid b (io_broker io1)"
      using keeps_InrD [of L cid ?io u io1] bk(1) bt Inr cn(4) by (simp_all add: keeps_def)
    have so: "sock_ok ?st (io_sock io1)" "sk_await (io_sock io1) \<noteq> Aw_Top" using bk(2) [of u io1] bt Inr by simp_all
    obtain p io2 where t: "tick L env ?st io1 = (p, io2)" by force
    have "sk_buf (cn_sock cn') = sk_buf (io_sock io2)" "sk_writer (cn_sock cn') = sk_writer (io_sock io2)"
      "bk_room b' = bk_room (io_broker io2)" "cn_result cn' \<noteq> None \<longleftrightarrow> ends p"
      using assms(4,5) bt Inr t
      by (auto simp: poll_connection_def Let_def finish_def ends_def split: poll.splits sum.splits connection_state.splits)
    with ticked [of io1 p io2] bt Inr g1 so t show thesis by simp
  qed
qed

text \<open>What one poll adds to the room.\<close>

lemma poll_posts:
  assumes "libs_ok L" "traffic_ok L b" "conn_ok L cid cn" "cn_result cn = None"
    and "poll_connection L env cid cn b = (cn', b')"
  shows "adds L (posted L (cn_state cn) (sk_buf (cn_sock cn')) (cn_result cn' \<noteq> None)) b b'"
  using assms
proof (cases rule: poll_active_cases)
  case (failed e io1)
  with begin_tick_room(1) [OF failed(1)] show ?thesis by (simp add: adds_def queued_def room_of_def)
next
  case (ticked io1 p io2)
  have "state_ok L cid (cn_state cn)" "cn_state cn \<noteq> Disconnected" using assms(3,4) by (simp_all add: conn_ok_def)
  from tick_posts [OF ticked(2) this(1) ticked(4,5) this(2) ticked(6)] begin_tick_room(1) [OF ticked(1)] ticked(7,9,10)
  show ?thesis by (simp add: adds_def queued_def room_of_def)
qed

subsection \<open>Where messages come from\<close>

lemma traffic_dispatch:
  assumes "libs_ok L" "broker_ok L b" "de_join_ok e"
  shows "traffic L (dispatcher_poll L e b) \<subseteq> traffic L b"
  by (rule dispatcher_poll_cases [OF assms]) (auto simp: traffic_def split: if_splits)

lemma step_posts:
  assumes "server_step L sv l sv'" "libs_ok L" "server_ok L sv" "m \<in> traffic L (sv_broker sv')"
  shows "m \<in> traffic L (sv_broker sv) \<or> posts L sv l sv' m"
  using assms(1)
proof cases
  case (accept_step ev)
  have "traffic L (sv_broker sv') \<subseteq> traffic L (sv_broker sv)"
    using accept_step assms(2)
    by (auto simp: accept_connections_def handle_connection_def unauthenticated_new_def traffic_def queued_def inbox_def
        lib_laws USER_CHANNEL_BUFFER_SIZE_def split: acceptor.splits accept_event.splits option.splits if_splits)
  with assms(4) show ?thesis by blast
next
  case (poll_step cid env)
  let ?cn = "sv_conns sv ! cid" and ?b = "sv_broker sv"
  note ok = server_okD [OF assms(3)]
  obtain cn' b' where p: "poll_connection L env cid ?cn ?b = (cn', b')" by force
  have sv': "sv_broker sv' = b'" "sv_conns sv' ! cid = cn'" using poll_step p by (simp_all add: poll_task_def)
  show ?thesis
  proof (cases "cn_result ?cn")
    case (Some x)
    with p have "b' = ?b" by (simp add: poll_connection_def)
    with assms(4) sv' show ?thesis by simp
  next
    case None
    have fr: "outer_frame L cid ?b b'"
      using poll_connection_keeps [OF assms(2) ok(2) ok(5) [OF poll_step(4)] p] by simp
    then have ib: "set (inbox L b' tx) \<subseteq> set (inbox L ?b tx)" for tx
      by (cases "tx = cid") (auto simp: outer_frame_def inbox_def dest: set_mono_suffix)
    have cur: "current b' = current ?b" using fr by (simp add: outer_frame_def current_def)
    from poll_posts [OF assms(2) ok(2) ok(5) [OF poll_step(4)] None p] ib cur assms(4) sv' poll_step None
    show ?thesis by (auto simp: traffic_def adds_def posts_def running_def)
  qed
next
  case (dispatch_step e)
  with traffic_dispatch [OF assms(2) server_okD(1) [OF assms(3)]] assms(4) show ?thesis by (auto simp: dispatch_task_def)
qed (use assms(4) in \<open>auto simp: ctrl_c_def stop_broker_def shutdown_def exit_main_def traffic_def queued_def inbox_def\<close>)

lemma start_traffic: "libs_ok L \<Longrightarrow> traffic L (sv_broker (server_start L uuid now)) = {}"
  using room_ok_new [of "lb_cb L"]
  by (simp add: traffic_def server_start_def start_dispatcher_def broker_new_def queued_def inbox_def lib_laws
      USER_CHANNEL_BUFFER_SIZE_def current_def)

subsection \<open>Messages are events\<close>

lemma event_length:
  assumes "sm = SM_UserJoined u \<or> sm = SM_UserLeft u" "length (utf8 u) \<le> n"
  shows "length (encode_server sm) \<le> n + 7"
  using assms by (auto simp: encode_server_def FIELD_SEPARATOR_bar wire_simps utf8_char_def bar_def)

lemma valid_name_length:
  assumes "valid_username U n"
  shows "length (utf8 (username_to_string n)) \<le> 128"
  using length_utf8_le [of "username_to_string n"] assms
  by (simp add: valid_username_def valid_name_def MAX_USERNAME_LEN_def)

text \<open>Whatever is posted is an event that every decoder reads back, and of bounded length.\<close>

lemma posted_typed:
  assumes "libs_ok L" "state_ok L cid st" "posted L st buf ended sm"
  shows "is_event sm" "canonical_server sm" "length (encode_server sm) \<le> MAX_CLIENT_BUFFER_SIZE + 256"
proof -
  note sz = libs_okD(1) [OF assms(1)]
  have lb: "length buf \<le> usize_max" "length buf \<le> MAX_CLIENT_BUFFER_SIZE" if "line_buf buf"
    using that by (auto simp: line_buf_def MAX_CLIENT_BUFFER_SIZE_def usize_max_def)
  have v: "valid_username (lb_unicode L) (u_username (jn_user j))" if "st = Joined j" for j
    using assms(2) that by (simp add: state_ok_def)
  have "is_event sm \<and> canonical_server sm \<and> length (encode_server sm) \<le> MAX_CLIENT_BUFFER_SIZE + 256"
  proof (cases sm)
    case (SM_UserJoined raw)
    then have d: "line_buf buf" "decode_client (lb_unicode L) (lb_sz L) buf = Inr (CM_Join raw)"
      using assms(3) by (simp_all add: posted_def)
    from decode_client_canonical [OF sz lb(1) [OF d(1)] d(2)] decode_field_length [OF sz lb(1) [OF d(1)] d(2)] lb(2) [OF d(1)]
      event_length [of sm raw "length buf"] SM_UserJoined
    show ?thesis by (simp add: canonical_client_def canonical_server_def is_event_def)
  next
    case (SM_UserLeft name)
    then obtain j where j: "st = Joined j" "name = username_to_string (u_username (jn_user j))"
      using assms(3) by (auto simp: posted_def user_to_string_def)
    have "trimmed_end name" using v [OF j(1)] trim_last [of name] j(2)
      by (auto simp: valid_username_def trimmed_end_def)
    with event_length [of sm name 128] valid_name_length [OF v [OF j(1)]] v [OF j(1)] j(2) SM_UserLeft show ?thesis
      by (simp add: canonical_server_def valid_username_def is_event_def)
  next
    case (SM_Broadcast name t)
    then obtain j where d: "line_buf buf" "decode_client (lb_unicode L) (lb_sz L) buf = Inr (CM_Send t)"
      and j: "st = Joined j" "name = username_to_string (u_username (jn_user j))"
      using assms(3) by (auto simp: posted_def user_to_string_def)
    have "length (encode_server sm) \<le> MAX_CLIENT_BUFFER_SIZE + 256"
      using decode_field_length [OF sz lb(1) [OF d(1)] d(2)] lb(2) [OF d(1)] valid_name_length [OF v [OF j(1)]] j(2) SM_Broadcast
      by (simp add: encode_server_def FIELD_SEPARATOR_bar wire_simps utf8_char_def bar_def)
    with broadcast_canonical(1) [OF assms(1) v [OF j(1)] d] j(2) SM_Broadcast show ?thesis by (simp add: is_event_def)
  qed (use assms(3) in \<open>simp_all add: posted_def\<close>)
  then show "is_event sm" "canonical_server sm" "length (encode_server sm) \<le> MAX_CLIENT_BUFFER_SIZE + 256" by simp_all
qed

lemma posted_decodes:
  assumes "libs_ok L" "state_ok L cid st" "posted L st buf ended sm" "sz_ok sz"
  shows "decode_server U sz (encode_server sm) = Inr sm"
proof -
  have "length (encode_server sm) \<le> usize_max"
    using posted_typed(3) [OF assms(1-3)] by (simp add: MAX_CLIENT_BUFFER_SIZE_def usize_max_def)
  with decode_encode_server [OF assms(4) posted_typed(2) [OF assms(1-3)]] show ?thesis .
qed

end
