(* ===== verification/Emission.thy ===== *)
theory Emission
  imports Posting
begin

text \<open>
  What is written to the clients. The lines that the server writes to the socket of a connection
  are answers to this client (\<open>OK\<close> and \<open>ERR\<close>), or messages that came out of its own channel.

  Shown: every computation of a connection writes only such lines (\<open>emits\<close>, along the handlers of
  \<open>src/server/src/chat/connection.rs\<close>), hence every poll (\<open>poll_received\<close>); and no client takes
  an answer for an event (\<open>answer_decodes\<close>).
\<close>

text \<open>The lines of a stream that are complete.\<close>

function complete_lines :: "byte list \<Rightarrow> byte list list" where
  "complete_lines bs =
     (if newline \<in> set bs
      then takeWhile (\<lambda>b. b \<noteq> newline) bs # complete_lines (tl (dropWhile (\<lambda>b. b \<noteq> newline) bs))
      else [])"
  by pat_completeness auto
termination
proof (relation "measure length", goal_cases)
  case (2 bs)
  then have "length (dropWhile (\<lambda>b. b \<noteq> newline) bs) > 0" by auto
  moreover have "length (dropWhile (\<lambda>b. b \<noteq> newline) bs) \<le> length bs" by (rule length_dropWhile_le)
  ultimately show ?case unfolding in_measure length_tl by linarith
qed simp

declare complete_lines.simps [simp del]

definition answer :: "byte list \<Rightarrow> bool" where
  "answer m \<longleftrightarrow> (\<exists>sm. clean_server sm \<and> \<not> is_event sm \<and> m = encode_server sm)"

text \<open>A computation writes whole lines, each an answer or one of a given set of messages; the last
  line may be cut short if it fails.\<close>

definition emits ::
    "byte list set \<Rightarrow> ('q, 'c) io \<Rightarrow> (connection_error, 'a) result \<times> ('q, 'c) io \<Rightarrow> bool" where
  "emits A io res \<longleftrightarrow>
     (\<exists>ms rest. out (snd res) = out io @ lines ms @ rest \<and> newline \<notin> set rest
        \<and> (\<forall>x. fst res = Inr x \<longrightarrow> rest = []) \<and> (\<forall>m \<in> set ms. newline \<notin> set m \<and> (m \<in> A \<or> answer m)))"

definition poll_emits ::
    "byte list set \<Rightarrow> ('q, 'c) io \<Rightarrow> (connection_error, 'a) result poll \<times> ('q, 'c) io \<Rightarrow> bool" where
  "poll_emits A io res \<longleftrightarrow>
     (case fst res of Pending \<Rightarrow> out (snd res) = out io | Ready r \<Rightarrow> emits A io (r, snd res))"

text \<open>The set holds the messages in the channel of the connection, none with a line feed.\<close>

definition covers :: "('q, 'c, 'g) libs \<Rightarrow> chan_id \<Rightarrow> byte list set \<Rightarrow> ('q, 'c) io \<Rightarrow> bool" where
  "covers L cid A io \<longleftrightarrow> set (inbox L (io_broker io) cid) \<subseteq> A \<and> (\<forall>m \<in> A. newline \<notin> set m)"

subsection \<open>Lines\<close>

lemma complete_lines_lines:
  assumes "\<forall>m \<in> set ms. newline \<notin> set m" "newline \<notin> set rest"
  shows "complete_lines (lines ms @ rest) = ms"
  using assms
proof (induction ms)
  case Nil
  then show ?case by (simp add: complete_lines.simps)
next
  case (Cons m ms)
  then have "takeWhile (\<lambda>b. b \<noteq> newline) (m @ newline # lines ms @ rest) = m"
    "dropWhile (\<lambda>b. b \<noteq> newline) (m @ newline # lines ms @ rest) = newline # lines ms @ rest"
    by (auto simp: takeWhile_append dropWhile_append)
  with Cons show ?case by (subst complete_lines.simps) simp
qed

lemma cut_lines_split:
  assumes "cut_lines w"
  obtains ms rest where "wr_out w = lines ms @ rest" "\<forall>m \<in> set ms. newline \<notin> set m" "newline \<notin> set rest"
proof -
  from assms obtain ms m k where ms: "wr_out w = lines ms @ take k m" "list_all server_text ms" "server_text m"
    by (auto simp: cut_lines_def)
  then show thesis using that [of ms "take k m"] server_text_no_newline
    by (auto simp: list_all_iff dest: in_set_takeD)
qed

text \<open>An answer is never taken for an event.\<close>

lemma trim_end_bar: "trim_end (s @ bar # r) = s @ bar # trim_end r"
  by (simp add: trim_end_def dropWhile_append)

lemma answer_decodes:
  assumes "answer m" "sz_ok sz" "length m \<le> usize_max" "decode_server U sz m = Inr sm"
  shows "\<not> is_event sm"
proof -
  from assms(1) obtain a where a: "clean_server a" "\<not> is_event a" "m = encode_server a" by (auto simp: answer_def)
  show ?thesis
  proof (cases a)
    case (SM_Err r)
    then have r: "wf_str r" "m = utf8 (SERVER_EVENT_ERR @ bar # r)"
      using a by (simp_all add: clean_server_def clean_def encode_server_def FIELD_SEPARATOR_bar del: utf8_simps)
    have "trim (SERVER_EVENT_ERR @ bar # r) = SERVER_EVENT_ERR @ bar # trim_end r"
      using trim_end_bar [of SERVER_EVENT_ERR r] by (simp add: trim_def trim_start_def wire_simps is_whitespace_def)
    moreover have "from_utf8 m = Some (SERVER_EVENT_ERR @ bar # r)"
      using r wire_word_facts(2) [of SERVER_EVENT_ERR] by (simp del: utf8_simps)
    moreover have "first_field (SERVER_EVENT_ERR @ bar # t) = SERVER_EVENT_ERR"
      "after_field (SERVER_EVENT_ERR @ bar # t) = Some t" for t
      by (simp_all add: first_field_def after_field_def wire_simps bar_def)
    ultimately have "decode_server U sz m = match_event U sz SERVER_EVENT_ERR (Some (trim_end r))"
      using decode_server_text [OF assms(2,3), of _ U] by simp
    then show ?thesis using assms(4) by (auto simp: match_event_def is_event_def)
  next
    case SM_Ok
    with assms(2-4) a(3) decode_encode_server [of sz SM_Ok U] show ?thesis by (auto simp: canonical_server_def is_event_def)
  qed (use a in \<open>simp_all add: is_event_def\<close>)
qed

subsection \<open>What a computation writes\<close>

lemma emits_same [simp]: "out io' = out io \<Longrightarrow> emits A io (r, io')"
  unfolding emits_def by (intro exI [of _ "[]"]) simp

lemma emits_from: "out io1 = out io \<Longrightarrow> emits A io1 res \<longleftrightarrow> emits A io res"
  by (simp add: emits_def)

lemma emits_then: "emits A io1 res \<Longrightarrow> out io1 = out io \<Longrightarrow> emits A io res"
  by (simp add: emits_def)

lemma emits_weaken: "emits A io (r, io') \<Longrightarrow> emits A io (Inl e, io')"
  by (auto simp: emits_def)

lemma emits_bind:
  assumes "emits A io m" "\<And>x io1. m = (Inr x, io1) \<Longrightarrow> emits A io1 (f x io1)"
  shows "emits A io (try_bind m f)"
proof (cases "fst m")
  case (Inl e)
  with assms(1) show ?thesis by (cases m) (auto simp: emits_def)
next
  case (Inr x)
  then obtain io1 where m: "m = (Inr x, io1)" by (cases m) auto
  with assms(1) obtain ms where ms: "out io1 = out io @ lines ms" "\<forall>m \<in> set ms. newline \<notin> set m \<and> (m \<in> A \<or> answer m)"
    by (auto simp: emits_def)
  from assms(2) [OF m] obtain ns rest where
    "out (snd (f x io1)) = out io1 @ lines ns @ rest" "newline \<notin> set rest"
    "\<forall>x'. fst (f x io1) = Inr x' \<longrightarrow> rest = []" "\<forall>m \<in> set ns. newline \<notin> set m \<and> (m \<in> A \<or> answer m)"
    by (auto simp: emits_def)
  with ms m show ?thesis
    unfolding emits_def by (intro exI [of _ "ms @ ns"] exI [of _ rest]) auto
qed

lemma emits_write:
  assumes "newline \<notin> set m" "m \<in> A \<or> answer m"
  shows "emits A io (on_writer (write_line m) io)"
proof -
  obtain r w where w: "write_line m (sk_writer (io_sock io)) = (r, w)" by force
  have res: "on_writer (write_line m) io = (map_err CE_Io r, upd_sock (\<lambda>s. s\<lparr>sk_writer := w\<rparr>) io)"
    by (simp add: on_writer_def w)
  have o: "out (upd_sock (\<lambda>s. s\<lparr>sk_writer := w\<rparr>) io) = wr_out w" by (simp add: out_def upd_sock_def)
  from write_line_law [OF w] show ?thesis
  proof
    assume "r = Inr () \<and> wr_out w = wr_out (sk_writer (io_sock io)) @ m @ [newline]"
    with assms o show ?thesis
      unfolding emits_def res by (intro exI [of _ "[m]"] exI [of _ "[]"]) (simp add: out_def)
  next
    assume "r = Inl (wr_error (sk_writer (io_sock io))) \<and> (\<exists>k \<le> length m. wr_out w = wr_out (sk_writer (io_sock io)) @ take k m)"
    then obtain k where "r = Inl (wr_error (sk_writer (io_sock io)))" "wr_out w = wr_out (sk_writer (io_sock io)) @ take k m"
      by blast
    with assms o show ?thesis
      unfolding emits_def res by (intro exI [of _ "[]"] exI [of _ "take k m"]) (auto simp: out_def map_err_def dest: in_set_takeD)
  qed
qed

lemma emits_send: "clean_server sm \<Longrightarrow> \<not> is_event sm \<Longrightarrow> emits A io (send_message_to_client sm io)"
  unfolding send_message_to_client_def
  by (rule emits_write) (auto simp: encode_clean answer_def dest: encode_clean(1) server_text_no_newline)

lemma emits_error: "clean r \<Longrightarrow> emits A io (send_message_to_client (SM_Err r) io)"
  by (rule emits_send) (simp_all add: clean_server_def is_event_def)

lemma emits_forward: "emits A io (forward_or_report L m io)"
proof -
  obtain r b' where f: "forward_to_room L (io_broker io) m = (r, b')" by force
  have "emits A (io\<lparr>io_broker := b'\<rparr>) (send_message_to_client (SM_Err (room_error_to_string e)) (io\<lparr>io_broker := b'\<rparr>))" for e
    by (rule emits_error) simp
  with f show ?thesis by (cases r) (simp_all add: forward_or_report_def Let_def emits_from [of "io\<lparr>io_broker := b'\<rparr>" io])
qed

lemma emits_drain_loop: "mpsc_ok (lb_mp L) \<Longrightarrow> covers L cid A io \<Longrightarrow> emits A io (drain_loop L cid n io)"
proof (induction n arbitrary: io)
  case (Suc n)
  let ?b = "io_broker io"
  obtain r c' where t: "mp_try_recv (lb_mp L) (bk_channels ?b cid) = (r, c')" by force
  note law = mpsc_try_recv [OF Suc.prems(1) t]
  let ?io1 = "io\<lparr>io_broker := ?b\<lparr>bk_channels := (bk_channels ?b)(cid := c')\<rparr>\<rparr>"
  have c1: "covers L cid A ?io1"
    using Suc.prems(2) law(2) list.set_sel(2) by (cases "inbox L ?b cid") (auto simp: covers_def inbox_def)
  show ?case
  proof (cases r)
    case None
    with t show ?thesis by (simp add: Let_def)
  next
    case (Some m)
    then have m: "m \<in> A" using law(1) Suc.prems(2) by (auto simp: inbox_def covers_def split: list.splits)
    have "emits A ?io1 (try_bind (on_writer (write_line m) ?io1) (\<lambda>_ io. drain_loop L cid n io))"
    proof (rule emits_bind)
      show "emits A ?io1 (on_writer (write_line m) ?io1)" using m Suc.prems(2) by (intro emits_write) (auto simp: covers_def)
      show "emits A io2 (drain_loop L cid n io2)" if "on_writer (write_line m) ?io1 = (Inr x, io2)" for x io2
        using c1 on_writer_fields(1) [of "write_line m" ?io1] that
        by (intro Suc.IH Suc.prems) (simp add: covers_def)
    qed
    with Some t show ?thesis by (simp add: Let_def emits_from [of ?io1 io])
  qed
qed simp

lemma emits_drain: "libs_ok L \<Longrightarrow> jn_rx j = cid \<Longrightarrow> covers L cid A io \<Longrightarrow> emits A io (drain_broadcasts L j io)"
  by (simp add: drain_broadcasts_def emits_drain_loop del: drain_loop.simps)

lemma out_leave [simp]: "out (snd (leave L locked j io)) = out io"
  by (simp add: leave_def case_prod_beta)

subsection \<open>Handlers\<close>

lemma poll_emits_simps [simp]:
  "poll_emits A io (ready res) \<longleftrightarrow> emits A io res"
  "poll_emits A io (Ready r, io') \<longleftrightarrow> emits A io (r, io')"
  "poll_emits A io (Pending, io') \<longleftrightarrow> out io' = out io"
  by (simp_all add: poll_emits_def ready_def case_prod_beta)

lemma poll_emits_from: "out io1 = out io \<Longrightarrow> poll_emits A io1 res \<longleftrightarrow> poll_emits A io res"
  by (simp add: poll_emits_def emits_from [of io1 io] split: poll.split)

lemma out_upd [simp]:
  "out (set_await a io) = out io" "out (buf_clear io) = out io"
  "out (upd_sock (\<lambda>s. s\<lparr>sk_buf := buf, sk_reader := r, sk_await := a\<rparr>) io) = out io"
  by (simp_all add: out_def set_await_def buf_clear_def upd_sock_def)

lemma emits_leave: "emits A io (Inr x, snd (leave L locked j io))"
  by simp

lemma unauthenticated_event_emits:
  assumes "libs_ok L" "state_ok L cid (Unauthenticated u :: 'g connection_state)" "input_ok (Ready (Inr event)) io"
  shows "emits A io (unauthenticated_event L env u event io :: (_, 'g connection_state) result \<times> _)"
proof (cases "\<exists>n. event = IE_Data n \<and> n \<noteq> 0")
  case False
  then show ?thesis by (cases event) (auto simp: unauthenticated_event_def)
next
  case True
  then obtain n where ev: "event = IE_Data n" "n \<noteq> 0" by blast
  then have lb: "line_buf (sk_buf (io_sock io))" using assms(3) by (simp add: input_ok_def)
  note dc = decode_line_clean [OF libs_okD(1) [OF assms(1)] lb, of "lb_unicode L"]
  let ?d = "decode_client (lb_unicode L) (lb_sz L) (sk_buf (io_sock io))"
  show ?thesis
  proof (cases "\<exists>name. ?d = Inr (CM_Join name)")
    case False
    with ev dc(3) show ?thesis
      by (auto simp: unauthenticated_event_def split: sum.split client_message.split intro!: emits_bind emits_error)
  next
    case True
    then obtain name where d: "?d = Inr (CM_Join name)" by blast
    obtain r b' where j: "unauthenticated_join L (te_locked env) u name (io_broker io) = (r, b')" by force
    note jk = join_keeps(3) [OF assms(1,2) dc(1) [OF d] j]
    have "emits A (io\<lparr>io_broker := b'\<rparr>) (unauthenticated_event L env u event io :: (_, 'g connection_state) result \<times> _)"
      using jk ev d j
      by (auto simp: unauthenticated_event_def clean_server_def is_event_def split: sum.split
          intro!: emits_bind emits_error emits_send emits_forward)
    then show ?thesis by (simp add: emits_from [of "io\<lparr>io_broker := b'\<rparr>" io])
  qed
qed

lemma handle_joined_message_emits:
  assumes "libs_ok L" "line_buf (sk_buf (io_sock io))"
  shows "poll_emits A io (handle_joined_message L env j io)"
  using decode_line_clean(3) [OF libs_okD(1) [OF assms(1)] assms(2), of "lb_unicode L"]
  by (auto simp: handle_joined_message_def split: sum.split client_message.split poll.split
      intro!: emits_bind emits_error emits_forward)

lemma handle_joined_message_rest:
  assumes "handle_joined_message L env j io = (Ready (Inr (d, j')), io')"
  shows "jn_rx j' = jn_rx j" "d \<Longrightarrow> io' = io"
  using assms
  by (auto simp: handle_joined_message_def split: sum.splits client_message.splits poll.splits elim!: try_bind_InrD)

lemma joined_line_emits:
  assumes "libs_ok L" "jn_rx j = cid" "line_buf (sk_buf (io_sock io))" "covers L cid A io"
  shows "poll_emits A io (joined_line L env j io)"
proof -
  obtain p io1 where h: "handle_joined_message L env j io = (p, io1)" by force
  have e: "poll_emits A io (p, io1)" using handle_joined_message_emits [OF assms(1,3), of A env j] h by simp
  show ?thesis
  proof (cases p)
    case (Ready r)
    have "emits A io (try_bind (r, io1) (\<lambda>(d, j') io. if d then try_bind (drain_broadcasts L j' io)
        (\<lambda>_ io. (Inr Disconnected, snd (leave L (te_locked env) j' io))) else (Inr (Joined j'), io)))"
      using e Ready h handle_joined_message_rest [of L env j io _ _ io1] assms
      by (auto intro!: emits_bind emits_drain)
    with Ready h show ?thesis by (simp add: joined_line_def)
  qed (use e h in \<open>simp add: joined_line_def\<close>)
qed

lemma joined_event_emits:
  assumes "libs_ok L" "jn_rx j = cid" "input_ok (Ready (Inr event)) io" "covers L cid A io"
    and "\<And>m. event = IE_Broadcast m \<Longrightarrow> m \<in> A"
  shows "poll_emits A io (joined_event L env j event io)"
proof (cases event)
  case (IE_Data n)
  show ?thesis
  proof (cases "n = 0")
    case True
    have "emits A io1 (forward_or_report L m (snd (leave L (te_locked env) j io1)))" for m io1
      by (rule emits_then [OF emits_forward]) simp
    with True IE_Data emits_drain [OF assms(1,2,4)] show ?thesis by (auto simp: joined_event_def intro!: emits_bind)
  next
    case False
    with IE_Data joined_line_emits [OF assms(1,2) _ assms(4), of env] assms(3) show ?thesis
      by (simp add: joined_event_def input_ok_def)
  qed
qed (use assms in \<open>auto simp: joined_event_def covers_def intro!: emits_bind emits_write emits_drain\<close>)

lemma finish_too_long_emits: "emits A io (finish_too_long j io)"
  unfolding finish_too_long_def by (rule emits_then [OF emits_bind [OF emits_error]]) simp_all

lemma poll_discard_emits: "poll_emits A io (poll_discard j io)"
proof -
  obtain p buf' r' where d: "discard_line (sk_buf (io_sock io)) (sk_reader (io_sock io)) = (p, buf', r')"
    by (metis prod_cases3)
  let ?io' = "upd_sock (\<lambda>s. s\<lparr>sk_buf := buf', sk_reader := r', sk_await := Aw_Discard\<rparr>) io"
  have "emits A io (finish_too_long j ?io')"
    using finish_too_long_emits [of A ?io' j] by (simp add: emits_from [of ?io' io])
  with d show ?thesis by (simp add: poll_discard_def Let_def split: poll.split sum.split)
qed

lemma covers_frame: "frame L cid (io_broker io) (io_broker io') \<Longrightarrow> covers L cid A io \<Longrightarrow> covers L cid A io'"
  using set_mono_suffix [of "inbox L (io_broker io') cid" "inbox L (io_broker io) cid"]
  by (auto simp: covers_def frame_def outer_frame_def)

lemma wait_covers:
  assumes "good L io" "open_buf (Suc MAX_CLIENT_BUFFER_SIZE) (sk_buf (io_sock io))" "covers L cid A io"
    and "wait_for_input L env (Some cid) io = (p, io1)"
  shows "out io1 = out io" "covers L cid A io1" "p = Ready (Inr (IE_Broadcast m)) \<Longrightarrow> m \<in> A"
    "input_ok p io1"
  using wait_for_input_effect(1,5,6,7) [OF assms(1,2,4)] covers_frame [of L cid io io1 A] assms(3)
  by (auto simp: out_def covers_def)

lemma tick_unauthenticated_emits:
  fixes L :: "('q, 'c, 'g) libs"
  assumes "good L io" "state_ok L cid (Unauthenticated u :: 'g connection_state)" "covers L cid A io"
    and "open_buf (Suc MAX_CLIENT_BUFFER_SIZE) (sk_buf (io_sock io))"
  shows "poll_emits A io (tick_unauthenticated L env u io :: (_, 'g connection_state) result poll \<times> _)"
proof -
  have L: "libs_ok L" "ua_rx u = cid" using assms(1,2) by (simp_all add: good_def state_ok_def)
  obtain p io1 where w: "wait_for_input L env (Some cid) io = (p, io1)" by force
  note wc = wait_covers [OF assms(1,4,3) w]
  have "poll_emits A io1 (tick_unauthenticated L env u io :: (_, 'g connection_state) result poll \<times> _)"
    using w L(2) wc(4) unauthenticated_event_emits [OF L(1) assms(2), of _ io1 A env]
    by (auto simp: tick_unauthenticated_def split: poll.splits sum.splits)
  then show ?thesis by (simp add: poll_emits_from [OF wc(1)])
qed

lemma tick_joined_emits:
  assumes "good L io" "state_ok L cid (Joined j)" "covers L cid A io"
    and "sock_ok (Joined j) (io_sock io)" "sk_await (io_sock io) \<noteq> Aw_Top"
  shows "poll_emits A io (tick_joined L env j io)"
proof -
  have L: "libs_ok L" "jn_rx j = cid" using assms(1,2) by (simp_all add: good_def state_ok_def)
  show ?thesis
  proof (cases "sk_await (io_sock io)")
    case Aw_Limit
    with assms(4) joined_line_emits [OF L _ assms(3), of env] show ?thesis by (simp add: tick_joined_def sock_ok_def)
  next
    case Aw_Input
    then have ob: "open_buf (Suc MAX_CLIENT_BUFFER_SIZE) (sk_buf (io_sock io))" using assms(4) by (simp add: sock_ok_def)
    obtain p io1 where w: "wait_for_input L env (Some cid) io = (p, io1)" by force
    note wc = wait_covers [OF assms(1) ob assms(3) w]
    have d: "poll_emits A io1 (poll_discard j (buf_clear io1))"
      using poll_discard_emits [of A "buf_clear io1" j] by (simp add: poll_emits_from [of "buf_clear io1" io1])
    have "poll_emits A io1 (tick_joined L env j io)"
      using w L(2) Aw_Input d finish_too_long_emits [of A io1 j] wc(3,4) joined_event_emits [OF L _ wc(2), of _ env]
      by (auto simp: tick_joined_def split: poll.split sum.split connection_error.split)
    then show ?thesis by (simp add: poll_emits_from [OF wc(1)])
  qed (use assms(5) poll_discard_emits in \<open>simp_all add: tick_joined_def\<close>)
qed

lemma tick_emits:
  fixes L :: "('q, 'c, 'g) libs"
  assumes "good L io" "state_ok L cid st" "covers L cid A io" "sock_ok st (io_sock io)"
    and "sk_await (io_sock io) \<noteq> Aw_Top" "st \<noteq> Disconnected"
  shows "poll_emits A io (tick L env st io :: (_, 'g connection_state) result poll \<times> _)"
proof (cases st)
  case (Unauthenticated u)
  then have "open_buf (Suc MAX_CLIENT_BUFFER_SIZE) (sk_buf (io_sock io))"
    using assms(4,5) by (cases "sk_await (io_sock io)") (auto simp: sock_ok_def)
  with tick_unauthenticated_emits [OF assms(1) _ assms(3), of u env] assms(2) Unauthenticated show ?thesis
    by (simp add: tick_def)
next
  case (Joined j)
  with tick_joined_emits [OF assms(1) _ assms(3), of j env] assms(2,4,5) show ?thesis by (simp add: tick_def)
qed (use assms(6) in simp)

lemma begin_tick_emits:
  assumes "libs_ok L" "state_ok L cid st" "covers L cid A io"
  shows "emits A io (begin_tick L st io)"
  using emits_drain [OF assms(1) _ assms(3)] assms(2)
  by (cases st) (auto simp: begin_tick_def state_ok_def intro!: emits_bind)

text \<open>One poll of a connection.\<close>

lemma poll_connection_emits:
  assumes "libs_ok L" "traffic_ok L b" "conn_ok L cid cn" "cn_result cn = None"
    and "poll_connection L env cid cn b = (cn', b')"
  obtains ms rest where
    "wr_out (sk_writer (cn_sock cn')) = wr_out (sk_writer (cn_sock cn)) @ lines ms @ rest" "newline \<notin> set rest"
    "\<forall>m \<in> set ms. newline \<notin> set m \<and> (m \<in> set (inbox L b cid) \<or> answer m)"
proof -
  let ?st = "cn_state cn" and ?A = "set (inbox L b cid)" and ?io = "woken env cn b"
  have st: "state_ok L cid ?st" "?st \<noteq> Disconnected" using assms(3,4) by (simp_all add: conn_ok_def)
  have cov: "covers L cid ?A ?io"
    using assms(2) server_text_no_newline by (auto simp: covers_def traffic_ok_def list_all_iff)
  note be = begin_tick_emits [OF assms(1) st(1) cov]
  have "\<exists>e io2. emits ?A ?io (Inl e :: (_, unit) result, io2) \<and> sk_writer (cn_sock cn') = sk_writer (io_sock io2)"
    using assms
  proof (cases rule: poll_active_cases)
    case (failed e io1)
    with be show ?thesis by metis
  next
    case (ticked io1 p io2)
    then have b: "emits ?A ?io (Inr (), io1)" "covers L cid ?A io1"
      using be covers_frame [OF _ cov, of io1] by simp_all
    have "poll_emits ?A io1 (p, io2)"
      using tick_emits [OF ticked(2) st(1) b(2) ticked(4,5) st(2), of env] ticked(6) by simp
    then have "emits ?A io1 (Inl CE_Timeout :: (_, unit) result, io2)" by (cases p) (auto intro: emits_weaken)
    with emits_bind [OF b(1), of "\<lambda>_ _. (Inl CE_Timeout :: (_, unit) result, io2)"] ticked(8) show ?thesis by auto
  qed
  then show thesis using that by (auto simp: emits_def out_def)
qed

subsection \<open>Lines received\<close>

lemma received_whole:
  assumes "conn_ok L cid cn"
  obtains ms rest where "wr_out (sk_writer (cn_sock cn)) = lines ms @ rest"
    "complete_lines (wr_out (sk_writer (cn_sock cn))) = ms" "cn_result cn = None \<Longrightarrow> rest = []"
    "\<forall>m \<in> set ms. newline \<notin> set m" "newline \<notin> set rest"
proof (cases "cn_result cn")
  case None
  with assms obtain ms where "wr_out (sk_writer (cn_sock cn)) = lines ms" "list_all server_text ms"
    by (auto simp: conn_ok_def whole_lines_def)
  then show thesis using that [of ms "[]"] complete_lines_lines [of ms "[]"] server_text_no_newline
    by (auto simp: list_all_iff)
next
  case (Some r)
  then have "cut_lines (sk_writer (cn_sock cn))" using assms by (simp add: conn_ok_def)
  then obtain ms rest where "wr_out (sk_writer (cn_sock cn)) = lines ms @ rest" "\<forall>m \<in> set ms. newline \<notin> set m" "newline \<notin> set rest"
    by (rule cut_lines_split)
  then show thesis using that [of ms rest] complete_lines_lines [of ms rest] Some by simp
qed

lemma poll_received:
  assumes "libs_ok L" "traffic_ok L b" "conn_ok L cid cn" "poll_connection L env cid cn b = (cn', b')"
    and "m \<in> set (complete_lines (wr_out (sk_writer (cn_sock cn'))))"
  shows "m \<in> set (complete_lines (wr_out (sk_writer (cn_sock cn)))) \<or> m \<in> set (inbox L b cid) \<or> answer m"
proof (cases "cn_result cn")
  case (Some r)
  with assms(4,5) show ?thesis by (simp add: poll_connection_def)
next
  case None
  obtain ms0 where old: "wr_out (sk_writer (cn_sock cn)) = lines ms0"
    "complete_lines (wr_out (sk_writer (cn_sock cn))) = ms0" "\<forall>m \<in> set ms0. newline \<notin> set m"
    using received_whole [OF assms(3)] None by (metis append_Nil2)
  obtain ms rest where new: "wr_out (sk_writer (cn_sock cn')) = wr_out (sk_writer (cn_sock cn)) @ lines ms @ rest"
    "newline \<notin> set rest" "\<forall>m \<in> set ms. newline \<notin> set m \<and> (m \<in> set (inbox L b cid) \<or> answer m)"
    by (rule poll_connection_emits [OF assms(1-3) None assms(4)])
  have "complete_lines (wr_out (sk_writer (cn_sock cn'))) = ms0 @ ms"
    using complete_lines_lines [of "ms0 @ ms" rest] old new by auto
  with assms(5) old(2) new(3) show ?thesis by auto
qed

end
