(* ===== verification/Authenticity.thy ===== *)
theory Authenticity
  imports Emission
begin

text \<open>
  Where messages come from. By the interpretation of \<open>step_origin\<close> on the server, every message
  under way and every event that a client has received was posted at some poll of the run
  (\<open>circulating_origin\<close>). Hence all traffic is well-formed, and nobody receives a message under
  the name of a user who did not send it.
\<close>

text \<open>The lines that the client of a connection has received.\<close>

definition received :: "nat \<Rightarrow> ('q, 'c, 'g) server \<Rightarrow> byte list list" where
  "received cid sv = complete_lines (wr_out (sk_writer (cn_sock (sv_conns sv ! cid))))"

text \<open>The messages under way together with the events received.\<close>

definition circulating :: "('q, 'c, 'g) libs \<Rightarrow> ('q, 'c, 'g) server \<Rightarrow> byte list set" where
  "circulating L sv = traffic L (sv_broker sv)
     \<union> {m. \<exists>cid < length (sv_conns sv). m \<in> set (received cid sv) \<and> \<not> answer m}"

text \<open>A run in which a message reaches another client.\<close>

definition spoken :: "server_label list" where
  "spoken = two_join @ one_talks"

subsection \<open>The origin of messages\<close>

lemma step_received:
  assumes "server_step L sv l sv'" "libs_ok L" "server_ok L sv"
    and "cid < length (sv_conns sv')" "m \<in> set (received cid sv')" "\<not> answer m"
  shows "m \<in> circulating L sv"
  using assms(1)
proof cases
  case (accept_step ev)
  then have "sv_conns sv' = sv_conns sv \<or>
    (\<exists>cn. sv_conns sv' = sv_conns sv @ [cn] \<and> wr_out (sk_writer (cn_sock cn)) = [])"
    by (auto simp: accept_connections_def handle_connection_def unauthenticated_new_def
        split: acceptor.splits accept_event.splits option.splits if_splits)
  with assms(4-6) show ?thesis
    by (auto simp: circulating_def received_def nth_append complete_lines.simps [of "[]"] split: if_splits)
next
  case (poll_step c env)
  note ok = server_okD [OF assms(3)]
  obtain cn' b' where p: "poll_connection L env c (sv_conns sv ! c) (sv_broker sv) = (cn', b')" by force
  show ?thesis
  proof (cases "cid = c")
    case True
    have "sv_conns sv' ! c = cn'" using poll_step p by (simp add: poll_task_def)
    with poll_received [OF assms(2) ok(2) ok(5) [OF poll_step(4)] p] assms(5,6) True poll_step(4)
    show ?thesis by (auto simp: circulating_def received_def traffic_def)
  next
    case False
    then have "sv_conns sv' ! cid = sv_conns sv ! cid" "length (sv_conns sv') = length (sv_conns sv)"
      using poll_step p by (simp_all add: poll_task_def)
    with assms(4-6) show ?thesis by (auto simp: circulating_def received_def)
  qed
qed (use assms(4-6) in \<open>auto simp: circulating_def received_def dispatch_task_def ctrl_c_def stop_broker_def shutdown_def exit_main_def\<close>)

interpretation circulation: step_origin
  "\<lambda>(L, sv) l (L', sv'). L' = L \<and> server_step L sv l sv'"
  "\<lambda>(L, sv). libs_ok L \<and> (\<exists>uuid now. sv = server_start L uuid now)"
  "\<lambda>(L, sv). libs_ok L \<and> server_ok L sv"
  "\<lambda>(L, sv). circulating L sv"
  "\<lambda>(L, sv) l (L', sv'). posts L sv l sv'"
proof (unfold_locales, goal_cases)
  case (1 s l s' m)
  then obtain L sv sv' where s: "s = (L, sv)" "s' = (L, sv')" "server_step L sv l sv'" "libs_ok L" "server_ok L sv"
    "m \<in> circulating L sv'"
    by (cases s; cases s') auto
  then have "m \<in> traffic L (sv_broker sv')
      \<or> (\<exists>cid < length (sv_conns sv'). m \<in> set (received cid sv') \<and> \<not> answer m)"
    by (simp add: circulating_def)
  moreover have "traffic L (sv_broker sv) \<subseteq> circulating L sv" by (auto simp: circulating_def)
  ultimately have "m \<in> circulating L sv \<or> posts L sv l sv' m"
    using step_posts [OF s(3-5)] step_received [OF s(3-5)] by blast
  with s show ?case by simp
qed

lemma start_circulating: "libs_ok L \<Longrightarrow> circulating L (server_start L uuid now) = {}"
  by (simp add: circulating_def start_traffic) (simp add: server_start_def)

lemma pair_steps:
  assumes "steps (\<lambda>(L, sv) l (L', sv'). L' = L \<and> server_step L sv l sv') s ls s'"
  shows "fst s' = fst s \<and> steps (server_step (fst s)) (snd s) ls (snd s')"
  using assms by (induction rule: steps.induct) (auto intro: steps.intros)

lemma circulating_origin:
  assumes "libs_ok L" "steps (server_step L) (server_start L uuid now) ls sv" "m \<in> circulating L sv"
  obtains ls1 cid env ls2 sv1 sm where "ls = ls1 @ SL_Poll cid env # ls2"
    "steps (server_step L) (server_start L uuid now) ls1 sv1" "cid < length (sv_conns sv1)" "running (sv_conns sv1 ! cid)"
    "posted L (cn_state (sv_conns sv1 ! cid)) (sk_buf (cn_sock (sv_conns (poll_task L env cid sv1) ! cid)))
       (\<not> running (sv_conns (poll_task L env cid sv1) ! cid)) sm"
    "m = encode_server sm" "state_ok L cid (cn_state (sv_conns sv1 ! cid))"
proof -
  have "m \<in> (\<lambda>(L, sv). circulating L sv) (L, sv)" using assms(3) by simp
  from circulation.origin_steps [OF steps_pair [OF assms(2)] _ this] assms(1) start_circulating [OF assms(1), of uuid now]
    server_start_ok [OF assms(1), of uuid now]
  obtain ls1 l ls2 s1 s2 where o: "ls = ls1 @ l # ls2"
    "steps (\<lambda>(L, sv) l (L', sv'). L' = L \<and> server_step L sv l sv') (L, server_start L uuid now) ls1 s1"
    "case (s1, s2) of ((L, sv), (L', sv')) \<Rightarrow> L' = L \<and> server_step L sv l sv' \<and> posts L sv l sv' m"
    by (auto split: prod.splits)
  then obtain sv1 sv2 where sv: "steps (server_step L) (server_start L uuid now) ls1 sv1"
    "server_step L sv1 l sv2" "posts L sv1 l sv2 m"
    using pair_steps [OF o(2)] by (cases s1; cases s2) auto
  from sv(2,3) obtain cid env where l: "l = SL_Poll cid env" "sv2 = poll_task L env cid sv1"
    by cases (auto simp: posts_def)
  have "state_ok L cid (cn_state (sv_conns sv1 ! cid))"
    using reachable_conn(1) [OF assms(1) sv(1), of cid] sv(3) l by (simp add: posts_def running_def conn_ok_def)
  with that [of ls1 cid env ls2 sv1] o(1) sv(1,3) l show thesis by (auto simp: posts_def)
qed

text \<open>Property C7: every message under way in a reachable state, in the room, with the dispatcher or in
  the channel of a user, is a well-formed event: a join, a departure or a broadcast (never an \<open>OK\<close> or \<open>ERR\<close>),
  which every client decodes back to exactly this event, and not longer than the longest line
  of a client plus the frame that the server puts around it.\<close>

theorem traffic_typed:
  assumes "libs_ok L" "steps (server_step L) (server_start L uuid now) ls sv" "sz_ok sz"
    and "m \<in> traffic L (sv_broker sv)"
  shows "\<exists>sm. m = encode_server sm \<and> decode_server U sz m = Inr sm \<and> is_event sm
    \<and> length m \<le> MAX_CLIENT_BUFFER_SIZE + 256"
proof -
  have "m \<in> circulating L sv" using assms(4) by (simp add: circulating_def)
  from circulating_origin [OF assms(1,2) this] posted_typed(1,3) [OF assms(1)] posted_decodes [OF assms(1) _ _ assms(3), of _ _ _ _ _ U]
  show ?thesis by metis
qed

text \<open>Property C4: nobody can speak for somebody else. Whenever a message under way, or a line that some
  client has received, decodes to a broadcast of a text under a name, there was a poll in the run
  at which a running connection that had joined under this name read a \<open>SEND\<close> line with this text.\<close>

theorem broadcast_authentic:
  assumes "libs_ok L" "steps (server_step L) (server_start L uuid now) ls sv" "sz_ok sz"
    and "m \<in> traffic L (sv_broker sv) \<or> (\<exists>c < length (sv_conns sv). m \<in> set (received c sv))"
    and "length m \<le> usize_max" "decode_server U sz m = Inr (SM_Broadcast name t)"
  shows "\<exists>ls1 cid env ls2 sv1 j. ls = ls1 @ SL_Poll cid env # ls2
    \<and> steps (server_step L) (server_start L uuid now) ls1 sv1
    \<and> cid < length (sv_conns sv1) \<and> running (sv_conns sv1 ! cid) \<and> cn_state (sv_conns sv1 ! cid) = Joined j
    \<and> user_to_string (jn_user j) = name
    \<and> decode_client (lb_unicode L) (lb_sz L) (sk_buf (cn_sock (sv_conns (poll_task L env cid sv1) ! cid))) = Inr (CM_Send t)"
proof -
  have "\<not> answer m" using answer_decodes [OF _ assms(3,5,6)] by (auto simp: is_event_def)
  with assms(4) have c: "m \<in> circulating L sv" by (auto simp: circulating_def)
  obtain ls1 cid env ls2 sv1 sm where run: "ls = ls1 @ SL_Poll cid env # ls2"
    "steps (server_step L) (server_start L uuid now) ls1 sv1" "cid < length (sv_conns sv1)" "running (sv_conns sv1 ! cid)"
    and p: "posted L (cn_state (sv_conns sv1 ! cid)) (sk_buf (cn_sock (sv_conns (poll_task L env cid sv1) ! cid)))
       (\<not> running (sv_conns (poll_task L env cid sv1) ! cid)) sm" "m = encode_server sm"
    and st: "state_ok L cid (cn_state (sv_conns sv1 ! cid))"
    by (rule circulating_origin [OF assms(1,2) c])
  have "sm = SM_Broadcast name t" using posted_decodes [OF assms(1) st p(1) assms(3), of U] assms(6) p(2) by simp
  with p(1) obtain j where "cn_state (sv_conns sv1 ! cid) = Joined j" "user_to_string (jn_user j) = name"
    "decode_client (lb_unicode L) (lb_sz L) (sk_buf (cn_sock (sv_conns (poll_task L env cid sv1) ! cid))) = Inr (CM_Send t)"
    by (auto simp: posted_def)
  with run show ?thesis by blast
qed

abbreviation said :: "byte list" where
  "said \<equiv> encode_server (SM_Broadcast (lit ''a'') (lit ''hi''))"

lemma spoken_eval:
  "case server_run ref_libs spoken (server_start ref_libs [] []) of None \<Rightarrow> False
   | Some sv \<Rightarrow> 1 < length (sv_conns sv) \<and> said \<in> set (received 1 sv)"
  by code_simp

lemma spoken_run:
  "steps (server_step ref_libs) (server_start ref_libs [] []) spoken (run_of spoken)"
  "1 < length (sv_conns (run_of spoken))" "said \<in> set (received 1 (run_of spoken))"
  using spoken_eval run_of_steps [of spoken] by (auto simp: run_of_def split: option.splits)

lemma greeted_traffic:
  "case server_run ref_libs greeted (server_start ref_libs [] []) of None \<Rightarrow> False
   | Some sv \<Rightarrow> encode_server (SM_UserJoined (lit ''Bob'')) \<in> set (inbox ref_libs (sv_broker sv) 1)"
  by code_simp

lemma traffic_typed_witness:
  "\<exists>sm. encode_server (SM_UserJoined (lit ''Bob'')) = encode_server sm \<and> is_event sm
     \<and> decode_server ascii_unicode ref_sz (encode_server (SM_UserJoined (lit ''Bob''))) = Inr sm"
proof -
  have "steps (server_step ref_libs) (server_start ref_libs [] []) greeted (run_of greeted)"
    "encode_server (SM_UserJoined (lit ''Bob'')) \<in> traffic ref_libs (sv_broker (run_of greeted))"
    using greeted_traffic run_of_steps [of greeted] by (auto simp: run_of_def traffic_def split: option.splits)
  from traffic_typed [OF ref_libs_ok this(1) ref_sz_ok this(2), of ascii_unicode] show ?thesis by blast
qed

lemma broadcast_authentic_witness:
  "\<exists>ls1 cid env ls2 sv1 j. spoken = ls1 @ SL_Poll cid env # ls2
     \<and> steps (server_step ref_libs) (server_start ref_libs [] []) ls1 sv1
     \<and> cn_state (sv_conns sv1 ! cid) = Joined j \<and> user_to_string (jn_user j) = lit ''a''"
proof -
  have "decode_server ascii_unicode ref_sz said = Inr (SM_Broadcast (lit ''a'') (lit ''hi''))" "length said \<le> 100"
    by code_simp+
  then have d: "decode_server ascii_unicode ref_sz said = Inr (SM_Broadcast (lit ''a'') (lit ''hi''))"
    "length said \<le> usize_max"
    by (simp_all add: usize_max_def)
  from spoken_run(2,3) have "said \<in> traffic ref_libs (sv_broker (run_of spoken))
      \<or> (\<exists>c < length (sv_conns (run_of spoken)). said \<in> set (received c (run_of spoken)))" by blast
  from broadcast_authentic [OF ref_libs_ok spoken_run(1) ref_sz_ok this d(2,1)] show ?thesis by blast
qed

end
