(* ===== verification/Server_Process.thy ===== *)
theory Server_Process
  imports Connection_Behaviour Chat_Config
begin

text \<open>
  The server from start to exit: \<open>main\<close> of \<open>src/server/src/main.rs\<close> with the set-up of logging, the
  address and the listener, and its end by an interrupt.

  Shown: when the server starts and with which errors it does not; that the shutdown can end
  every connection in order, and that the wait for the dispatcher is bounded; and that nothing enforces it, since \<open>main\<close> returns without waiting for
  the tasks of the connections.
\<close>

datatype main_error = Main_Logging rstr | Main_Bind io_error

definition main_error_to_string :: "main_error \<Rightarrow> rstr" where
  "main_error_to_string e =
     (case e of Main_Logging s \<Rightarrow> lit ''Failed to initialize logging: '' @ s | Main_Bind s \<Rightarrow> s)"

text \<open>\<open>main\<close> up to the \<open>select!\<close>: logging, the address, the listener, the broker and its dispatcher. Its
  result is the guard of the logger, which is kept until the end, and the running server. \<open>bind\<close> is
  \<open>TcpListener::bind\<close>.\<close>

definition server_main ::
    "('q, 'c, 'g) libs \<Rightarrow> ('f, 'w, 'd, 's) tracing \<Rightarrow> (rstr \<Rightarrow> (io_error, unit) result) \<Rightarrow> env_var
     \<Rightarrow> rstr \<Rightarrow> rstr \<Rightarrow> 's \<Rightarrow> (main_error, 'd \<times> ('q, 'c, 'g) server) result \<times> 's" where
  "server_main L tr bind var uuid now st =
     (case init_logging (lb_unicode L) tr var st of
        (Inl e, st') \<Rightarrow> (Inl (Main_Logging (init_error_to_string e)), st')
      | (Inr guard, st') \<Rightarrow>
          (case bind (server_addr var) of
             Inl e \<Rightarrow> (Inl (Main_Bind e), st')
           | Inr _ \<Rightarrow> (Inr (guard, server_start L uuid now), st')))"

text \<open>A poll that sees the shutdown signal, with the lock of the registry free.\<close>

definition shutdown_seen :: "tick_env \<Rightarrow> bool" where
  "shutdown_seen env \<longleftrightarrow> te_shutdown env = Some True \<and> te_locked env"

text \<open>A connection that can react to it: its socket works, and it waits at the top of its loop or for
  input, not in the rate limiter or in the middle of an overlong line.\<close>

definition responsive :: "'g connection \<Rightarrow> bool" where
  "responsive cn \<longleftrightarrow> running cn \<longrightarrow>
     wr_budget (sk_writer (cn_sock cn)) = None \<and> sk_await (cn_sock cn) \<in> {Aw_Top, Aw_Input}"

text \<open>How the shutdown leaves a connection that was running: ended without error, no longer registered,
  with everything in its channel written.\<close>

definition closed ::
    "('q, 'c, 'g) libs \<Rightarrow> ('q, 'c, 'g) server \<Rightarrow> ('q, 'c, 'g) server \<Rightarrow> nat \<Rightarrow> bool" where
  "closed L sv sv' cid \<longleftrightarrow>
     (if running (sv_conns sv ! cid)
      then cn_result (sv_conns sv' ! cid) = Some (Inr ()) \<and> cid \<notin> registered (sv_broker sv')
        \<and> wr_out (sk_writer (cn_sock (sv_conns sv' ! cid)))
            = wr_out (sk_writer (cn_sock (sv_conns sv ! cid))) @ lines (inbox L (sv_broker sv) cid)
      else sv_conns sv' ! cid = sv_conns sv ! cid)"

subsection \<open>Closing the connections\<close>

lemma poll_others:
  assumes "libs_ok L" "server_ok L sv" "cid < length (sv_conns sv)" "i \<noteq> cid"
  shows "sv_conns (poll_task L env cid sv) ! i = sv_conns sv ! i"
    "inbox L (sv_broker (poll_task L env cid sv)) i = inbox L (sv_broker sv) i"
    "i \<notin> registered (sv_broker sv) \<Longrightarrow> i \<notin> registered (sv_broker (poll_task L env cid sv))"
proof -
  note ok = server_okD [OF assms(2)]
  obtain cn' b' where p: "poll_connection L env cid (sv_conns sv ! cid) (sv_broker sv) = (cn', b')" by force
  note cn = ok(5,6) [OF assms(3)]
  have "outer_frame L cid (sv_broker sv) b'" using poll_connection_keeps [OF assms(1) ok(2) cn(1) p] by simp
  with poll_broker_ok(2) [OF assms(1) ok(1,2) cn p] p assms(4)
  show "sv_conns (poll_task L env cid sv) ! i = sv_conns sv ! i"
    "inbox L (sv_broker (poll_task L env cid sv)) i = inbox L (sv_broker sv) i"
    "i \<notin> registered (sv_broker sv) \<Longrightarrow> i \<notin> registered (sv_broker (poll_task L env cid sv))"
    by (auto simp: poll_task_def outer_frame_def inbox_def)
qed

lemma poll_ended:
  assumes "\<not> running (sv_conns sv ! cid)"
  shows "poll_task L env cid sv = sv"
  using assms by (auto simp: poll_task_def poll_connection_def running_def)

lemma close_one:
  assumes "libs_ok L" "server_ok L sv" "cid < length (sv_conns sv)" "responsive (sv_conns sv ! cid)" "shutdown_seen env"
  shows "closed L sv (poll_task L env cid sv) cid"
  using shutdown_poll_ends [OF assms(1-3)] assms(4,5) poll_ended [of sv cid L env]
  by (auto simp: closed_def responsive_def shutdown_seen_def Let_def)

lemma close_all:
  assumes "libs_ok L" "server_ok L sv" "sv_phase sv = Stopping" "sv_shutdown sv" "distinct cids"
    and "\<And>cid. cid \<in> set cids \<Longrightarrow> cid < length (sv_conns sv) \<and> responsive (sv_conns sv ! cid) \<and> shutdown_seen (env cid)"
  shows "\<exists>sv'. server_run L (map (\<lambda>cid. SL_Poll cid (env cid)) cids) sv = Some sv'
    \<and> server_ok L sv' \<and> sv_phase sv' = Stopping \<and> length (sv_conns sv') = length (sv_conns sv)
    \<and> sv_acceptor sv' = sv_acceptor sv \<and> (\<forall>cid \<in> set cids. closed L sv sv' cid)
    \<and> (\<forall>i. i \<notin> set cids \<longrightarrow> sv_conns sv' ! i = sv_conns sv ! i
         \<and> (i \<notin> registered (sv_broker sv) \<longrightarrow> i \<notin> registered (sv_broker sv')))"
  using assms(2-)
proof (induction cids arbitrary: sv)
  case (Cons cid cids)
  let ?sv1 = "poll_task L (env cid) cid sv"
  have c: "cid < length (sv_conns sv)" "responsive (sv_conns sv ! cid)" "shutdown_seen (env cid)" using Cons.prems(5) by auto
  have one: "server_exec L (SL_Poll cid (env cid)) sv = Some ?sv1"
    using c Cons.prems(2,3) by (simp add: server_exec_def shutdown_seen_def)
  have ok1: "server_ok L ?sv1" using poll_task_ok [OF assms(1) Cons.prems(1) c(1)] .
  have f1: "sv_phase ?sv1 = Stopping" "sv_shutdown ?sv1" "length (sv_conns ?sv1) = length (sv_conns sv)"
    "sv_acceptor ?sv1 = sv_acceptor sv"
    using Cons.prems(2,3) by (simp_all add: poll_task_def split: prod.split)
  note o = poll_others [OF assms(1) Cons.prems(1) c(1), of _ "env cid"]
  have ne: "i \<noteq> cid" if "i \<in> set cids" for i using Cons.prems(4) that by auto
  have "i < length (sv_conns ?sv1) \<and> responsive (sv_conns ?sv1 ! i) \<and> shutdown_seen (env i)" if "i \<in> set cids" for i
    using Cons.prems(5) [of i] that o(1) [OF ne [OF that]] f1(3) by simp
  from Cons.IH [OF ok1 f1(1,2) _ this] Cons.prems(4)
  obtain sv' where sv': "server_run L (map (\<lambda>cid. SL_Poll cid (env cid)) cids) ?sv1 = Some sv'"
    "server_ok L sv'" "sv_phase sv' = Stopping" "length (sv_conns sv') = length (sv_conns ?sv1)" "sv_acceptor sv' = sv_acceptor ?sv1"
    "\<forall>cid \<in> set cids. closed L ?sv1 sv' cid"
    "\<forall>i. i \<notin> set cids \<longrightarrow> sv_conns sv' ! i = sv_conns ?sv1 ! i
         \<and> (i \<notin> registered (sv_broker ?sv1) \<longrightarrow> i \<notin> registered (sv_broker sv'))"
    by auto
  have "closed L sv sv' i" if "i \<in> set cids" for i
    using sv'(6) that o(1,2) [OF ne [OF that]] by (auto simp: closed_def)
  moreover have "closed L sv sv' cid"
    using close_one [OF assms(1) Cons.prems(1) c] sv'(7) Cons.prems(4) by (auto simp: closed_def)
  ultimately show ?case using one sv' f1 o(1,3) by auto
qed simp

subsection \<open>From start to exit\<close>

lemma dispatch_run:
  assumes "sv_phase sv \<noteq> Exited" "list_all de_join_ok es"
  shows "steps (server_step L) sv (map SL_Dispatch es) (sv\<lparr>sv_broker := dispatcher_loop L es (sv_broker sv)\<rparr>)"
  using assms
proof (induction es arbitrary: sv)
  case Nil
  show ?case by simp
next
  case (Cons e es)
  have "server_step L sv (SL_Dispatch e) (dispatch_task L e sv)" using Cons.prems by (intro server_step.dispatch_step) simp_all
  moreover from Cons.IH [of "dispatch_task L e sv"] Cons.prems
  have "steps (server_step L) (dispatch_task L e sv) (map SL_Dispatch es) (sv\<lparr>sv_broker := dispatcher_loop L (e # es) (sv_broker sv)\<rparr>)"
    by (simp add: dispatch_task_def)
  ultimately show ?case by (auto simp: steps_Cons_iff)
qed

text \<open>The shutdown of the broker, with the wait for the dispatcher, and the return of \<open>main\<close>.\<close>

lemma stop_and_exit:
  assumes "libs_ok L" "server_ok L sv" "sv_phase sv = Stopping" "list_all timed_env es"
    and "stop_work (sv_broker (stop_broker sv)) \<le> length es"
  shows "\<exists>sv'. steps (server_step L) sv (SL_Stop # map SL_Dispatch es @ [SL_Exit]) sv' \<and> sv_phase sv' = Exited
    \<and> sv_conns sv' = sv_conns sv \<and> sv_acceptor sv' = sv_acceptor sv \<and> registered (sv_broker sv') = registered (sv_broker sv)"
proof -
  let ?sv1 = "stop_broker sv"
  let ?b1 = "sv_broker ?sv1"
  let ?sv2 = "?sv1\<lparr>sv_broker := dispatcher_loop L es ?b1\<rparr>"
  have sv1: "sv_phase ?sv1 = Awaiting (bk_dispatcher_handle (sv_broker sv))" "sv_conns ?sv1 = sv_conns sv"
    "sv_acceptor ?sv1 = sv_acceptor sv" "bk_shutdown_flag ?b1" "registered ?b1 = registered (sv_broker sv)"
    by (simp_all add: stop_broker_def shutdown_def registered_def)
  note ok1 = server_okD [OF stop_broker_ok [OF assms(2)]]
  have j: "list_all de_join_ok es" using assms(4) by (auto simp: list_all_iff timed_env_def)
  have st: "bk_task ?b1 \<noteq> Dp_NotStarted" using ok1(8) by (simp add: sending_ok_def)
  from loop_stops [OF assms(1) ok1(1) assms(4) sv1(4) st assms(5)]
  have "shutdown_returns (bk_dispatcher_handle (sv_broker sv)) (sv_broker ?sv2)" by (simp add: shutdown_returns_def)
  then have "server_step L ?sv2 SL_Exit (exit_main ?sv2)" using sv1(1) by (intro server_step.exit_step) simp_all
  moreover have "server_step L sv SL_Stop ?sv1" using assms(3) by (rule server_step.stop_step)
  moreover have "steps (server_step L) ?sv1 (map SL_Dispatch es) ?sv2" using sv1(1) j by (intro dispatch_run) simp_all
  ultimately have "steps (server_step L) sv (SL_Stop # map SL_Dispatch es @ [SL_Exit]) (exit_main ?sv2)"
    by (auto simp: steps_Cons_iff steps_append)
  moreover have "registered (dispatcher_loop L es ?b1) = registered (sv_broker sv)"
    using loop_keeps [OF assms(1) ok1(1) j] sv1(5) by blast
  ultimately show ?thesis using sv1(2,3) by (intro exI [of _ "exit_main ?sv2"]) (simp add: exit_main_def)
qed

text \<open>Property C14: an interrupt can always end the server in order: from every state in which it
  serves and its connections are responsive, the interrupt, one poll of each connection, the
  shutdown of the broker and all sufficiently long sequences of polls of the dispatcher, whatever the
  channels do, lead to the exit, with every connection ended without error and unregistered, its
  pending broadcasts written, and all permits back.\<close>

theorem graceful_shutdown:
  assumes "libs_ok L" "steps (server_step L) (server_start L uuid now) ls sv" "sv_phase sv = Serving"
    and "n = length (sv_conns sv)" "\<And>cid. cid < n \<Longrightarrow> responsive (sv_conns sv ! cid)" "\<And>cid. shutdown_seen (env cid)"
  shows "\<exists>k. \<forall>es. list_all timed_env es \<longrightarrow> k \<le> length es \<longrightarrow>
    (\<exists>sv'. steps (server_step L) sv (SL_CtrlC # map (\<lambda>cid. SL_Poll cid (env cid)) [0..<n]
              @ SL_Stop # map SL_Dispatch es @ [SL_Exit]) sv'
      \<and> sv_phase sv' = Exited \<and> sem_permits (sv_semaphore sv') = MAX_CONNECTIONS
      \<and> (\<forall>cid < n. running (sv_conns sv ! cid) \<longrightarrow>
          cn_result (sv_conns sv' ! cid) = Some (Inr ()) \<and> cid \<notin> registered (sv_broker sv')
          \<and> wr_out (sk_writer (cn_sock (sv_conns sv' ! cid)))
              = wr_out (sk_writer (cn_sock (sv_conns sv ! cid))) @ lines (inbox L (sv_broker sv) cid)))"
proof -
  let ?sv1 = "ctrl_c sv" and ?polls = "map (\<lambda>cid. SL_Poll cid (env cid)) [0..<n]"
  have ok: "server_ok L sv" using reachable_ok [OF assms(1,2)] .
  have f1: "sv_phase ?sv1 = Stopping" "sv_shutdown ?sv1" "sv_conns ?sv1 = sv_conns sv" "sv_broker ?sv1 = sv_broker sv"
    "sv_acceptor ?sv1 = Acc_Returned"
    by (simp_all add: ctrl_c_def)
  have "cid < length (sv_conns ?sv1) \<and> responsive (sv_conns ?sv1 ! cid) \<and> shutdown_seen (env cid)" if "cid \<in> set [0..<n]" for cid
    using that assms(4-6) f1(3) by simp
  from close_all [where cids = "[0..<n]", OF assms(1) ctrl_c_ok [OF ok] f1(1,2) distinct_upt this]
  obtain sv2 where sv2: "steps (server_step L) ?sv1 ?polls sv2" "server_ok L sv2"
    "sv_phase sv2 = Stopping" "length (sv_conns sv2) = n" "sv_acceptor sv2 = Acc_Returned"
    and cl: "\<And>cid. cid < n \<Longrightarrow> closed L ?sv1 sv2 cid"
    using f1(3,5) assms(4) by (auto simp: server_run_steps)
  have none: "\<not> running (sv_conns sv2 ! cid)" if "cid < n" for cid
    using cl [OF that] f1(3) by (auto simp: closed_def running_def split: if_splits)
  then have idle: "filter running (sv_conns sv2) = []" using sv2(4) by (auto simp: filter_empty_conv in_set_conv_nth)
  show ?thesis
  proof (rule exI [of _ "stop_work (sv_broker (stop_broker sv2))"], intro allI impI)
    fix es assume es: "list_all timed_env es" "stop_work (sv_broker (stop_broker sv2)) \<le> length es"
    from stop_and_exit [OF assms(1) sv2(2,3) es] obtain sv3 where
      sv3: "steps (server_step L) sv2 (SL_Stop # map SL_Dispatch es @ [SL_Exit]) sv3" "sv_phase sv3 = Exited"
        "sv_conns sv3 = sv_conns sv2" "sv_acceptor sv3 = sv_acceptor sv2" "registered (sv_broker sv3) = registered (sv_broker sv2)"
      by blast
    have c: "server_step L sv SL_CtrlC ?sv1" using assms(3) by (rule server_step.ctrl_c_step)
    have "steps (server_step L) ?sv1 (?polls @ SL_Stop # map SL_Dispatch es @ [SL_Exit]) sv3"
      unfolding steps_append using sv2(1) sv3(1) by blast
    with c have run: "steps (server_step L) sv (SL_CtrlC # ?polls @ SL_Stop # map SL_Dispatch es @ [SL_Exit]) sv3"
      by (rule steps.steps_Cons)
    have "steps (server_step L) (server_start L uuid now) (ls @ SL_CtrlC # ?polls @ SL_Stop # map SL_Dispatch es @ [SL_Exit]) sv3"
      unfolding steps_append using assms(2) run by blast
    from server_okD(4) [OF reachable_ok [OF assms(1) this]]
    have "sem_permits (sv_semaphore sv3) = MAX_CONNECTIONS"
      using idle sv3(3,4) sv2(5) by (simp add: permits_ok_def holds_permit_def)
    with run sv3 cl f1(3,4) show "\<exists>sv'. steps (server_step L) sv (SL_CtrlC # ?polls @ SL_Stop # map SL_Dispatch es @ [SL_Exit]) sv'
      \<and> sv_phase sv' = Exited \<and> sem_permits (sv_semaphore sv') = MAX_CONNECTIONS
      \<and> (\<forall>cid < n. running (sv_conns sv ! cid) \<longrightarrow>
          cn_result (sv_conns sv' ! cid) = Some (Inr ()) \<and> cid \<notin> registered (sv_broker sv')
          \<and> wr_out (sk_writer (cn_sock (sv_conns sv' ! cid)))
              = wr_out (sk_writer (cn_sock (sv_conns sv ! cid))) @ lines (inbox L (sv_broker sv) cid))"
      by (intro exI [of _ sv3]) (auto simp: closed_def)
  qed
qed


text \<open>Property C31: nothing makes \<open>main\<close> wait for the connections: there is a run that ends with the exit
  of the server while a joined user, whose socket works, still has broadcasts in its channel,
  and after which no connection is polled any more, so that they are lost.\<close>

theorem exit_abandons_connections:
  "\<exists>ls sv. steps (server_step ref_libs) (server_start ref_libs [] []) ls sv \<and> sv_phase sv = Exited
     \<and> running (sv_conns sv ! 0) \<and> phase_of (sv_conns sv ! 0) = Ph_Joined
     \<and> wr_budget (sk_writer (cn_sock (sv_conns sv ! 0))) = None \<and> inbox ref_libs (sv_broker sv) 0 \<noteq> []
     \<and> (\<forall>cid env sv'. \<not> server_step ref_libs sv (SL_Poll cid env) sv')"
proof -
  let ?ls = "greeted @ [SL_CtrlC, SL_Stop, SL_Dispatch smooth, SL_Exit]"
  have e: "case server_run ref_libs ?ls (server_start ref_libs [] []) of None \<Rightarrow> False
     | Some sv \<Rightarrow> sv_phase sv = Exited \<and> running (sv_conns sv ! 0) \<and> phase_of (sv_conns sv ! 0) = Ph_Joined
        \<and> wr_budget (sk_writer (cn_sock (sv_conns sv ! 0))) = None \<and> inbox ref_libs (sv_broker sv) 0 \<noteq> []"
    by code_simp
  then obtain sv where sv: "server_run ref_libs ?ls (server_start ref_libs [] []) = Some sv" "sv_phase sv = Exited"
    "running (sv_conns sv ! 0)" "phase_of (sv_conns sv ! 0) = Ph_Joined"
    "wr_budget (sk_writer (cn_sock (sv_conns sv ! 0))) = None" "inbox ref_libs (sv_broker sv) 0 \<noteq> []"
    by (auto split: option.splits)
  have "\<not> server_step ref_libs sv (SL_Poll cid env) sv'" for cid env sv' using sv(2) by (auto elim: server_stepE)
  with sv show ?thesis unfolding server_run_steps by blast
qed


lemma graceful_shutdown_witness:
  "\<exists>ls sv'. steps (server_step ref_libs) (run_of greeted)
      (SL_CtrlC # map (\<lambda>cid. SL_Poll cid (quiet\<lparr>te_shutdown := Some True\<rparr>)) [0..<2] @ SL_Stop # ls) sv'
     \<and> sv_phase sv' = Exited \<and> cn_result (sv_conns sv' ! 0) = Some (Inr ())"
proof -
  let ?env = "quiet\<lparr>te_shutdown := Some True\<rparr>"
  have g: "case server_run ref_libs greeted (server_start ref_libs [] []) of None \<Rightarrow> False
     | Some sv \<Rightarrow> sv_phase sv = Serving \<and> length (sv_conns sv) = 2 \<and> running (sv_conns sv ! 0)
        \<and> responsive (sv_conns sv ! 0) \<and> responsive (sv_conns sv ! 1)"
    by code_simp
  then have g': "sv_phase (run_of greeted) = Serving" "2 = length (sv_conns (run_of greeted))" "running (sv_conns (run_of greeted) ! 0)"
    "cid < 2 \<Longrightarrow> responsive (sv_conns (run_of greeted) ! cid)" for cid
    by (auto simp: run_of_def less_2_cases_iff split: option.splits)
  have "shutdown_seen ?env" by (simp add: shutdown_seen_def quiet_def)
  from graceful_shutdown [OF ref_libs_ok run_of_steps [OF greeted_facts(1)] g'(1,2,4) this]
  obtain k where k: "list_all timed_env es \<Longrightarrow> k \<le> length es \<Longrightarrow>
    \<exists>sv'. steps (server_step ref_libs) (run_of greeted) (SL_CtrlC # map (\<lambda>cid. SL_Poll cid ?env) [0..<2]
            @ SL_Stop # map SL_Dispatch es @ [SL_Exit]) sv'
      \<and> sv_phase sv' = Exited \<and> cn_result (sv_conns sv' ! 0) = Some (Inr ())" for es
    using g'(3) by fastforce
  have "list_all timed_env (replicate k smooth)" by (simp add: list_all_iff)
  from k [OF this] show ?thesis by auto
qed

end
