(* ===== verification/Chat_Spec.thy ===== *)
theory Chat_Spec
  imports Server_Main
begin

text \<open>
  What the server promises, as a small transition system, and the proof that the server
  implements it. The state of the specification is who is a member under which folded name, the
  messages waiting in the room, the message that is being broadcast with the members it still has
  to reach, and the messages delivered to each user and not yet sent on. Its actions are entering,
  leaving, posting, beginning the broadcast of the oldest message to the members of that moment (or to
  none, when the registry lock was not obtained), delivering it to one of them or missing one
  (because the channel is full or closed), ending the broadcast, and taking a delivered message off
  (to send it on, or to drop it when the connection ends).
  \<open>abs_chat\<close> reads this state off the broker.

  Every step of the server is a sequence of such actions, out of those that the task may perform
  (\<open>acts_for\<close>): the interpretation \<open>chat\<close> of \<open>step_refinement\<close>.
\<close>

record chat =
  ch_members :: "normalized_key \<rightharpoonup> chan_id"
  ch_room :: "byte list list"
  ch_capacity :: nat
  ch_current :: "(byte list \<times> chan_id set) option"
  ch_inbox :: "chan_id \<Rightarrow> byte list list"

datatype chat_action =
    Enter normalized_key chan_id
  | Exit normalized_key chan_id
  | Post chan_id "byte list"
  | Begin "byte list" "chan_id set"
  | Deliver chan_id "byte list"
  | Miss chan_id "byte list"
  | Finish
  | Take chan_id "byte list"

inductive chat_step :: "chat \<Rightarrow> chat_action \<Rightarrow> chat \<Rightarrow> bool" where
  enter: "ch_members C k = None \<Longrightarrow> cid \<notin> ran (ch_members C) \<Longrightarrow>
    chat_step C (Enter k cid) (C\<lparr>ch_members := (ch_members C)(k \<mapsto> cid)\<rparr>)"
| exit: "ch_members C k = Some cid \<Longrightarrow>
    chat_step C (Exit k cid) (C\<lparr>ch_members := (ch_members C)(k := None)\<rparr>)"
| post: "server_text m \<Longrightarrow> length (ch_room C) < ch_capacity C \<Longrightarrow>
    chat_step C (Post cid m) (C\<lparr>ch_room := ch_room C @ [m]\<rparr>)"
| begin_message: "ch_room C = m # ms \<Longrightarrow> ch_current C = None \<Longrightarrow> A = ran (ch_members C) \<or> A = {} \<Longrightarrow>
    chat_step C (Begin m A) (C\<lparr>ch_room := ms, ch_current := Some (m, A)\<rparr>)"
| deliver: "ch_current C = Some (m, A) \<Longrightarrow> cid \<in> A \<Longrightarrow>
    chat_step C (Deliver cid m)
      (C\<lparr>ch_current := Some (m, A - {cid}), ch_inbox := (ch_inbox C)(cid := ch_inbox C cid @ [m])\<rparr>)"
| miss: "ch_current C = Some (m, A) \<Longrightarrow> cid \<in> A \<Longrightarrow>
    chat_step C (Miss cid m) (C\<lparr>ch_current := Some (m, A - {cid})\<rparr>)"
| finish: "ch_current C = Some (m, {}) \<Longrightarrow> chat_step C Finish (C\<lparr>ch_current := None\<rparr>)"
| take_message: "ch_inbox C cid = m # ms \<Longrightarrow>
    chat_step C (Take cid m) (C\<lparr>ch_inbox := (ch_inbox C)(cid := ms)\<rparr>)"

inductive_cases chat_stepE: "chat_step C a C'"

definition abs_chat :: "('q, 'c, 'g) libs \<Rightarrow> ('q, 'c) broker \<Rightarrow> chat" where
  "abs_chat L b =
     \<lparr> ch_members = (\<lambda>k. map_option u_tx (map_of (bk_registry b) k)),
       ch_room = queued L b,
       ch_capacity = room_capacity (lb_cb L) (bk_room b),
       ch_current = current b,
       ch_inbox = inbox L b \<rparr>"

text \<open>Which actions a step of the server may stand for: a connection acts for itself only, the
  dispatcher delivers, and accepting a connection changes nothing.\<close>

definition acts_for :: "server_label \<Rightarrow> chat_action \<Rightarrow> bool" where
  "acts_for l a \<longleftrightarrow>
     (case l of
        SL_Poll cid _ \<Rightarrow>
          (case a of
             Enter _ c \<Rightarrow> c = cid
           | Exit _ c \<Rightarrow> c = cid
           | Post c _ \<Rightarrow> c = cid
           | Take c _ \<Rightarrow> c = cid
           | _ \<Rightarrow> False)
      | SL_Dispatch _ \<Rightarrow>
          (case a of Begin _ _ \<Rightarrow> True | Deliver _ _ \<Rightarrow> True | Miss _ _ \<Rightarrow> True | Finish \<Rightarrow> True | _ \<Rightarrow> False)
      | _ \<Rightarrow> False)"

definition does :: "server_label \<Rightarrow> chat \<Rightarrow> chat \<Rightarrow> bool" where
  "does l C C' \<longleftrightarrow> (\<exists>as. steps chat_step C as C' \<and> list_all (acts_for l) as)"

definition unused_empty :: "('q, 'c, 'g) libs \<Rightarrow> ('q, 'c, 'g) server \<Rightarrow> bool" where
  "unused_empty L sv \<longleftrightarrow> (\<forall>cid \<ge> length (sv_conns sv). inbox L (sv_broker sv) cid = [])"

text \<open>What is being broadcast and has not reached a user yet.\<close>

definition on_way :: "chat \<Rightarrow> chan_id \<Rightarrow> byte list list" where
  "on_way C cid = (case ch_current C of Some (m, A) \<Rightarrow> if cid \<in> A then [m] else [] | None \<Rightarrow> [])"

text \<open>The messages posted in a run of the specification, and those that one user has taken.\<close>

fun posted :: "chat_action list \<Rightarrow> byte list list" where
  "posted [] = []"
| "posted (Post _ m # as) = m # posted as"
| "posted (_ # as) = posted as"

fun taken :: "chan_id \<Rightarrow> chat_action list \<Rightarrow> byte list list" where
  "taken cid [] = []"
| "taken cid (Take c m # as) = (if c = cid then m # taken cid as else taken cid as)"
| "taken cid (_ # as) = taken cid as"

subsection \<open>Sequences of actions\<close>

lemma does_refl: "C' = C \<Longrightarrow> does l C C'"
  unfolding does_def by (intro exI [of _ "[]"]) simp

lemma does_step: "chat_step C a C' \<Longrightarrow> acts_for l a \<Longrightarrow> does l C C'"
  unfolding does_def by (intro exI [of _ "[a]"]) (simp add: steps_Cons_iff)

lemma does_trans: "does l C C1 \<Longrightarrow> does l C1 C2 \<Longrightarrow> does l C C2"
  unfolding does_def by (metis list_all_append steps_append)

lemma takes:
  assumes "suffix ys (ch_inbox C cid)"
  shows "does (SL_Poll cid env) C (C\<lparr>ch_inbox := (ch_inbox C)(cid := ys)\<rparr>)"
proof -
  obtain xs where "ch_inbox C cid = xs @ ys" using assms by (auto simp: suffix_def)
  then show ?thesis
  proof (induction xs arbitrary: C)
    case Nil
    then show ?case by (intro does_refl) (metis append_Nil chat.surjective chat.update_convs(5) fun_upd_triv)
  next
    case (Cons x xs)
    let ?C1 = "C\<lparr>ch_inbox := (ch_inbox C)(cid := xs @ ys)\<rparr>"
    have "chat_step C (Take cid x) ?C1" using Cons.prems by (intro chat_step.take_message) simp
    then have "does (SL_Poll cid env) C ?C1" by (rule does_step) (simp add: acts_for_def)
    with does_trans [OF this Cons.IH [of ?C1]] show ?case by (simp add: fun_upd_same del: fun_upd_apply)
  qed
qed

lemma posts:
  assumes "list_all server_text ms" "length (ch_room C) + length ms \<le> ch_capacity C"
  shows "does (SL_Poll cid env) C (C\<lparr>ch_room := ch_room C @ ms\<rparr>)"
  using assms
proof (induction ms arbitrary: C)
  case (Cons m ms)
  let ?C1 = "C\<lparr>ch_room := ch_room C @ [m]\<rparr>"
  have "chat_step C (Post cid m) ?C1" using Cons.prems by (intro chat_step.post) simp_all
  then have "does (SL_Poll cid env) C ?C1" by (rule does_step) (simp add: acts_for_def)
  with does_trans [OF this Cons.IH [of ?C1]] Cons.prems show ?case by simp
qed (simp add: does_refl)

lemma ran_members:
  assumes "distinct (map fst users)"
  shows "ran (\<lambda>k. map_option u_tx (map_of users k)) = set (map (\<lambda>(k, u). u_tx u) users)"
  using assms by (force simp: ran_def set_map dest: map_of_SomeD)

text \<open>The effect of a poll on the registry, as actions: a user joins or leaves, or nothing changes.\<close>

lemma same_members:
  assumes "ch_members C = ch_members (abs_chat L b)" "bk_registry b' = bk_registry b"
  shows "does l C (C\<lparr>ch_members := ch_members (abs_chat L b')\<rparr>)"
  using assms by (intro does_refl) (simp add: abs_chat_def)

lemma join_actions:
  assumes "joins L cid (bk_registry b) (bk_registry b') u" "ch_members C = ch_members (abs_chat L b)"
    and "broker_ok L b" "cid \<notin> registered b"
  shows "does (SL_Poll cid env) C (C\<lparr>ch_members := ch_members (abs_chat L b')\<rparr>)"
proof -
  from assms(1) obtain k where k: "map_of (bk_registry b) k = None" "bk_registry b' = (k, u) # bk_registry b" "u_tx u = cid"
    by (auto simp: joins_def user_new_def)
  have "distinct (map fst (bk_registry b))" using assms(3) by (simp add: broker_ok_def registry_ok_def)
  then have "cid \<notin> ran (ch_members C)" using assms(2,4) by (simp add: abs_chat_def ran_members registered_def)
  then have "chat_step C (Enter k cid) (C\<lparr>ch_members := (ch_members C)(k \<mapsto> cid)\<rparr>)"
    using k(1) assms(2) by (intro chat_step.enter) (simp_all add: abs_chat_def)
  moreover have "(ch_members C)(k \<mapsto> cid) = ch_members (abs_chat L b')" using k(2,3) assms(2) by (auto simp: abs_chat_def)
  ultimately show ?thesis by (intro does_step [of _ "Enter k cid"]) (simp_all add: acts_for_def)
qed

lemma leave_actions:
  assumes "leaves L (bk_registry b) (bk_registry b') u" "ch_members C = ch_members (abs_chat L b)"
    and "map_of (bk_registry b) (from_username (lb_unicode L) (lb_sz L) (u_username u)) = Some u" "u_tx u = cid"
  shows "does (SL_Poll cid env) C (C\<lparr>ch_members := ch_members (abs_chat L b')\<rparr>)"
proof -
  let ?k = "from_username (lb_unicode L) (lb_sz L) (u_username u)"
  obtain locked where b': "bk_registry b' = snd (unregister (lb_unicode L) (lb_sz L) locked (bk_registry b) u)"
    using assms(1) by (auto simp: leaves_def)
  show ?thesis
  proof (cases locked)
    case False
    with b' same_members [OF assms(2)] show ?thesis by (simp add: unregister_cases)
  next
    case True
    have "ch_members C ?k = Some cid" using assms(2-4) by (simp add: abs_chat_def)
    then have "chat_step C (Exit ?k cid) (C\<lparr>ch_members := (ch_members C)(?k := None)\<rparr>)" by (rule chat_step.exit)
    moreover have "(ch_members C)(?k := None) = ch_members (abs_chat L b')"
      using b' True assms(2) by (auto simp: abs_chat_def unregister_cases map_of_delete)
    ultimately show ?thesis by (intro does_step [of _ "Exit ?k cid"]) (simp_all add: acts_for_def)
  qed
qed

lemma member_actions:
  assumes "libs_ok L" "broker_ok L b" "traffic_ok L b" "conn_ok L cid cn" "agrees L b cid cn"
    and "poll_connection L env cid cn b = (cn', b')" "ch_members C = ch_members (abs_chat L b)"
  shows "does (SL_Poll cid env) C (C\<lparr>ch_members := ch_members (abs_chat L b')\<rparr>)"
proof (cases "cn_result cn")
  case (Some x)
  with assms(6) same_members [OF assms(7)] show ?thesis by (auto simp: poll_connection_def)
next
  case None
  consider (same) "bk_registry b' = bk_registry b"
    | (join) x u where "cn_state cn = Unauthenticated x" "joins L cid (bk_registry b) (bk_registry b') u"
    | (leave) j where "cn_state cn = Joined j" "leaves L (bk_registry b) (bk_registry b') (jn_user j)"
    using poll_connection_users [OF assms(1,3,4) None assms(6)] by blast
  then show ?thesis
  proof cases
    case same
    with same_members [OF assms(7)] show ?thesis .
  next
    case join
    with assms(5) None have "cid \<notin> registered b" by (simp add: agrees_def)
    from join_actions [OF join(2) assms(7,2) this] show ?thesis .
  next
    case leave
    with assms(4,5) None leave_actions [OF leave(2) assms(7)] show ?thesis
      by (simp add: agrees_def conn_ok_def state_ok_def)
  qed
qed

lemma poll_actions:
  assumes "libs_ok L" "broker_ok L b" "traffic_ok L b" "conn_ok L cid cn" "agrees L b cid cn"
    and "poll_connection L env cid cn b = (cn', b')"
  shows "does (SL_Poll cid env) (abs_chat L b) (abs_chat L b')"
proof -
  let ?C = "abs_chat L b" and ?C' = "abs_chat L b'"
  have fr: "outer_frame L cid b b'" and tr: "traffic_ok L b'"
    using poll_connection_keeps [OF assms(1,3,4,6)] by simp_all
  have sf: "suffix (inbox L b' cid) (ch_inbox ?C cid)" using fr by (simp add: outer_frame_def abs_chat_def)
  have ib: "(ch_inbox ?C)(cid := inbox L b' cid) = inbox L b'"
    using fr by (auto simp: outer_frame_def abs_chat_def inbox_def)
  let ?C1 = "?C\<lparr>ch_inbox := inbox L b'\<rparr>"
  let ?C2 = "?C1\<lparr>ch_members := ch_members ?C'\<rparr>"
  have 1: "does (SL_Poll cid env) ?C ?C1" using takes [OF sf, of env] by (simp add: ib)
  have 2: "does (SL_Poll cid env) ?C1 ?C2" by (rule member_actions [OF assms]) simp
  obtain ms where ms: "queued L b' = queued L b @ ms" using fr by (auto simp: outer_frame_def prefix_def)
  have cap: "room_capacity (lb_cb L) (bk_room b') = room_capacity (lb_cb L) (bk_room b)" "current b' = current b"
    using fr by (simp_all add: outer_frame_def current_def)
  have "length (queued L b') \<le> room_capacity (lb_cb L) (bk_room b')"
    using tr by (simp add: traffic_ok_def room_ok_def queued_def room_messages_def room_capacity_def)
  then have "length (ch_room ?C2) + length ms \<le> ch_capacity ?C2" using ms cap by (simp add: abs_chat_def)
  moreover have "list_all server_text ms" using tr ms by (simp add: traffic_ok_def)
  ultimately have "does (SL_Poll cid env) ?C2 (?C2\<lparr>ch_room := ch_room ?C2 @ ms\<rparr>)" by (intro posts)
  moreover have "?C2\<lparr>ch_room := ch_room ?C2 @ ms\<rparr> = ?C'" using ms cap by (simp add: abs_chat_def)
  ultimately show ?thesis using does_trans [OF does_trans [OF 1 2]] by simp
qed

text \<open>A poll of the dispatcher begins a message, or ends the sending to one user; the last of these
  also ends the message.\<close>

lemma finish_if:
  assumes "C' = (if A = {} then C\<lparr>ch_current := None\<rparr> else C)" "ch_current C = Some (m, A)"
  shows "does (SL_Dispatch e) C C'"
  using assms chat_step.finish [of C m]
  by (auto intro: does_refl does_step [of _ Finish] simp: acts_for_def split: if_splits)

lemma begin_actions:
  assumes "ch_current C = None" "ch_room C = m # ms" "A = ran (ch_members C) \<or> A = {}"
  shows "does (SL_Dispatch e) C (C\<lparr>ch_room := ms, ch_current := Some (m, A)\<rparr>)"
  using chat_step.begin_message [OF assms(2,1,3)] by (rule does_step) (simp add: acts_for_def)

lemma send_actions:
  assumes "ch_current C = Some (m, A)" "tx \<in> A"
    and "ib = (if acc then (ch_inbox C)(tx := ch_inbox C tx @ [m]) else ch_inbox C)"
  shows "does (SL_Dispatch e) C (C\<lparr>ch_current := Some (m, A - {tx}), ch_inbox := ib\<rparr>)"
proof (rule does_step)
  show "chat_step C (if acc then Deliver tx m else Miss tx m) (C\<lparr>ch_current := Some (m, A - {tx}), ch_inbox := ib\<rparr>)"
    using chat_step.deliver [OF assms(1,2)] chat_step.miss [OF assms(1,2)] assms(3) by simp
qed (simp add: acts_for_def)

lemma dispatch_actions:
  assumes "libs_ok L" "broker_ok L b" "de_join_ok e"
  shows "does (SL_Dispatch e) (abs_chat L b) (abs_chat L (dispatcher_poll L e b))"
proof -
  let ?b = "dispatcher_poll L e b" and ?C = "abs_chat L b"
  have d: "distinct (map fst (bk_registry b))" using assms(2) by (simp add: broker_ok_def registry_ok_def)
  have eq: "abs_chat L ?b = ?C\<lparr>ch_room := queued L ?b, ch_current := current ?b, ch_inbox := inbox L ?b\<rparr>"
    using dispatcher_poll_keeps(3,4) [OF assms] by (simp add: abs_chat_def)
  show ?thesis
  proof (rule dispatcher_poll_cases [OF assms], goal_cases)
    case 1
    then show ?case by (intro does_refl) (simp add: eq, simp add: abs_chat_def)
  next
    case (2 m)
    then show ?case by (intro finish_if [of _ "{}" _ m]) (simp_all add: eq, simp_all add: abs_chat_def)
  next
    case (3 m ms)
    let ?A = "if de_locked e then registered b else {}"
    let ?C1 = "?C\<lparr>ch_room := ms, ch_current := Some (m, ?A)\<rparr>"
    have b: "does (SL_Dispatch e) ?C ?C1"
      using 3(2,3) by (intro begin_actions) (simp_all add: abs_chat_def ran_members [OF d] registered_def)
    show ?case
    proof (cases "de_locked e")
      case True
      with 3 have "abs_chat L ?b = ?C1" by (simp add: eq) (simp add: abs_chat_def)
      with b show ?thesis by simp
    next
      case False
      with 3 have "does (SL_Dispatch e) ?C1 (abs_chat L ?b)"
        by (intro finish_if [of _ "{}" _ m]) (simp_all add: eq, simp_all add: abs_chat_def)
      with b show ?thesis by (rule does_trans)
    qed
  next
    case (4 m A tx)
    let ?C1 = "?C\<lparr>ch_current := Some (m, A - {tx}), ch_inbox := inbox L ?b\<rparr>"
    have "does (SL_Dispatch e) ?C ?C1"
      by (rule send_actions [where acc = "mp_accepts (lb_mp L) (bk_channels b tx)"])
        (use 4(1,2,4) in \<open>auto simp: abs_chat_def fun_eq_iff\<close>)
    moreover have "A - {tx} = {} \<longleftrightarrow> A = {tx}" using 4(2) by auto
    then have "does (SL_Dispatch e) ?C1 (abs_chat L ?b)"
      using 4(3,5) by (intro finish_if [of _ "A - {tx}" _ m]) (simp_all add: eq, simp add: abs_chat_def)
    ultimately show ?case by (rule does_trans)
  qed
qed

subsection \<open>The specification broadcasts in one order\<close>

lemma chat_total_order:
  assumes "steps chat_step C as C'"
  shows "\<exists>done. ch_room C @ posted as = done @ ch_room C'
    \<and> subseq (taken cid as @ ch_inbox C' cid @ on_way C' cid) (ch_inbox C cid @ on_way C cid @ done)"
  using assms
proof (induction rule: steps.induct)
  case (steps_Cons C a C1 as C')
  then obtain d where d: "ch_room C1 @ posted as = d @ ch_room C'"
    "subseq (taken cid as @ ch_inbox C' cid @ on_way C' cid) (ch_inbox C1 cid @ on_way C1 cid @ d)" by blast
  have trans: "subseq (taken cid as @ ch_inbox C' cid @ on_way C' cid) ys"
    if "subseq (ch_inbox C1 cid @ on_way C1 cid @ d) ys" for ys
    using d(2) that by (rule subseq_order.trans)
  from steps_Cons.hyps(1) show ?case
  proof cases
    case (begin_message m ms A)
    have "subseq (ch_inbox C1 cid @ on_way C1 cid @ d) (ch_inbox C cid @ on_way C cid @ m # d)"
      using begin_message by (auto simp: on_way_def subseq_append')
    from trans [OF this] d(1) begin_message show ?thesis by (intro exI [of _ "m # d"]) simp
  next
    case (deliver m A c)
    have "ch_inbox C1 cid @ on_way C1 cid @ d = ch_inbox C cid @ on_way C cid @ d"
      using deliver by (auto simp: on_way_def)
    from d(2) [unfolded this] d(1) deliver show ?thesis by (intro exI [of _ d]) simp
  next
    case (miss m A c)
    have "subseq (ch_inbox C1 cid @ on_way C1 cid @ d) (ch_inbox C cid @ on_way C cid @ d)"
      using miss by (auto simp: on_way_def subseq_append')
    from trans [OF this] d(1) miss show ?thesis by (intro exI [of _ d]) simp
  qed (use d in \<open>auto simp: on_way_def intro!: exI [of _ d]\<close>)
qed auto

subsection \<open>The server implements it\<close>

lemma abs_flags [simp]:
  "abs_chat L (b\<lparr>bk_dispatcher_handle := h\<rparr>) = abs_chat L b"
  "abs_chat L (b\<lparr>bk_shutdown_flag := f\<rparr>) = abs_chat L b"
  by (simp_all add: abs_chat_def queued_def inbox_def [abs_def] current_def)

lemma dispatch_unused:
  assumes "libs_ok L" "server_ok L sv" "unused_empty L sv" "de_join_ok e"
  shows "unused_empty L (dispatch_task L e sv)"
proof (rule dispatcher_poll_cases [OF assms(1) server_okD(1) [OF assms(2)] assms(4)], goal_cases)
  case (4 m A tx)
  then have "tx < length (sv_conns sv)" using server_okD(8) [OF assms(2)] by (simp add: sending_ok_def)
  with 4 assms(3) show ?case by (simp add: unused_empty_def dispatch_task_def)
qed (use assms(3) in \<open>simp_all add: unused_empty_def dispatch_task_def\<close>)

lemma server_step_actions:
  assumes "server_step L sv l sv'" "libs_ok L" "server_ok L sv" "unused_empty L sv"
  shows "does l (abs_chat L (sv_broker sv)) (abs_chat L (sv_broker sv')) \<and> unused_empty L sv'"
  using assms(1)
proof cases
  case (accept_step ev)
  have "abs_chat L (sv_broker sv') = abs_chat L (sv_broker sv) \<and> unused_empty L sv'"
    using assms(2,4) accept_step(2)
    by (auto simp: accept_connections_def handle_connection_def unauthenticated_new_def unused_empty_def abs_chat_def
        queued_def inbox_def lib_laws USER_CHANNEL_BUFFER_SIZE_def fun_eq_iff
        split: acceptor.splits accept_event.splits option.splits)
  then show ?thesis by (simp add: does_refl)
next
  case (poll_step cid env)
  let ?cn = "sv_conns sv ! cid" and ?b = "sv_broker sv"
  obtain cn' b' where p: "poll_connection L env cid ?cn ?b = (cn', b')" by force
  note ok = server_okD [OF assms(3)]
  note cn = ok(5) [OF poll_step(4)] ok(6) [OF poll_step(4)]
  have "outer_frame L cid ?b b'" using poll_connection_keeps [OF assms(2) ok(2) cn(1) p] by simp
  then have "unused_empty L sv'"
    using assms(4) poll_step by (auto simp: unused_empty_def poll_task_def p outer_frame_def inbox_def)
  with poll_actions [OF assms(2) ok(1,2) cn p] poll_step show ?thesis by (simp add: poll_task_def p)
next
  case (dispatch_step e)
  with dispatch_actions [OF assms(2) server_okD(1) [OF assms(3)]] dispatch_unused [OF assms(2-4)]
  show ?thesis by (simp add: dispatch_task_def)
next
  case ctrl_c_step
  with assms(4) show ?thesis by (intro conjI does_refl) (simp_all add: ctrl_c_def unused_empty_def)
next
  case stop_step
  with assms(4) show ?thesis
    by (intro conjI does_refl) (simp_all add: stop_broker_def shutdown_def unused_empty_def inbox_def)
next
  case (exit_step handle)
  with assms(4) show ?thesis by (intro conjI does_refl) (simp_all add: exit_main_def unused_empty_def)
qed

lemma unused_start: "libs_ok L \<Longrightarrow> unused_empty L (server_start L uuid now)"
  by (simp add: unused_empty_def server_start_def start_dispatcher_def broker_new_def inbox_def
      lib_laws USER_CHANNEL_BUFFER_SIZE_def)

interpretation chat: step_refinement
  "\<lambda>(L, sv) l (L', sv'). L' = L \<and> server_step L sv l sv'"
  "\<lambda>(L, sv). libs_ok L \<and> (\<exists>uuid now. sv = server_start L uuid now)"
  "\<lambda>(L, sv). libs_ok L \<and> server_ok L sv \<and> unused_empty L sv"
  chat_step "\<lambda>(L, sv). abs_chat L (sv_broker sv)" acts_for
proof (unfold_locales, goal_cases)
  case (1 s)
  then show ?case by (auto simp: server_start_ok unused_start)
next
  case (2 s l s')
  then show ?case using server_step_ok server_step_actions by fastforce
next
  case (3 s l s')
  then show ?case using server_step_actions by (fastforce simp: does_def)
qed



end
