(* ===== verification/Chat_Client.thy ===== *)
theory Chat_Client
  imports Tokio_Io "HOL-Library.Code_Target_Nat"
begin

text \<open>
  The command line client, \<open>src/client/src/main.rs\<close>: connecting, the request to join and its
  answer, and the running client with its three concurrent parts: the loop that executes the
  typed commands (\<open>client_run\<close>), the task that reads from the server
  (\<open>read_server_messages\<close>) and the thread of the line editor (\<open>read_joined_user_input\<close>). They
  share the shutdown flag, the channel of commands and the socket. A step of the process is one
  poll of one part, up to its next waiting point, or something that arrives from the network.

  Not under \<open>src/\<close> and therefore parameters: the parsing of the command line (\<open>clap\<close>; its result
  is \<open>args\<close>), the line editor (\<open>rustyline\<close>; what it returns is in the labels, and it returns
  lines without a line feed), the connection itself and the tokio channel. What the client
  prints is the list \<open>cl_term\<close>; the prompt and the history of the editor and log output are not
  modelled.
\<close>

text \<open>The channel of commands: the tokio channel with the two operations that the thread of the
  line editor uses, \<open>blocking_send\<close> (pending while the channel is full) and dropping the sender.\<close>

record 'c cmd_channel =
  cc_mp :: "('c, rstr) mpsc"
  cc_blocking_send :: "'c \<Rightarrow> rstr \<Rightarrow> (unit, unit) result poll \<times> 'c"
  cc_drop_sender :: "'c \<Rightarrow> 'c"

definition cmd_send_ok :: "'c cmd_channel \<Rightarrow> bool" where
  "cmd_send_ok K \<longleftrightarrow>
     (\<forall>c m r c'. cc_blocking_send K c m = (r, c') \<longrightarrow>
        mp_same (cc_mp K) c c'
        \<and> mp_messages (cc_mp K) c' = mp_messages (cc_mp K) c @ (if mp_accepts (cc_mp K) c then [m] else [])
        \<and> r = (if mp_accepts (cc_mp K) c then Ready (Inr ())
               else if mp_closed (cc_mp K) c then Ready (Inl ()) else Pending))"

definition cmd_drop_ok :: "'c cmd_channel \<Rightarrow> bool" where
  "cmd_drop_ok K \<longleftrightarrow>
     (\<forall>c. mp_messages (cc_mp K) (cc_drop_sender K c) = mp_messages (cc_mp K) c
          \<and> mp_no_senders (cc_mp K) (cc_drop_sender K c))"

definition cmd_channel_ok :: "'c cmd_channel \<Rightarrow> bool" where
  "cmd_channel_ok K \<longleftrightarrow> mpsc_ok (cc_mp K) \<and> cmd_send_ok K \<and> cmd_drop_ok K"

definition ref_cmd_channel :: "rstr mfifo cmd_channel" where
  "ref_cmd_channel =
     \<lparr> cc_mp = ref_mpsc,
       cc_blocking_send = (\<lambda>c m.
         if mp_accepts ref_mpsc c then (Ready (Inr ()), c\<lparr>mf_buf := mf_buf c @ [m]\<rparr>)
         else if mp_closed ref_mpsc c then (Ready (Inl ()), c) else (Pending, c)),
       cc_drop_sender = (\<lambda>c. c\<lparr>mf_no_senders := True\<rparr>) \<rparr>"

text \<open>What the client prints: \<open>println!\<close> and \<open>eprintln!\<close>.\<close>

datatype out_line = Stdout rstr | Stderr rstr

text \<open>One poll of \<open>read_line\<close>: a line is read without a limit and must be UTF-8; \<open>buf\<close> holds the
  bytes read so far. The result is the number of bytes and the text.\<close>

definition invalid_utf8_error :: io_error where
  "invalid_utf8_error = lit ''stream did not contain valid UTF-8''"

definition read_line ::
    "byte list \<Rightarrow> reader \<Rightarrow> (io_error, nat \<times> rstr) result poll \<times> byte list \<times> reader" where
  "read_line buf r =
     (case read_until (Suc (length buf + length (rd_data r))) buf r of
        (Pending, buf', r') \<Rightarrow> (Pending, buf', r')
      | (Ready (Inl e), buf', r') \<Rightarrow> (Ready (Inl e), [], r')
      | (Ready (Inr n), buf', r') \<Rightarrow>
          (Ready (case from_utf8 buf' of None \<Rightarrow> Inl invalid_utf8_error | Some s \<Rightarrow> Inr (n, s)), [], r'))"

record args =
  ar_host :: rstr
  ar_port :: u16
  ar_username :: rstr

text \<open>The errors of the line editor.\<close>

datatype readline_error = RdE_Interrupted | RdE_Eof | RdE_Other rstr

datatype client_error =
    ClE_Connection io_error
  | ClE_ServerError rstr
  | ClE_Readline readline_error

record disconnected_client =
  dc_host :: rstr
  dc_port :: u16
  dc_username :: rstr

record connected_client =
  co_username :: rstr
  co_reader :: reader
  co_writer :: writer
  co_response :: "byte list"

definition disconnected_new :: "args \<Rightarrow> disconnected_client" where
  "disconnected_new a = \<lparr> dc_host = ar_host a, dc_port = ar_port a, dc_username = ar_username a \<rparr>"

text \<open>\<open>TcpStream::connect\<close> is the argument \<open>net\<close>.\<close>

definition client_connect ::
    "(rstr \<Rightarrow> (io_error, reader \<times> writer) result) \<Rightarrow> disconnected_client
     \<Rightarrow> (client_error, connected_client) result \<times> out_line list" where
  "client_connect net self =
     (let addr = dc_host self @ lit '':'' @ show_nat (unat (dc_port self));
          said = [Stdout (lit ''Connecting to '' @ addr @ lit ''...'')]
      in case net addr of
           Inl e \<Rightarrow> (Inl (ClE_Connection e), said)
         | Inr (reader, writer) \<Rightarrow>
             (Inr \<lparr> co_username = dc_username self, co_reader = reader, co_writer = writer, co_response = [] \<rparr>,
              said @ [Stdout (lit ''Connected!'')]))"

text \<open>\<open>ConnectedClient::join\<close>, up to and after the point where it waits for the response.\<close>

definition join_request :: "connected_client \<Rightarrow> (client_error, unit) result \<times> connected_client" where
  "join_request self =
     (case write_line (encode_client (CM_Join (co_username self))) (co_writer self) of
        (r, w) \<Rightarrow> (map_err ClE_Connection r, self\<lparr>co_writer := w\<rparr>))"

definition check_response :: "unicode \<Rightarrow> sz_lib \<Rightarrow> rstr \<Rightarrow> (client_error, unit) result" where
  "check_response U sz response =
     (case decode_server U sz (utf8 (trim response)) of
        Inr SM_Ok \<Rightarrow> Inr ()
      | Inr (SM_Err reason) \<Rightarrow> Inl (ClE_ServerError reason)
      | _ \<Rightarrow> Inl (ClE_ServerError (trim response)))"

definition join_response ::
    "unicode \<Rightarrow> sz_lib \<Rightarrow> connected_client \<Rightarrow> (client_error, unit) result poll \<times> connected_client" where
  "join_response U sz self =
     (case read_line (co_response self) (co_reader self) of
        (p, buf', r') \<Rightarrow>
          (let self' = self\<lparr>co_response := buf', co_reader := r'\<rparr> in
           case p of
             Pending \<Rightarrow> (Pending, self')
           | Ready (Inl e) \<Rightarrow> (Ready (Inl (ClE_Connection e)), self')
           | Ready (Inr (n, response)) \<Rightarrow> (Ready (check_response U sz response), self')))"

definition joined_banner :: "rstr \<Rightarrow> out_line list" where
  "joined_banner username =
     [Stdout (lit ''Joined as '' @ [0x27] @ username @ [0x27] @ lit ''. Type '' @ [0x27] @ lit ''send <message>''
        @ [0x27] @ lit '' or '' @ [0x27] @ lit ''leave'' @ [0x27] @ lit '' to exit.''),
      Stdout (lit ''Use arrow keys for history navigation.'' @ [0x0A])]"

text \<open>The running client: the task that executes commands, the task that reads from the server and
  the thread of the line editor, with what they share.\<close>

datatype input_thread = Rl_Start | Rl_Top | Rl_Prompt | Rl_Send rstr bool | Rl_Done

datatype run_phase = Run_Loop | Run_Store | Run_Reader | Run_Input | Run_Done "(client_error, unit) result"

record 'c client =
  cl_username :: rstr
  cl_shutdown :: bool
  cl_reader :: reader
  cl_line :: "byte list"
  cl_reader_done :: bool
  cl_writer :: writer
  cl_chan :: 'c
  cl_input :: input_thread
  cl_run :: run_phase
  cl_term :: "out_line list"

definition cl_print :: "out_line list \<Rightarrow> 'c client \<Rightarrow> 'c client" where
  "cl_print ls c = c\<lparr>cl_term := cl_term c @ ls\<rparr>"

definition run_start :: "'c cmd_channel \<Rightarrow> rstr \<Rightarrow> reader \<Rightarrow> writer \<Rightarrow> out_line list \<Rightarrow> 'c client" where
  "run_start K username reader writer tm =
     \<lparr> cl_username = username, cl_shutdown = False, cl_reader = reader, cl_line = [], cl_reader_done = False,
       cl_writer = writer, cl_chan = mp_channel (cc_mp K) 32, cl_input = Rl_Start, cl_run = Run_Loop, cl_term = tm \<rparr>"

definition parse_server_message :: "unicode \<Rightarrow> sz_lib \<Rightarrow> rstr \<Rightarrow> rstr \<Rightarrow> out_line list" where
  "parse_server_message U sz this_user line =
     (let trimmed = trim line in
      case decode_server U sz (utf8 trimmed) of
        Inr SM_Ok \<Rightarrow> []
      | Inr (SM_Err reason) \<Rightarrow> [Stdout ([0x0D] @ lit ''[ERROR]: '' @ reason)]
      | Inr (SM_UserJoined username) \<Rightarrow>
          if username \<noteq> this_user then [Stdout ([0x0D] @ lit ''*** '' @ username @ lit '' joined the chat ***'')] else []
      | Inr (SM_UserLeft username) \<Rightarrow>
          if username \<noteq> this_user then [Stdout ([0x0D] @ lit ''*** '' @ username @ lit '' left the chat ***'')] else []
      | Inr (SM_Broadcast username message) \<Rightarrow>
          if username \<noteq> this_user then [Stdout ([0x0D] @ lit ''['' @ username @ lit '']: '' @ message)] else []
      | Inl _ \<Rightarrow> if trimmed \<noteq> [] then [Stdout ([0x0D] @ trimmed)] else [])"

text \<open>One iteration of the loop of \<open>read_server_messages\<close>.\<close>

definition read_server_messages :: "unicode \<Rightarrow> sz_lib \<Rightarrow> 'c client \<Rightarrow> 'c client" where
  "read_server_messages U sz c =
     (if cl_reader_done c then c
      else (case read_line (cl_line c) (cl_reader c) of
        (p, buf', r') \<Rightarrow>
          (let c' = c\<lparr>cl_line := buf', cl_reader := r'\<rparr> in
           case p of
             Pending \<Rightarrow> c'
           | Ready (Inr (n, line)) \<Rightarrow>
               if n = 0 then cl_print [Stdout ([0x0A] @ lit ''Disconnected from server.'')]
                               (c'\<lparr>cl_shutdown := True, cl_reader_done := True\<rparr>)
               else cl_print (parse_server_message U sz (cl_username c) line) c'
           | Ready (Inl e) \<Rightarrow>
               cl_print [Stderr ([0x0A] @ lit ''Read error: '' @ e)]
                 (c'\<lparr>cl_shutdown := True, cl_reader_done := True\<rparr>))))"

text \<open>The thread of \<open>read_joined_user_input\<close>: the line editor gives \<open>editor\<close> (whether it could be
  created) and \<open>line\<close> (what \<open>readline\<close> returns, if it has returned).\<close>

definition read_joined_user_input ::
    "'c cmd_channel \<Rightarrow> bool \<Rightarrow> (readline_error, rstr) result option \<Rightarrow> 'c client \<Rightarrow> 'c client" where
  "read_joined_user_input K editor line c =
     (let exit = c\<lparr>cl_input := Rl_Done, cl_chan := cc_drop_sender K (cl_chan c)\<rparr> in
      case cl_input c of
        Rl_Start \<Rightarrow> if editor then c\<lparr>cl_input := Rl_Top\<rparr> else exit
      | Rl_Top \<Rightarrow> if cl_shutdown c then exit else c\<lparr>cl_input := Rl_Prompt\<rparr>
      | Rl_Prompt \<Rightarrow>
          (case line of
             None \<Rightarrow> c
           | Some (Inr l) \<Rightarrow>
               (let user_input = trim l in
                if user_input = [] then c\<lparr>cl_input := Rl_Top\<rparr> else c\<lparr>cl_input := Rl_Send user_input False\<rparr>)
           | Some (Inl (RdE_Other e)) \<Rightarrow> exit
           | Some (Inl _) \<Rightarrow> c\<lparr>cl_input := Rl_Send (lit ''leave'') True\<rparr>)
      | Rl_Send s final \<Rightarrow>
          (case cc_blocking_send K (cl_chan c) s of
             (Pending, ch) \<Rightarrow> c\<lparr>cl_chan := ch\<rparr>
           | (Ready (Inl _), ch) \<Rightarrow> c\<lparr>cl_input := Rl_Done, cl_chan := cc_drop_sender K ch\<rparr>
           | (Ready (Inr _), ch) \<Rightarrow>
               if final then c\<lparr>cl_input := Rl_Done, cl_chan := cc_drop_sender K ch\<rparr>
               else c\<lparr>cl_input := Rl_Top, cl_chan := ch\<rparr>)
      | Rl_Done \<Rightarrow> c)"

definition send_argument :: "rstr \<Rightarrow> rstr option" where
  "send_argument trimmed =
     (case strip_prefix (map to_ascii_lowercase CLIENT_SEND_PREFIX) trimmed of
        Some msg \<Rightarrow> Some msg
      | None \<Rightarrow> strip_prefix CLIENT_SEND_PREFIX trimmed)"

text \<open>The body of the command loop. \<open>Run_Loop\<close>: the loop goes on; \<open>Run_Store\<close>: it breaks.\<close>

definition run_command :: "rstr \<Rightarrow> 'c client \<Rightarrow> 'c client" where
  "run_command input c =
     (let trimmed = trim input in
      if eq_ignore_ascii_case trimmed CLIENT_LEAVE_CMD then
        (case write_line (encode_client CM_Leave) (cl_writer c) of
           (Inl e, w) \<Rightarrow> c\<lparr>cl_writer := w, cl_run := Run_Done (Inl (ClE_Connection e))\<rparr>
         | (Inr _, w) \<Rightarrow> cl_print [Stdout (lit ''Goodbye!'')] (c\<lparr>cl_writer := w, cl_run := Run_Store\<rparr>))
      else (case send_argument trimmed of
        Some msg \<Rightarrow>
          (case write_all (encode_client (CM_Send msg)) (cl_writer c) of
             (Inl e, w) \<Rightarrow> cl_print [Stderr (lit ''Failed to send: '' @ e)] (c\<lparr>cl_writer := w, cl_run := Run_Store\<rparr>)
           | (Inr _, w) \<Rightarrow> c\<lparr>cl_writer := snd (flush (snd (write_all [newline] w)))\<rparr>)
      | None \<Rightarrow>
          cl_print [Stdout (lit ''Unknown command. Use '' @ [0x27] @ lit ''send <message>'' @ [0x27]
            @ lit '' or '' @ [0x27] @ lit ''leave'' @ [0x27] @ lit ''.'')] c))"

text \<open>One poll of \<open>JoinedClient::run\<close>.\<close>

definition client_run :: "'c cmd_channel \<Rightarrow> 'c client \<Rightarrow> 'c client" where
  "client_run K c =
     (case cl_run c of
        Run_Loop \<Rightarrow>
          (case mp_recv (cc_mp K) (cl_chan c) of
             (p, ch) \<Rightarrow>
               (let c' = c\<lparr>cl_chan := ch\<rparr> in
                case p of
                  Pending \<Rightarrow> c'
                | Ready None \<Rightarrow> c'\<lparr>cl_run := Run_Store\<rparr>
                | Ready (Some input) \<Rightarrow>
                    if cl_shutdown c' then c'\<lparr>cl_run := Run_Store\<rparr> else run_command input c'))
      | Run_Store \<Rightarrow> c\<lparr>cl_shutdown := True, cl_run := Run_Reader\<rparr>
      | Run_Reader \<Rightarrow> if cl_reader_done c then c\<lparr>cl_run := Run_Input\<rparr> else c
      | Run_Input \<Rightarrow> if cl_input c = Rl_Done then c\<lparr>cl_run := Run_Done (Inr ())\<rparr> else c
      | Run_Done _ \<Rightarrow> c)"

datatype client_label =
    CL_Net "byte list" input_status
  | CL_Reader
  | CL_Input bool "(readline_error, rstr) result option"
  | CL_Run

definition client_poll ::
    "unicode \<Rightarrow> sz_lib \<Rightarrow> 'c cmd_channel \<Rightarrow> client_label \<Rightarrow> 'c client \<Rightarrow> 'c client" where
  "client_poll U sz K l c =
     (case l of
        CL_Net bytes status \<Rightarrow> c\<lparr>cl_reader := arrive bytes status (cl_reader c)\<rparr>
      | CL_Reader \<Rightarrow> read_server_messages U sz c
      | CL_Input editor line \<Rightarrow> read_joined_user_input K editor line c
      | CL_Run \<Rightarrow> client_run K c)"

text \<open>The line editor returns one line of text, without a line feed.\<close>

definition one_line :: "client_label \<Rightarrow> bool" where
  "one_line l \<longleftrightarrow>
     (case l of CL_Input _ (Some (Inr s)) \<Rightarrow> wf_str s \<and> 0x0A \<notin> set s | _ \<Rightarrow> True)"

text \<open>\<open>main\<close>: connecting, joining, running.\<close>

datatype exit_code = ExitCode_SUCCESS | ExitCode_FAILURE

datatype 'c process =
    Joining connected_client "out_line list"
  | Running "'c client"
  | Exited exit_code "out_line list"

definition client_error_to_string :: "client_error \<Rightarrow> (readline_error \<Rightarrow> rstr) \<Rightarrow> rstr" where
  "client_error_to_string e show_readline =
     (case e of
        ClE_Connection err \<Rightarrow> lit ''connection failed: '' @ err
      | ClE_ServerError s \<Rightarrow> lit ''server error: '' @ s
      | ClE_Readline err \<Rightarrow> lit ''readline error: '' @ show_readline err)"

definition exit_with :: "(readline_error \<Rightarrow> rstr) \<Rightarrow> string \<Rightarrow> client_error \<Rightarrow> out_line list \<Rightarrow> 'c process" where
  "exit_with show_readline what e tm =
     Exited ExitCode_FAILURE (tm @ [Stderr (lit what @ lit '': '' @ client_error_to_string e show_readline)])"

definition main_start ::
    "(readline_error \<Rightarrow> rstr) \<Rightarrow> (rstr \<Rightarrow> (io_error, reader \<times> writer) result) \<Rightarrow> args \<Rightarrow> 'c process" where
  "main_start show_readline net a =
     (case client_connect net (disconnected_new a) of
        (Inl e, tm) \<Rightarrow> exit_with show_readline ''Connection error'' e tm
      | (Inr connected, tm) \<Rightarrow>
          (case join_request connected of
             (Inl e, _) \<Rightarrow> exit_with show_readline ''Join error'' e tm
           | (Inr _, connected') \<Rightarrow> Joining connected' tm))"

definition main_poll ::
    "unicode \<Rightarrow> sz_lib \<Rightarrow> 'c cmd_channel \<Rightarrow> (readline_error \<Rightarrow> rstr) \<Rightarrow> client_label \<Rightarrow> 'c process \<Rightarrow> 'c process" where
  "main_poll U sz K show_readline l pr =
     (case pr of
        Joining connected tm \<Rightarrow>
          (case l of
             CL_Net bytes status \<Rightarrow> Joining (connected\<lparr>co_reader := arrive bytes status (co_reader connected)\<rparr>) tm
           | CL_Run \<Rightarrow>
               (case join_response U sz connected of
                  (Pending, connected') \<Rightarrow> Joining connected' tm
                | (Ready (Inl e), connected') \<Rightarrow> exit_with show_readline ''Join error'' e tm
                | (Ready (Inr _), connected') \<Rightarrow>
                    Running (run_start K (co_username connected') (co_reader connected') (co_writer connected')
                      (tm @ joined_banner (co_username connected'))))
           | _ \<Rightarrow> pr)
      | Running c \<Rightarrow>
          (let c' = client_poll U sz K l c in
           case cl_run c' of
             Run_Done (Inl e) \<Rightarrow> exit_with show_readline ''Error'' e (cl_term c')
           | Run_Done (Inr _) \<Rightarrow> Exited ExitCode_SUCCESS (cl_term c')
           | _ \<Rightarrow> Running c')
      | Exited _ _ \<Rightarrow> pr)"

text \<open>The tasks of the process run concurrently; a step is one poll of one of them, or something
  arriving from the network.\<close>

inductive main_step ::
    "unicode \<Rightarrow> sz_lib \<Rightarrow> 'c cmd_channel \<Rightarrow> (readline_error \<Rightarrow> rstr) \<Rightarrow> 'c process \<Rightarrow> client_label \<Rightarrow> 'c process \<Rightarrow> bool"
    for U sz K show_readline where
  main_step: "one_line l \<Longrightarrow> main_step U sz K show_readline pr l (main_poll U sz K show_readline l pr)"

inductive_cases main_stepE: "main_step U sz K show_readline pr l pr'"

text \<open>What the client has written: whole lines, each an encoded message; a rest without a line
  feed is possible only on a socket that has broken.\<close>

definition client_text :: "byte list \<Rightarrow> bool" where
  "client_text m \<longleftrightarrow> newline \<notin> set m \<and> (\<exists>cm. m = encode_client cm)"

definition requests_ok :: "writer \<Rightarrow> bool" where
  "requests_ok w \<longleftrightarrow>
     (\<exists>ms rest. wr_out w = lines ms @ rest \<and> list_all client_text ms \<and> newline \<notin> set rest
        \<and> (rest \<noteq> [] \<longrightarrow> wr_budget w = Some 0))"

definition plain :: "rstr \<Rightarrow> bool" where
  "plain s \<longleftrightarrow> wf_str s \<and> 0x0A \<notin> set s"

definition client_ok :: "'c cmd_channel \<Rightarrow> 'c client \<Rightarrow> bool" where
  "client_ok K c \<longleftrightarrow>
     requests_ok (cl_writer c) \<and> list_all plain (mp_messages (cc_mp K) (cl_chan c))
     \<and> (case cl_input c of Rl_Send s _ \<Rightarrow> plain s | _ \<Rightarrow> True)"

definition process_ok :: "'c cmd_channel \<Rightarrow> 'c process \<Rightarrow> bool" where
  "process_ok K pr \<longleftrightarrow>
     (case pr of
        Joining connected _ \<Rightarrow> requests_ok (co_writer connected)
      | Running c \<Rightarrow> client_ok K c
      | Exited _ _ \<Rightarrow> True)"

text \<open>The process with the crates it uses, which never change.\<close>

type_synonym 'c setting = "unicode \<times> sz_lib \<times> 'c cmd_channel \<times> (readline_error \<Rightarrow> rstr)"

definition process_step :: "'c setting \<times> 'c process \<Rightarrow> client_label \<Rightarrow> 'c setting \<times> 'c process \<Rightarrow> bool" where
  "process_step s l s' \<longleftrightarrow>
     (case s of ((U, sz, K, sr), pr) \<Rightarrow> fst s' = fst s \<and> main_step U sz K sr pr l (snd s'))"

text \<open>What the other users' messages look like on the screen of \<open>me\<close>.\<close>

definition shown :: "rstr \<Rightarrow> server_message \<Rightarrow> out_line list" where
  "shown me m =
     (case m of
        SM_Ok \<Rightarrow> []
      | SM_Err reason \<Rightarrow> [Stdout ([0x0D] @ lit ''[ERROR]: '' @ reason)]
      | SM_UserJoined u \<Rightarrow> if u = me then [] else [Stdout ([0x0D] @ lit ''*** '' @ u @ lit '' joined the chat ***'')]
      | SM_UserLeft u \<Rightarrow> if u = me then [] else [Stdout ([0x0D] @ lit ''*** '' @ u @ lit '' left the chat ***'')]
      | SM_Broadcast u t \<Rightarrow> if u = me then [] else [Stdout ([0x0D] @ lit ''['' @ u @ lit '']: '' @ t)])"

text \<open>What a typed line asks for.\<close>

definition user_command :: "rstr \<Rightarrow> client_message option" where
  "user_command l =
     (if map to_ascii_lowercase (trim l) = lit ''leave'' then Some CM_Leave
      else if prefix (lit ''send '') (trim l) \<or> prefix (lit ''SEND '') (trim l) then Some (CM_Send (drop 5 (trim l)))
      else None)"

text \<open>The client has left its loops and waits for the thread of the line editor, which waits for
  space in the channel that nobody reads any more.\<close>

definition hung :: "'c cmd_channel \<Rightarrow> 'c client \<Rightarrow> bool" where
  "hung K c \<longleftrightarrow>
     cl_run c = Run_Input \<and> (\<exists>s final. cl_input c = Rl_Send s final)
     \<and> \<not> mp_accepts (cc_mp K) (cl_chan c) \<and> \<not> mp_closed (cc_mp K) (cl_chan c)"

definition message_ok :: "server_message \<Rightarrow> bool" where
  "message_ok m \<longleftrightarrow> canonical_server m \<and> newline \<notin> set (encode_server m) \<and> length (encode_server m) \<le> usize_max"

text \<open>The process as a function of its labels, for concrete runs.\<close>

definition main_run ::
    "unicode \<Rightarrow> sz_lib \<Rightarrow> 'c cmd_channel \<Rightarrow> (readline_error \<Rightarrow> rstr) \<Rightarrow> client_label list \<Rightarrow> 'c process \<Rightarrow> 'c process" where
  "main_run U sz K sr ls pr = foldl (\<lambda>p l. main_poll U sz K sr l p) pr ls"

text \<open>A server that has answered \<open>OK\<close>, a user typing one line after the other, and a long paste
  that begins with \<open>leave\<close>.\<close>

definition demo_net :: "rstr \<Rightarrow> (io_error, reader \<times> writer) result" where
  "demo_net addr = Inr (\<lparr> rd_data = encode_server SM_Ok @ [newline], rd_status = In_Open \<rparr>,
                        \<lparr> wr_out = [], wr_budget = None, wr_error = [] \<rparr>)"

definition demo_args :: args where
  "demo_args = \<lparr> ar_host = lit ''localhost'', ar_port = 8080, ar_username = lit ''ann'' \<rparr>"

definition types :: "rstr \<Rightarrow> client_label list" where
  "types s = [CL_Input True None, CL_Input True (Some (Inr s))]"

definition typed :: "rstr \<Rightarrow> client_label list" where
  "typed s = types s @ [CL_Input True None]"

definition paste :: "client_label list" where
  "paste = CL_Run # CL_Input True None # typed (lit ''leave'') @ concat (replicate 31 (typed (lit ''x''))) @ types (lit ''x'')
     @ [CL_Run, CL_Input True None] @ types (lit ''x'') @ [CL_Run, CL_Net [] In_Eof, CL_Reader, CL_Run]"

definition demo_start :: "rstr mfifo process" where
  "demo_start = main_start (\<lambda>_. []) demo_net demo_args"

definition demo_run :: "client_label list \<Rightarrow> rstr mfifo process" where
  "demo_run ls = main_run ascii_unicode ref_sz ref_cmd_channel (\<lambda>_. []) ls demo_start"

definition talk :: "client_label list" where
  "talk = CL_Run # CL_Input True None # typed (lit ''send hi'') @ [CL_Run]"

lemma ref_cmd_channel_ok: "cmd_channel_ok ref_cmd_channel"
  using ref_mpsc_ok
  by (auto simp: cmd_channel_ok_def cmd_send_ok_def cmd_drop_ok_def ref_cmd_channel_def ref_mpsc_def mp_accepts_def
      mp_same_def split: if_splits)

subsection \<open>Texts\<close>

lemma plain_trim [simp]: "plain s \<Longrightarrow> plain (trim s)"
  using set_trim_subset [of s] by (auto simp: plain_def)

lemma plain_drop: "plain s \<Longrightarrow> plain (drop n s)"
  by (auto simp: plain_def wf_str_def list_all_iff dest: in_set_dropD)

lemma newline_utf8: "wf_str s \<Longrightarrow> newline \<in> set (utf8 s) \<longleftrightarrow> 0x0A \<in> set s"
  unfolding newline_def by (rule ascii_byte_in_utf8) simp_all

lemma client_text_simps [simp]:
  "plain u \<Longrightarrow> client_text (encode_client (CM_Join u))" "plain u \<Longrightarrow> client_text (encode_client (CM_Send u))"
  "client_text (encode_client CM_Leave)"
proof -
  have w: "wf_str (lit ''JOIN|'')" "wf_str (lit ''SEND|'')" "wf_str (lit ''LEAVE'')"
    "0x0A \<notin> set (lit ''JOIN|'')" "0x0A \<notin> set (lit ''SEND|'')" "0x0A \<notin> set (lit ''LEAVE'')"
    by (simp_all add: lit_def wf_str_def is_scalar_def)
  have e: "encode_client (CM_Join u) = utf8 (lit ''JOIN|'' @ u)" "encode_client (CM_Send u) = utf8 (lit ''SEND|'' @ u)"
    "encode_client CM_Leave = utf8 (lit ''LEAVE'')" for u
    by (simp_all add: encode_client_def FIELD_SEPARATOR_bar bar_def wire_words)
  have "plain u \<Longrightarrow> newline \<notin> set (encode_client (CM_Join u))" "plain u \<Longrightarrow> newline \<notin> set (encode_client (CM_Send u))"
    "newline \<notin> set (encode_client CM_Leave)"
    using w by (auto simp: plain_def e newline_utf8 simp del: utf8_simps)
  then show "plain u \<Longrightarrow> client_text (encode_client (CM_Join u))" "plain u \<Longrightarrow> client_text (encode_client (CM_Send u))"
    "client_text (encode_client CM_Leave)"
    by (auto simp: client_text_def)
qed

lemma send_argument_drop: "send_argument s = Some m \<Longrightarrow> m = drop 5 s"
proof -
  have "length CLIENT_SEND_PREFIX = 5" by (simp add: CLIENT_SEND_PREFIX_def lit_def)
  then show "send_argument s = Some m \<Longrightarrow> m = drop 5 s"
    by (auto simp: send_argument_def strip_prefix_def split: option.splits if_splits)
qed

subsection \<open>Writing requests\<close>

lemma lines_snoc: "lines (ms @ [m]) = lines ms @ m @ [newline]"
  by (simp add: lines_def)

lemma encode_client_nonempty [simp]: "encode_client m \<noteq> []"
  by (cases m) (simp_all add: encode_client_def FIELD_SEPARATOR_bar wire_words)

text \<open>Writing a message and then a line feed, with or without stopping at the first error.\<close>

lemma requests_write:
  assumes "requests_ok w" "client_text m" "m \<noteq> []" "write_all m w = (r, w1)"
  shows "r = Inl e \<Longrightarrow> requests_ok w1" "r = Inr u \<Longrightarrow> requests_ok (snd (write_all [newline] w1))"
proof -
  obtain ms rest where w: "wr_out w = lines ms @ rest" "list_all client_text ms" "newline \<notin> set rest"
    "rest \<noteq> [] \<longrightarrow> wr_budget w = Some 0"
    using assms(1) unfolding requests_ok_def by blast
  have m: "newline \<notin> set m" using assms(2) by (simp add: client_text_def)
  have nt: "newline \<notin> set (take k m)" for k using m by (meson in_set_takeD)
  {
    assume "r = Inl e"
    with assms(4) obtain k where "wr_budget w = Some k" "w1 = w\<lparr>wr_out := wr_out w @ take k m, wr_budget := Some 0\<rparr>"
      by (auto simp: write_all_def split: option.splits if_splits)
    with w nt show "requests_ok w1"
      unfolding requests_ok_def by (intro exI [of _ ms] exI [of _ "rest @ take k m"]) simp
  next
    assume "r = Inr u"
    with assms(3,4) w(4) have 1: "rest = []" "wr_out w1 = wr_out w @ m"
      by (auto simp: write_all_def split: option.splits if_splits)
    let ?w2 = "snd (write_all [newline] w1)"
    have "wr_out ?w2 = wr_out w1 @ [newline] \<or> wr_out ?w2 = wr_out w1 \<and> wr_budget ?w2 = Some 0"
      by (auto simp: write_all_def split: option.splits)
    then show "requests_ok ?w2"
    proof
      assume "wr_out ?w2 = wr_out w1 @ [newline]"
      with w 1 assms(2) show ?thesis
        unfolding requests_ok_def by (intro exI [of _ "ms @ [m]"] exI [of _ "[]"]) (simp add: lines_snoc)
    next
      assume "wr_out ?w2 = wr_out w1 \<and> wr_budget ?w2 = Some 0"
      with w 1 m show ?thesis
        unfolding requests_ok_def by (intro exI [of _ ms] exI [of _ m]) simp
    qed
  }
qed

lemma requests_write_line:
  assumes "requests_ok w" "client_text m" "m \<noteq> []" "write_line m w = (r, w')"
  shows "requests_ok w'"
proof -
  obtain q w1 where 1: "write_all m w = (q, w1)" by force
  note rw = requests_write [OF assms(1-3) 1]
  show ?thesis
  proof (cases q)
    case (Inl e)
    with assms(4) 1 rw(1) show ?thesis by (auto simp: write_line_def)
  next
    case (Inr u)
    have "w' = snd (write_all [newline] w1)"
      using assms(4) 1 Inr
      by (cases "write_all [newline] w1"; cases "fst (write_all [newline] w1)") (auto simp: write_line_def flush_def)
    with rw(2) [OF Inr] show ?thesis by simp
  qed
qed

subsection \<open>The invariant of the client\<close>

lemma cl_print_simps [simp]:
  "cl_writer (cl_print ls c) = cl_writer c" "cl_chan (cl_print ls c) = cl_chan c"
  "cl_input (cl_print ls c) = cl_input c" "cl_run (cl_print ls c) = cl_run c"
  "cl_shutdown (cl_print ls c) = cl_shutdown c" "cl_username (cl_print ls c) = cl_username c"
  "cl_reader (cl_print ls c) = cl_reader c" "cl_line (cl_print ls c) = cl_line c"
  "cl_reader_done (cl_print ls c) = cl_reader_done c" "cl_term (cl_print ls c) = cl_term c @ ls"
  by (simp_all add: cl_print_def)

lemma run_command_fields [simp]:
  "cl_chan (run_command s c) = cl_chan c" "cl_input (run_command s c) = cl_input c"
  "cl_shutdown (run_command s c) = cl_shutdown c" "cl_reader (run_command s c) = cl_reader c"
  "cl_line (run_command s c) = cl_line c" "cl_reader_done (run_command s c) = cl_reader_done c"
  by (auto simp: run_command_def Let_def split: option.splits prod.splits sum.splits)

lemma read_server_messages_fields [simp]:
  "cl_chan (read_server_messages U sz c) = cl_chan c" "cl_input (read_server_messages U sz c) = cl_input c"
  "cl_writer (read_server_messages U sz c) = cl_writer c" "cl_run (read_server_messages U sz c) = cl_run c"
  by (auto simp: read_server_messages_def Let_def split: prod.splits sum.splits poll.splits)

lemma run_command_requests:
  assumes "requests_ok (cl_writer c)" "plain s"
  shows "requests_ok (cl_writer (run_command s c))"
proof (cases "eq_ignore_ascii_case (trim s) CLIENT_LEAVE_CMD")
  case True
  obtain r w where "write_line (encode_client CM_Leave) (cl_writer c) = (r, w)" by force
  with requests_write_line [OF assms(1) _ _ this] True show ?thesis
    by (auto simp: run_command_def Let_def split: sum.splits)
next
  case False
  show ?thesis
  proof (cases "send_argument (trim s)")
    case None
    with False assms(1) show ?thesis by (simp add: run_command_def Let_def)
  next
    case (Some m)
    then have "plain m" using send_argument_drop plain_drop assms(2) by (metis plain_trim)
    obtain r w where "write_all (encode_client (CM_Send m)) (cl_writer c) = (r, w)" by force
    with requests_write [OF assms(1) _ _ this] \<open>plain m\<close> False Some show ?thesis
      by (auto simp: run_command_def Let_def flush_def split: sum.splits)
  qed
qed

lemma cmd_channelD:
  assumes "cmd_channel_ok K"
  shows "mpsc_ok (cc_mp K)"
    "cc_blocking_send K c m = (r, c') \<Longrightarrow> mp_messages (cc_mp K) c' = mp_messages (cc_mp K) c @ (if mp_accepts (cc_mp K) c then [m] else [])"
    "cc_blocking_send K c m = (r, c') \<Longrightarrow> r = (if mp_accepts (cc_mp K) c then Ready (Inr ())
       else if mp_closed (cc_mp K) c then Ready (Inl ()) else Pending)"
    "cc_blocking_send K c m = (r, c') \<Longrightarrow> mp_same (cc_mp K) c c'"
    "mp_messages (cc_mp K) (cc_drop_sender K c) = mp_messages (cc_mp K) c"
    "mp_no_senders (cc_mp K) (cc_drop_sender K c)"
  using assms unfolding cmd_channel_ok_def cmd_send_ok_def cmd_drop_ok_def by blast+

lemma input_ok:
  assumes "cmd_channel_ok K" "client_ok K c" "one_line (CL_Input editor line)"
  shows "client_ok K (read_joined_user_input K editor line c)"
proof (cases "cl_input c")
  case Rl_Prompt
  have "plain l" if "line = Some (Inr l)" for l using assms(3) that by (simp add: one_line_def plain_def)
  moreover have "plain (lit ''leave'')" by (simp add: plain_def lit_def wf_str_def is_scalar_def)
  ultimately show ?thesis using assms(1,2) Rl_Prompt
    by (auto simp: client_ok_def read_joined_user_input_def Let_def cmd_channelD(5)
        split: option.splits sum.splits readline_error.splits)
next
  case (Rl_Send s final)
  obtain r ch where "cc_blocking_send K (cl_chan c) s = (r, ch)" by force
  with cmd_channelD(2) [OF assms(1) this] Rl_Send assms(1,2) show ?thesis
    by (auto simp: client_ok_def read_joined_user_input_def Let_def cmd_channelD(5) split: poll.splits sum.splits)
qed (use assms(1,2) in \<open>auto simp: client_ok_def read_joined_user_input_def Let_def cmd_channelD(5)\<close>)

lemma client_run_ok:
  assumes "cmd_channel_ok K" "client_ok K c"
  shows "client_ok K (client_run K c)"
proof (cases "cl_run c = Run_Loop")
  case True
  obtain p ch where r: "mp_recv (cc_mp K) (cl_chan c) = (p, ch)" by force
  note law = mpsc_recv(1,2) [OF cmd_channelD(1) [OF assms(1)] r]
  have "list_all plain (mp_messages (cc_mp K) ch)" using law(2) assms(2)
    by (cases "mp_messages (cc_mp K) (cl_chan c)") (auto simp: client_ok_def)
  moreover have "plain s" if "p = Ready (Some s)" for s
    using that law(1) assms(2) by (auto simp: client_ok_def split: list.splits if_splits)
  ultimately show ?thesis using True r assms(2) run_command_requests [of "c\<lparr>cl_chan := ch\<rparr>"]
    by (auto simp: client_ok_def client_run_def Let_def split: poll.splits option.splits)
qed (use assms(2) in \<open>auto simp: client_ok_def client_run_def split: run_phase.splits\<close>)

lemma client_poll_ok:
  assumes "cmd_channel_ok K" "client_ok K c" "one_line l"
  shows "client_ok K (client_poll U sz K l c)"
proof (cases l)
  case (CL_Input editor line)
  with input_ok [OF assms(1,2)] assms(3) show ?thesis by (simp add: client_poll_def)
next
  case CL_Run
  with client_run_ok [OF assms(1,2)] show ?thesis by (simp add: client_poll_def)
qed (use assms(2) in \<open>auto simp: client_poll_def client_ok_def\<close>)

lemma main_poll_ok:
  assumes "cmd_channel_ok K" "process_ok K pr" "one_line l"
  shows "process_ok K (main_poll U sz K show_readline l pr)"
proof (cases pr)
  case (Joining co tm)
  have w: "co_writer co' = co_writer co" if "join_response U sz co = (p, co')" for p co'
    using that by (auto simp: join_response_def Let_def split: prod.splits poll.splits sum.splits)
  have "mp_messages (cc_mp K) (mp_channel (cc_mp K) 32) = []" using mpsc_channel(1) [OF cmd_channelD(1) [OF assms(1)]] by simp
  with Joining assms(2) w show ?thesis
    by (fastforce simp: main_poll_def process_ok_def client_ok_def run_start_def exit_with_def
        split: client_label.splits prod.splits poll.splits sum.splits)
next
  case (Running c)
  with client_poll_ok [OF assms(1) _ assms(3)] assms(2) show ?thesis
    by (auto simp: main_poll_def process_ok_def Let_def exit_with_def split: run_phase.splits sum.splits)
qed (use assms in \<open>simp add: main_poll_def process_ok_def\<close>)

subsection \<open>Reading lines\<close>

lemma read_line_line:
  assumes "rd_data r = d @ newline # rest" "newline \<notin> set d" "from_utf8 (buf @ d @ [newline]) = Some s"
  shows "read_line buf r = (Ready (Inr (Suc (length (buf @ d)), s)), [], r\<lparr>rd_data := rest\<rparr>)"
proof -
  have f: "find_index (\<lambda>b. b = newline) (d @ newline # rest) = Some (length d)"
    using assms(2) by (intro find_index_skip) auto
  show ?thesis using assms(3) by (simp add: read_line_def read_until_def Let_def assms(1) f)
qed

lemma encode_server_utf8:
  assumes "canonical_server m"
  obtains t where "wf_str t" "encode_server m = utf8 t"
proof -
  have w: "wf_str SERVER_EVENT_OK" "wf_str SERVER_EVENT_ERR" "wf_str SERVER_EVENT_USER_JOINED" "wf_str SERVER_EVENT_USER_LEFT"
    "wf_str SERVER_EVENT_BROADCAST"
    by (simp_all add: wire_words wf_str_def is_scalar_def)
  show thesis
    by (rule that [OF _ encode_server_def])
      (use assms w in \<open>cases m; simp add: FIELD_SEPARATOR_bar canonical_server_def\<close>)
qed

lemma decode_server_trim:
  assumes "wf_str s"
  shows "decode_server U sz (utf8 (trim s)) = decode_server U sz (utf8 s)"
  using assms by (simp add: decode_server_def Let_def)

text \<open>A line from the server is decoded to the message it encodes.\<close>

lemma server_line_decoded:
  assumes "sz_ok sz" "message_ok m"
  obtains s where "from_utf8 (encode_server m @ [newline]) = Some s" "wf_str s" "s \<noteq> []"
    "decode_server U sz (utf8 (trim s)) = Inr m" "trim s = trim (server_message_to_string m)"
proof -
  obtain t where t: "wf_str t" "encode_server m = utf8 t" using encode_server_utf8 assms(2) by (auto simp: message_ok_def)
  have d: "decode_server U sz (encode_server m) = Inr m"
    using decode_encode_server [OF assms(1)] assms(2) by (simp add: message_ok_def)
  have "from_utf8 (encode_server m @ [newline]) = Some (t @ [0x0A])"
    using t by (simp add: newline_def from_utf8_snoc_ascii)
  moreover have "wf_str (t @ [0x0A])" using t(1) by (simp add: wf_str_def is_scalar_def)
  moreover have "decode_server U sz (utf8 (trim (t @ [0x0A]))) = Inr m"
    using d t by (simp add: trim_newline decode_server_trim)
  moreover have "trim (t @ [0x0A]) = trim (server_message_to_string m)"
    using t from_utf8_lossy_valid [of "utf8 t" t] by (simp add: trim_newline server_message_to_string_def)
  ultimately show thesis using that by blast
qed

lemma parse_shown:
  assumes "decode_server U sz (utf8 (trim s)) = Inr m"
  shows "parse_server_message U sz me s = shown me m"
  using assms by (cases m) (simp_all add: parse_server_message_def shown_def)

text \<open>One iteration of the reading task on a line from the server.\<close>

lemma read_one_message:
  assumes "sz_ok sz" "message_ok m" "\<not> cl_reader_done c"
    and "cl_line c = []" "rd_data (cl_reader c) = encode_server m @ newline # rest"
  shows "read_server_messages U sz c
    = cl_print (shown (cl_username c) m) (c\<lparr>cl_reader := (cl_reader c)\<lparr>rd_data := rest\<rparr>\<rparr>)"
proof -
  obtain s where s: "from_utf8 (encode_server m @ [newline]) = Some s" "decode_server U sz (utf8 (trim s)) = Inr m"
    using server_line_decoded [OF assms(1,2)] by metis
  have "read_line [] (cl_reader c) = (Ready (Inr (Suc (length (encode_server m)), s)), [], (cl_reader c)\<lparr>rd_data := rest\<rparr>)"
    using read_line_line [OF assms(5), of "[]" s] assms(2) s(1) by (simp add: message_ok_def)
  with assms(3,4) parse_shown [OF s(2)] show ?thesis
    by (simp add: read_server_messages_def Let_def)
qed

subsection \<open>Commands\<close>

lemma send_argument_prefix:
  "send_argument s = (if prefix (lit ''send '') s \<or> prefix (lit ''SEND '') s then Some (drop 5 s) else None)"
proof -
  have p: "take 5 s = p \<longleftrightarrow> prefix p s" if "length p = 5" for p
    using that by (metis append_eq_conv_conj append_take_drop_id prefix_def)
  have l: "map to_ascii_lowercase CLIENT_SEND_PREFIX = lit ''send ''" "CLIENT_SEND_PREFIX = lit ''SEND ''"
    "length (lit ''send '') = 5" "length (lit ''SEND '') = 5"
    by (simp_all add: CLIENT_SEND_PREFIX_def lit_def to_ascii_lowercase_def is_ascii_uppercase_def)
  show ?thesis by (simp add: send_argument_def strip_prefix_def l(1,3)) (simp add: l(2-4) p)
qed

lemma user_command_canonical:
  assumes "wf_str l" "user_command l = Some m"
  shows "canonical_client m"
proof (cases "map to_ascii_lowercase (trim l) = lit ''leave''")
  case True
  with assms(2) show ?thesis by (simp add: user_command_def canonical_client_def)
next
  case False
  with assms(2) obtain p where p: "prefix p (trim l)" "p = lit ''send '' \<or> p = lit ''SEND ''" and m: "m = CM_Send (drop 5 (trim l))"
    by (auto simp: user_command_def split: if_splits)
  then obtain t where t: "trim l = p @ t" by (auto simp: prefix_def)
  have len: "length p = 5" and ws: "is_whitespace (last p)" and ne: "p \<noteq> []"
    using p(2) by (auto simp: lit_def is_whitespace_def)
  have last: "\<not> is_whitespace (last (trim l))" by (rule trim_last) (use t ne in simp)
  then have "t \<noteq> []" using t ws by auto
  moreover have "wf_str t" using wf_str_trim [OF assms(1)] t by simp
  moreover have "\<not> is_whitespace (last t)" using last t \<open>t \<noteq> []\<close> by simp
  ultimately show ?thesis using m t len by (simp add: canonical_client_def trimmed_end_def)
qed

subsection \<open>Runs of the client\<close>

lemma start_ok:
  assumes "\<And>addr r w. net addr = Inr (r, w) \<Longrightarrow> wr_out w = []" "plain (ar_username a)"
  shows "process_ok K (main_start sr net a)"
proof -
  have "requests_ok w" if "wr_out w = []" for w
    using that unfolding requests_ok_def by (intro exI [of _ "[]"]) (simp add: lines_def)
  with assms show ?thesis
    by (auto simp: main_start_def process_ok_def client_connect_def disconnected_new_def join_request_def exit_with_def Let_def
        split: sum.splits prod.splits intro: requests_write_line [rotated 3])
qed

interpretation client: step_invariant process_step
  "\<lambda>((U, sz, K, sr), pr). cmd_channel_ok K \<and> (\<exists>net a. pr = main_start sr net a
     \<and> (\<forall>addr r w. net addr = Inr (r, w) \<longrightarrow> wr_out w = []) \<and> plain (ar_username a))"
  "\<lambda>((U, sz, K, sr), pr). cmd_channel_ok K \<and> process_ok K pr"
proof (unfold_locales, goal_cases)
  case (1 s)
  then show ?case by (auto intro: start_ok)
next
  case (2 s l s')
  then show ?case by (auto simp: process_step_def split: prod.splits elim!: main_stepE intro: main_poll_ok)
qed

lemma process_steps:
  "steps (main_step U sz K sr) pr ls pr' \<Longrightarrow> steps process_step ((U, sz, K, sr), pr) ls ((U, sz, K, sr), pr')"
  by (induction rule: steps.induct) (auto simp: steps_Cons_iff process_step_def)

text \<open>A hung client stays hung: the second use of the invariant rule.\<close>

lemma hung_poll:
  assumes "cmd_channel_ok K" "hung K c"
  shows "hung K (client_poll U sz K l c)"
proof (cases l)
  case (CL_Input editor line)
  obtain s final where s: "cl_input c = Rl_Send s final" using assms(2) by (auto simp: hung_def)
  obtain r ch where b: "cc_blocking_send K (cl_chan c) s = (r, ch)" by force
  note law = cmd_channelD(2-4) [OF assms(1) b]
  have "r = Pending" using law(2) assms(2) by (simp add: hung_def)
  moreover have "\<not> mp_accepts (cc_mp K) ch" "\<not> mp_closed (cc_mp K) ch"
    using law(1,3) assms(2) by (auto simp: hung_def mp_accepts_def mp_same_def split: if_splits)
  ultimately show ?thesis using CL_Input s b assms(2)
    by (simp add: hung_def client_poll_def read_joined_user_input_def Let_def)
qed (use assms(2) in \<open>auto simp: hung_def client_poll_def client_run_def\<close>)

interpretation hang: step_invariant process_step
  "\<lambda>((U, sz, K, sr), pr). cmd_channel_ok K \<and> (\<exists>c. pr = Running c \<and> hung K c)"
  "\<lambda>((U, sz, K, sr), pr). cmd_channel_ok K \<and> (\<exists>c. pr = Running c \<and> hung K c)"
proof (unfold_locales, goal_cases)
  case (2 s l s')
  then obtain U sz K sr c where s: "s = ((U, sz, K, sr), Running c)" "cmd_channel_ok K" "hung K c" by auto
  have h: "hung K (client_poll U sz K l c)" using hung_poll [OF s(2,3)] .
  then have "cl_run (client_poll U sz K l c) = Run_Input" by (simp add: hung_def)
  with 2(2) s h show ?case by (auto simp: process_step_def main_poll_def Let_def elim!: main_stepE)
qed auto

text \<open>After the shutdown flag is set nothing is written.\<close>

lemma silent_poll:
  assumes "cl_shutdown c"
  shows "cl_shutdown (client_poll U sz K l c) \<and> cl_writer (client_poll U sz K l c) = cl_writer c"
proof (cases l)
  case CL_Reader
  with assms show ?thesis
    by (auto simp: client_poll_def read_server_messages_def Let_def split: prod.splits sum.splits poll.splits)
next
  case (CL_Input editor line)
  with assms show ?thesis
    by (auto simp: client_poll_def read_joined_user_input_def Let_def
        split: input_thread.splits option.splits sum.splits readline_error.splits prod.splits poll.splits)
next
  case CL_Run
  with assms show ?thesis
    by (auto simp: client_poll_def client_run_def Let_def split: run_phase.splits option.splits prod.splits poll.splits)
qed (use assms in \<open>auto simp: client_poll_def\<close>)

interpretation silence: step_invariant process_step
  "\<lambda>(S, pr). \<exists>c. pr = Running c \<and> cl_shutdown c \<and> cl_writer c = w"
  "\<lambda>(S, pr). case pr of Joining _ _ \<Rightarrow> False | Running c \<Rightarrow> cl_shutdown c \<and> cl_writer c = w | Exited _ _ \<Rightarrow> True" for w
proof (unfold_locales, goal_cases)
  case (2 s l s')
  obtain U sz K sr pr where s: "s = ((U, sz, K, sr), pr)" by (metis prod_cases4 surj_pair)
  have s': "snd s' = main_poll U sz K sr l pr" using 2(2) s by (auto simp: process_step_def elim!: main_stepE)
  show ?case
  proof (cases pr)
    case (Running c)
    with 2(1) s s' silent_poll [of c U sz K l] show ?thesis
      by (auto simp: main_poll_def Let_def exit_with_def split: run_phase.splits sum.splits)
  qed (use 2(1) s s' in \<open>auto simp: main_poll_def\<close>)
qed auto

subsection \<open>Properties of the client\<close>





text \<open>Property C18: the reading task prints, for the messages of the server in order, exactly what is
  meant for this user: errors, and what the other users do; its own messages come back
  silently.\<close>

theorem client_shows_messages:
  assumes "sz_ok sz" "list_all message_ok ms" "\<not> cl_reader_done c" "cl_line c = []"
    and "rd_data (cl_reader c) = lines (map encode_server ms) @ rest"
  shows "let c' = (read_server_messages U sz ^^ length ms) c in
    cl_term c' = cl_term c @ concat (map (shown (cl_username c)) ms) \<and> rd_data (cl_reader c') = rest"
  using assms(2-5)
proof (induction ms arbitrary: c)
  case (Cons m ms)
  let ?c1 = "cl_print (shown (cl_username c) m) (c\<lparr>cl_reader := (cl_reader c)\<lparr>rd_data := lines (map encode_server ms) @ rest\<rparr>\<rparr>)"
  have "read_server_messages U sz c = ?c1"
    by (rule read_one_message [OF assms(1)]) (use Cons.prems in \<open>simp_all add: lines_def\<close>)
  moreover have "(read_server_messages U sz ^^ length (m # ms)) c
      = (read_server_messages U sz ^^ length ms) (read_server_messages U sz c)"
    by (simp add: funpow_swap1)
  ultimately show ?case using Cons.IH [of ?c1] Cons.prems by (simp add: Let_def)
qed (simp add: lines_def)

lemma main_run_steps:
  "list_all one_line ls \<Longrightarrow> steps (main_step U sz K sr) pr ls (main_run U sz K sr ls pr)"
  by (induction ls arbitrary: pr) (auto simp: main_run_def steps_Cons_iff intro: main_step.intros)

lemma one_line_simps [simp]:
  "one_line CL_Run" "one_line CL_Reader" "one_line (CL_Net bs st)" "one_line (CL_Input b None)"
  "one_line (CL_Input b (Some (Inr s))) \<longleftrightarrow> plain s"
  by (simp_all add: one_line_def plain_def)

lemma plain_demo [simp]: "plain (lit ''leave'')" "plain (lit ''x'')" "plain (lit ''send hi'')" "plain (lit ''ann'')"
  by (simp_all add: plain_def lit_def wf_str_def is_scalar_def)

lemma paste_lines: "list_all one_line paste"
  by (auto simp: paste_def typed_def types_def list_all_iff)

lemma paste_hangs: "case demo_run paste of Running c \<Rightarrow>
    cl_run c = Run_Input \<and> cl_input c = Rl_Send (lit ''x'') False \<and> cl_shutdown c \<and> cl_reader_done c
    \<and> \<not> mp_accepts ref_mpsc (cl_chan c) \<and> \<not> mp_closed ref_mpsc (cl_chan c)
  | _ \<Rightarrow> False"
  by code_simp

text \<open>Property C29: the client can hang for ever after \<open>leave\<close>: there is a run, in which the user
  pastes more lines than the command channel holds, to a state where the client has left and
  been disconnected, and from which no step whatever makes it exit.\<close>

theorem client_can_hang:
  "\<exists>ls c. steps (main_step ascii_unicode ref_sz ref_cmd_channel (\<lambda>_. [])) demo_start ls (Running c)
     \<and> cl_shutdown c \<and> cl_reader_done c
     \<and> {pr. \<exists>ls'. steps (main_step ascii_unicode ref_sz ref_cmd_channel (\<lambda>_. [])) (Running c) ls' pr}
       \<subseteq> {Running c' | c'. cl_run c' = Run_Input}"
proof -
  obtain c where c: "demo_run paste = Running c" "hung ref_cmd_channel c" "cl_shutdown c" "cl_reader_done c"
    using paste_hangs by (auto simp: hung_def ref_cmd_channel_def split: process.splits)
  have "steps (main_step ascii_unicode ref_sz ref_cmd_channel (\<lambda>_. [])) demo_start paste (Running c)"
    using main_run_steps [OF paste_lines, of ascii_unicode ref_sz ref_cmd_channel "\<lambda>_. []" demo_start] c(1)
    by (simp add: demo_run_def)
  moreover have "\<exists>c'. pr = Running c' \<and> cl_run c' = Run_Input"
    if "steps (main_step ascii_unicode ref_sz ref_cmd_channel (\<lambda>_. [])) (Running c) ls' pr" for ls' pr
    using hang.inv_steps [OF process_steps [OF that]] c(2) ref_cmd_channel_ok by (auto simp: hung_def)
  ultimately show ?thesis using c(3,4) by blast
qed

subsection \<open>Witnesses\<close>

lemma talk_eval:
  "case demo_run talk of Running c \<Rightarrow>
     wr_out (cl_writer c) = lines [encode_client (CM_Join (lit ''ann'')), encode_client (CM_Send (lit ''hi''))]
     \<and> wr_budget (cl_writer c) = None \<and> \<not> cl_reader_done c \<and> cl_line c = [] \<and> \<not> cl_shutdown c \<and> rd_data (cl_reader c) = []
   | _ \<Rightarrow> False"
  by code_simp

lemma talk_run:
  obtains c where "demo_run talk = Running c"
    "wr_out (cl_writer c) = lines [encode_client (CM_Join (lit ''ann'')), encode_client (CM_Send (lit ''hi''))]"
    "wr_budget (cl_writer c) = None" "\<not> cl_reader_done c" "cl_line c = []"
    "steps (main_step ascii_unicode ref_sz ref_cmd_channel (\<lambda>_. [])) demo_start talk (Running c)"
proof -
  obtain c where c: "demo_run talk = Running c" using talk_eval by (auto split: process.splits)
  have "list_all one_line talk" by (simp add: talk_def typed_def types_def)
  from main_run_steps [OF this, of ascii_unicode ref_sz ref_cmd_channel "\<lambda>_. []" demo_start] c talk_eval that
  show thesis by (simp add: demo_run_def)
qed





lemma client_shows_messages_witness:
  "\<exists>c. demo_run talk = Running c
     \<and> cl_term ((read_server_messages ascii_unicode ref_sz ^^ 2) (c\<lparr>cl_reader := \<lparr> rd_data =
         lines (map encode_server [SM_Broadcast (lit ''ann'') (lit ''hi''), SM_Broadcast (lit ''bob'') (lit ''yo'')]),
         rd_status = In_Open \<rparr>\<rparr>)) = cl_term c @ [Stdout ([0x0D] @ lit ''[bob]: yo'')]"
proof -
  let ?ms = "[SM_Broadcast (lit ''ann'') (lit ''hi''), SM_Broadcast (lit ''bob'') (lit ''yo'')]"
  obtain c where c: "demo_run talk = Running c" "\<not> cl_reader_done c" "cl_line c = []" using talk_run by metis
  let ?c = "c\<lparr>cl_reader := \<lparr> rd_data = lines (map encode_server ?ms), rd_status = In_Open \<rparr>\<rparr>"
  have "case demo_run talk of Running c \<Rightarrow> cl_username c = lit ''ann'' | _ \<Rightarrow> False" by code_simp
  with c have u: "cl_username c = lit ''ann''" by simp
  have m: "list_all message_ok ?ms" "concat (map (shown (lit ''ann'')) ?ms) = [Stdout ([0x0D] @ lit ''[bob]: yo'')]"
    by code_simp+
  from client_shows_messages [OF ref_sz_ok m(1), of ?c "[]" ascii_unicode] c u m(2) show ?thesis
    by (simp add: Let_def numeral_2_eq_2)
qed

end
