(* ===== verification/Spec2Isabelle.thy ===== *)
theory Spec2Isabelle
  imports Security Chat_Config Connection_Behaviour Authenticity Server_Process Chat_Spec Chat_Client
begin

text \<open>
  A model of the chat system of this repository, a TCP server with one chat room and a command
  line client, with proofs of what it does.

  \<^bold>\<open>The program.\<close> A client connects to the server and sends lines: \<open>JOIN|name\<close>, \<open>SEND|text\<close>,
  \<open>LEAVE\<close>. The server runs one task per connection, a state machine \<open>Unauthenticated\<close>,
  \<open>Joined\<close>, \<open>Disconnected\<close>. A joined user is in the registry under its case-folded name together
  with the sender of its channel. A message goes into the room, a bounded queue; the dispatcher
  task takes messages off the room and puts each into the channel of every registered user;
  the connection of that user writes it to its socket. An accept loop with a semaphore limits
  the number of connections; an interrupt stops everything. The client has a loop for typed
  commands, a task that prints what the server sends, and a thread for the line editor.

  \<^bold>\<open>The theories\<close>, from the bottom up, with the sources they model (under \<open>src/\<close>):

  \<^item> \<open>Chat_Prelude\<close>: words, results, \<open>try_bind\<close> for the question mark operator, lists; runs of
    transition systems and the locales \<open>step_invariant\<close>, \<open>step_monotone\<close>, \<open>step_origin\<close>, \<open>step_refinement\<close>.
  \<^item> \<open>Rust_Str\<close>: Rust strings as lists of scalar values, UTF-8 in both directions, trimming,
    prefixes, case. Unicode tables beyond ASCII are the parameter \<open>unicode\<close>.
  \<^item> \<open>External_Libs\<close>: the crates the code calls (stringzilla, crossbeam, the tokio channel,
    governor), each a record of operations with a predicate of its documented behaviour and
    a reference implementation that satisfies it, which the concrete runs use.
  \<^item> \<open>Consts\<close> (\<open>common/src/consts.rs\<close>), \<open>Tcp_Message\<close> (\<open>common/src/tcp_message.rs\<close>): encoding and
    decoding of both kinds of message; round trips, the accepted grammar, the errors; the
    locale \<open>wire_codec\<close>, interpreted for both directions.
  \<^item> \<open>Security\<close> (\<open>common/src/security.rs\<close>): sanitising and truncating for the log.
  \<^item> \<open>Chat_Config\<close> (\<open>common/src/config.rs\<close>, \<open>common/src/telemetry.rs\<close>): the settings, and \<open>init_logging\<close>
    over the record \<open>tracing\<close> of the tracing crates.
  \<^item> \<open>Username_String\<close> (\<open>server/src/chat/string.rs\<close>), \<open>User_Registry\<close> (\<open>server/src/chat/user.rs\<close>,
    locale \<open>name_registry\<close>), \<open>Rate_Limiter\<close> (\<open>server/src/chat/rate_limiter.rs\<close>), \<open>Room\<close>
    (\<open>server/src/chat/room.rs\<close>, locale \<open>message_queue\<close>, interpreted for the room and in \<open>Broker\<close>
    for the channels), \<open>Broker\<close> (\<open>server/src/chat/broker.rs\<close>: forwarding, the dispatcher as a task
    that is polled, with the concurrent sends of its broadcasts, and its shutdown). The record \<open>libs\<close> collects the crates, \<open>libs_ok\<close> their laws.
  \<^item> \<open>Tokio_Io\<close>: the two halves of a TCP stream as both programs use them.
  \<^item> \<open>Connection\<close> (\<open>server/src/chat/connection.rs\<close>): every handler, as a function that threads the
    broker and the socket; \<open>poll_connection\<close> is one poll of the task, with its waiting point in
    the state. \<open>Connection_Invariant\<close>: what every poll keeps and what it does to the registry.
  \<^item> \<open>Server_Main\<close> (\<open>server/src/main.rs\<close>): the accept loop and the relation \<open>server_step\<close>, in which
    the polls of all tasks are interleaved in any order; its invariant \<open>server_ok\<close>.
  \<^item> \<open>Connection_Behaviour\<close>: what a connection does on each command, on overlong lines, when it
    ends and at shutdown, and where it loses something.
  \<^item> \<open>Rate_Behaviour\<close>: the rate limiter along the runs of the server: how fast the messages of a
    connection enter the room, and that a message held back is sent.
  \<^item> \<open>Posting\<close>: what a poll puts into the room; \<open>Emission\<close>: what a poll writes to its socket.
    \<open>Authenticity\<close>: where the messages under way and the lines received come from: their type, and
    that every broadcast was sent by the user it names (\<open>circulation\<close>, an interpretation of
    \<open>step_origin\<close>).
  \<^item> \<open>Server_Process\<close> (\<open>server/src/main.rs\<close>): \<open>main\<close> with its errors; the orderly shutdown, and what
    is lost when it is not waited for.
  \<^item> \<open>Chat_Spec\<close>: an abstract chat, and the refinement of it by the server.
  \<^item> \<open>Chat_Client\<close> (\<open>client/src/main.rs\<close>): connecting, joining, and the three concurrent parts of
    the running client as the relation \<open>main_step\<close>.
  \<^item> This theory: the path of a message through all of it.

  \<^bold>\<open>How the code is rendered.\<close> A struct is a record, an enum a datatype, \<open>Result\<close> a sum with the
  error on the left. Shared state is passed explicitly. An asynchronous function is cut at its
  waiting points: a poll runs to the next one. Time, the bytes that arrive, the outcome of lock
  timeouts and of the blocking receive, and breaking sockets are inputs of the steps, so the
  theorems hold for all of them. \<open>usize\<close> is a natural number with the saturating operations
  written out; \<open>u8\<close>, \<open>u16\<close>, \<open>u32\<close> are words.

  \<^bold>\<open>Loops.\<close> Structural recursion or a proved measure (\<open>discard_line\<close>: the bytes not yet read).
  Only \<open>drain_loop\<close> has fuel, one more than the messages in the channel; \<open>drain_loop_enough\<close>
  shows that more changes nothing and \<open>drain_writes_all\<close> that it returns with the channel
  empty. How often the dispatcher has to be polled until the room is empty, or until it has stopped,
  is bounded by \<open>work\<close> and \<open>stop_work\<close>; a broadcast by its number of senders. Loops that run as long as the process does are one step per iteration.

  \<^bold>\<open>What is shown.\<close> The framing of everything either side writes; the exclusiveness of names; the
  order of messages, as a refinement; the authenticity and the type of the messages under way; the
  effect of each command and each way of leaving; limits (connections, queue, lines, and the rate of
  each sender along every run); start and shutdown; the codec; the validation of names; and, as
  theorems, several behaviours that the authors may not have wanted.

  \<^bold>\<open>What is not modelled, and why.\<close> Log output and the prompt and history of the line editor
  are output only. The command line parser, the line editor, the Unicode tables and the crates are
  parameters. Time is the clock of the rate limiter; otherwise it appears only as who times out.
  A full room refuses at once, where the code blocks up to 100 ms for space. A write to a socket
  succeeds or fails and does not wait. Tests, build files and
  scripts, and \<open>proto/\<close>, which no code uses, are left out.
\<close>

definition drained :: "server_label list" where
  "drained = greeted @ [SL_Poll 0 quiet, SL_Poll 1 quiet]"

definition bob :: "rstr mfifo client" where
  "bob = run_start ref_cmd_channel (lit ''Bob'')
     \<lparr> rd_data = encode_server (SM_Broadcast (lit ''a'') (lit ''hi'')) @ [newline], rd_status = In_Open \<rparr>
     \<lparr> wr_out = [], wr_budget = None, wr_error = [] \<rparr> []"

lemma broadcast_message_ok:
  assumes "libs_ok L" "valid_username (lb_unicode L) n" "line_buf buf"
    and "decode_client (lb_unicode L) (lb_sz L) buf = Inr (CM_Send t)"
  shows "message_ok (SM_Broadcast (username_to_string n) t)"
proof -
  have "clean_server (SM_Broadcast (username_to_string n) t)"
    using valid_name_clean [OF assms(2)] decode_line_clean(2) [OF libs_okD(1) [OF assms(1)] assms(3,4)]
    by (simp add: clean_server_def)
  then have "newline \<notin> set (encode_server (SM_Broadcast (username_to_string n) t))"
    using server_text_no_newline unfolding server_text_def by blast
  with broadcast_canonical [OF assms] show ?thesis by (simp add: message_ok_def)
qed

text \<open>A \<open>SEND\<close> command when the room has space: the message joins the room, nothing else changes.\<close>

lemma handle_send:
  assumes "libs_ok L" "room_ok (lb_cb L) (bk_room (io_broker io))"
    and "length (queued L (io_broker io)) < room_capacity (lb_cb L) (bk_room (io_broker io))"
    and "decode_client (lb_unicode L) (lb_sz L) (sk_buf (io_sock io)) = Inr (CM_Send t)"
    and "handle_joined_message L env j io = (Ready r, io')"
  shows "queued L (io_broker io') = queued L (io_broker io) @ [encode_server (SM_Broadcast (user_to_string (jn_user j)) t)]"
    "io_broker io' = (io_broker io)\<lparr>bk_room := bk_room (io_broker io')\<rparr>"
    "room_ok (lb_cb L) (bk_room (io_broker io'))"
proof -
  let ?m = "encode_server (SM_Broadcast (user_to_string (jn_user j)) t)"
  obtain q b' where f: "forward_to_room L (io_broker io) ?m = (q, b')" by force
  note law = forward_law [OF assms(1,2) f]
  have "io_broker io' = b'"
    using assms(3-5) f law(1)
    by (auto simp: handle_joined_message_def user_to_string_def get_username_def forward_or_report_def Let_def split: prod.splits poll.splits)
  with law assms(3) show "queued L (io_broker io') = queued L (io_broker io) @ [?m]"
    "io_broker io' = (io_broker io)\<lparr>bk_room := bk_room (io_broker io')\<rparr>"
    "room_ok (lb_cb L) (bk_room (io_broker io'))"
    by simp_all
qed

text \<open>Property C3: the path of a message through all components. A joined user's \<open>SEND\<close> line goes
  through the connection into the room, the dispatcher delivers it to the channel of another
  registered user, whose connection writes it to its socket, and the client that reads these
  bytes prints the text under the sender's registered name, or nothing if that is its own
  name. (The room was empty and the dispatcher idle, the rate limiter lets the sender through, the lock is
  obtained, the receiver's channel has space and its socket works; channels of others may be full.)\<close>

theorem message_end_to_end:
  assumes "libs_ok L" "broker_ok L b" "\<not> bk_shutdown_flag b" "queued L b = []"
    and "state_ok L cid (Joined j)" "line_buf (sk_buf s)"
    and "decode_client (lb_unicode L) (lb_sz L) (sk_buf s) = Inr (CM_Send t)"
    and "handle_joined_message L env j \<lparr> io_broker = b, io_sock = s \<rparr> = (Ready r, io1)"
    and "bk_task b \<in> {Dp_Top, Dp_Receiving}" "list_all env_ok es" "list_all de_elapsed es"
    and "work L (io_broker io1) \<le> length es" "b2 = dispatcher_loop L es (io_broker io1)"
    and "jn_rx k \<in> registered b" "mp_accepts (lb_mp L) (bk_channels b (jn_rx k))" "inbox L b (jn_rx k) = []"
    and "wr_budget (sk_writer s2) = None"
    and "drain_broadcasts L k \<lparr> io_broker = b2, io_sock = s2 \<rparr> = (r3, io3)"
    and "\<not> cl_reader_done c" "cl_line c = []"
    and "wr_out (sk_writer (io_sock io3)) = wr_out (sk_writer s2) @ rd_data (cl_reader c)"
  shows "cl_term (read_server_messages U (lb_sz L) c)
    = cl_term c @ shown (cl_username c) (SM_Broadcast (user_to_string (jn_user j)) t)"
proof -
  let ?io = "\<lparr> io_broker = b, io_sock = s \<rparr>" and ?sm = "SM_Broadcast (user_to_string (jn_user j)) t"
  have rok: "room_ok (lb_cb L) (bk_room b)" using assms(2) by (simp add: broker_ok_def)
  then have space: "length (queued L b) < room_capacity (lb_cb L) (bk_room b)"
    using assms(4) by (simp add: room_ok_def room_capacity_def)
  have hs: "queued L (io_broker io1) = [encode_server ?sm]"
    "io_broker io1 = b\<lparr>bk_room := bk_room (io_broker io1)\<rparr>" "room_ok (lb_cb L) (bk_room (io_broker io1))"
    using handle_send [OF assms(1), of ?io t env j r io1] rok space assms(4,7,8) by auto
  have b1: "bk_registry (io_broker io1) = bk_registry b" "bk_channels (io_broker io1) = bk_channels b"
    "\<not> bk_shutdown_flag (io_broker io1)" "bk_task (io_broker io1) = bk_task b"
    by (subst hs(2), simp add: assms(3))+
  have bok: "broker_ok L (io_broker io1)" using assms(2) hs(3) b1(1,4) by (simp add: broker_ok_def)
  have "pending_for (io_broker io1) (jn_rx k) = []" using b1(4) assms(9) by (auto simp: pending_for_def current_def)
  moreover have "inbox L (io_broker io1) (jn_rx k) = []" using assms(16) b1(2) by (simp add: inbox_def)
  ultimately have "inbox L b2 (jn_rx k) = [encode_server ?sm]"
    using loop_delivers [OF assms(1) bok b1(3) _ _ assms(10-12), of "jn_rx k"] assms(9,13-15) hs(1) b1
    by (auto simp: registered_def mp_accepts_def)
  moreover have "unbroken \<lparr> io_broker = b2, io_sock = s2 \<rparr>" using assms(17) by (simp add: unbroken_def)
  ultimately have "out io3 = wr_out (sk_writer s2) @ encode_server ?sm @ [newline]"
    using drain_ok [OF assms(1), of "\<lparr> io_broker = b2, io_sock = s2 \<rparr>" k] assms(18)
    by (auto simp: out_def lines_def)
  then have rd: "rd_data (cl_reader c) = encode_server ?sm @ newline # []" using assms(21) by (simp add: out_def)
  have "message_ok ?sm"
    using broadcast_message_ok [OF assms(1) _ assms(6,7), of "u_username (jn_user j)"] assms(5)
    by (simp add: state_ok_def user_to_string_def)
  from read_one_message [OF libs_okD(1) [OF assms(1)] this assms(19,20) rd] show ?thesis by simp
qed

lemma drained_eval:
  "case server_run ref_libs drained (server_start ref_libs [] []) of None \<Rightarrow> False
   | Some sv \<Rightarrow> length (sv_conns sv) = 2 \<and> list_all running (sv_conns sv)
      \<and> \<not> bk_shutdown_flag (sv_broker sv) \<and> bk_task (sv_broker sv) = Dp_Top \<and> queued ref_libs (sv_broker sv) = []
      \<and> wr_budget (sk_writer (cn_sock (sv_conns sv ! 1))) = None
      \<and> (case (cn_state (sv_conns sv ! 0), cn_state (sv_conns sv ! 1)) of
           (Joined j, Joined k) \<Rightarrow>
             user_to_string (jn_user j) = lit ''a'' \<and> jn_rx k \<in> registered (sv_broker sv)
             \<and> mp_accepts (lb_mp ref_libs) (bk_channels (sv_broker sv) (jn_rx k)) \<and> inbox ref_libs (sv_broker sv) (jn_rx k) = []
             \<and> (let s = (cn_sock (sv_conns sv ! 0))\<lparr>sk_buf := utf8 (lit ''SEND|hi'') @ [newline]\<rparr>;
                    (p, io1) = handle_joined_message ref_libs quiet j \<lparr> io_broker = sv_broker sv, io_sock = s \<rparr>;
                    b2 = dispatcher_loop ref_libs (replicate 4 smooth) (io_broker io1);
                    s2 = cn_sock (sv_conns sv ! 1)
                in p \<noteq> Pending \<and> work ref_libs (io_broker io1) \<le> 4 \<and> wr_out (sk_writer (io_sock (snd (drain_broadcasts ref_libs k \<lparr> io_broker = b2, io_sock = s2 \<rparr>))))
                   = wr_out (sk_writer s2) @ rd_data (cl_reader bob))
         | _ \<Rightarrow> False)"
  by code_simp

lemma message_end_to_end_witness:
  "cl_term (read_server_messages ascii_unicode ref_sz bob) = [Stdout ([0x0D] @ lit ''[a]: hi'')]"
proof -
  let ?sv = "run_of drained" and ?es = "replicate 4 smooth"
  let ?s = "(cn_sock (sv_conns ?sv ! 0))\<lparr>sk_buf := utf8 (lit ''SEND|hi'') @ [newline]\<rparr>" and ?s2 = "cn_sock (sv_conns ?sv ! 1)"
  obtain j k r io1 where jk: "cn_state (sv_conns ?sv ! 0) = Joined j" "cn_state (sv_conns ?sv ! 1) = Joined k"
    and run: "server_run ref_libs drained (server_start ref_libs [] []) \<noteq> None"
    and sv: "length (sv_conns ?sv) = 2" "list_all running (sv_conns ?sv)" "\<not> bk_shutdown_flag (sv_broker ?sv)"
      "queued ref_libs (sv_broker ?sv) = []" "wr_budget (sk_writer ?s2) = None" "user_to_string (jn_user j) = lit ''a''"
      "jn_rx k \<in> registered (sv_broker ?sv)" "mp_accepts (lb_mp ref_libs) (bk_channels (sv_broker ?sv) (jn_rx k))"
      "inbox ref_libs (sv_broker ?sv) (jn_rx k) = []" "bk_task (sv_broker ?sv) = Dp_Top"
    and hm: "handle_joined_message ref_libs quiet j \<lparr> io_broker = sv_broker ?sv, io_sock = ?s \<rparr> = (Ready r, io1)"
    and wk: "work ref_libs (io_broker io1) \<le> 4"
    and path: "let b2 = dispatcher_loop ref_libs ?es (io_broker io1)
                in wr_out (sk_writer (io_sock (snd (drain_broadcasts ref_libs k \<lparr> io_broker = b2, io_sock = ?s2 \<rparr>))))
                   = wr_out (sk_writer ?s2) @ rd_data (cl_reader bob)"
    using drained_eval
    by (auto simp: run_of_def Let_def split: option.splits connection_state.splits prod.splits)
      (metis poll.exhaust)
  note reach = run_of_steps [OF run]
  have r0: "running (sv_conns ?sv ! 0)" using sv(1,2) by (simp add: list_all_length)
  have st: "state_ok ref_libs 0 (Joined j)"
    using reachable_conn(1) [OF ref_libs_ok reach, of 0] sv(1) r0 jk(1) by (simp add: conn_ok_def running_def)
  have bok: "broker_ok ref_libs (sv_broker ?sv)" using server_okD(1) [OF reachable_ok [OF ref_libs_ok reach]] .
  have d: "newline \<notin> set (utf8 (lit ''SEND|hi''))" "length (utf8 (lit ''SEND|hi'')) < MAX_CLIENT_BUFFER_SIZE"
    "decode_client (lb_unicode ref_libs) (lb_sz ref_libs) (utf8 (lit ''SEND|hi'') @ [newline]) = Inr (CM_Send (lit ''hi''))"
    "\<not> cl_reader_done bob" "cl_line bob = []" "cl_username bob = lit ''Bob''" "cl_term bob = []"
    "shown (lit ''Bob'') (SM_Broadcast (lit ''a'') (lit ''hi'')) = [Stdout ([0x0D] @ lit ''[a]: hi'')]"
    by code_simp+
  have sz: "lb_sz ref_libs = ref_sz" by (simp add: ref_libs_def)
  have es: "list_all env_ok ?es" "list_all de_elapsed ?es" "work ref_libs (io_broker io1) \<le> length ?es"
    using wk by (simp_all add: list_all_iff smooth_def env_ok_def)
  have tk: "bk_task (sv_broker ?sv) \<in> {Dp_Top, Dp_Receiving}" using sv(10) by simp
  have b: "line_buf (sk_buf ?s)" using line_buf_text [OF d(1,2)] by simp
  have dec: "decode_client (lb_unicode ref_libs) (lb_sz ref_libs) (sk_buf ?s) = Inr (CM_Send (lit ''hi''))" using d(3) by simp
  from message_end_to_end [OF ref_libs_ok bok sv(3,4) st b dec hm tk es refl sv(7-9,5) prod.collapse [symmetric] d(4,5) path [unfolded Let_def], of ascii_unicode]
  show ?thesis by (simp only: d(6-8) sz sv(6) append_Nil)
qed

end
